(* ===== verification/Prelude.thy ===== *)
theory Prelude
  imports Main "HOL-Library.Word"
begin

text \<open>
  The vocabulary every component of the development shares: the machine integers of the
  sources, \<^verbatim>\<open>std::time::Duration\<close> with its saturating arithmetic, the \<^verbatim>\<open>Vec\<close> operations
  the brokers use (\<^verbatim>\<open>position\<close>, \<^verbatim>\<open>remove\<close>, \<^verbatim>\<open>retain\<close>), the early-return operator
  \<^verbatim>\<open>?\<close> on results, and the symbolic form of a \<^verbatim>\<open>format!\<close> text.  The generic lemmas about
  them are collected in \<open>vec_simps\<close> and \<open>dur_simps\<close> or declared to the simplifier.
\<close>

named_theorems vec_simps \<open>facts about position, remove_at and filter on vectors\<close>
named_theorems dur_simps \<open>facts about saturating durations\<close>

section \<open>Machine integers\<close>

type_synonym u8 = "8 word"
type_synonym u32 = "32 word"
type_synonym u64 = "64 word"
type_synonym bytes = "u8 list"

definition U32_MAX :: nat where "U32_MAX = 2 ^ 32 - 1"
definition U64_MAX :: nat where "U64_MAX = 2 ^ 64 - 1"
definition U128_MAX :: nat where "U128_MAX = 2 ^ 128 - 1"
definition I64_MAX :: int where "I64_MAX = 2 ^ 63 - 1"
definition I64_MIN :: int where "I64_MIN = - (2 ^ 63)"

text \<open>\<^verbatim>\<open>u32::saturating_add\<close>.\<close>

definition u32_saturating_add :: "u32 \<Rightarrow> u32 \<Rightarrow> u32" where
  "u32_saturating_add a b = (if unat a + unat b \<le> U32_MAX then a + b else - 1)"

lemma unat_u32_saturating_add:
  "unat (u32_saturating_add a b) = min (unat a + unat b) U32_MAX"
proof (cases "unat a + unat b \<le> U32_MAX")
  case True
  then have "unat a + unat b < 2 ^ 32" by (simp add: U32_MAX_def)
  then have "unat (a + b) = unat a + unat b"
    by (simp add: unat_word_ariths)
  with True show ?thesis by (simp add: u32_saturating_add_def)
next
  case False
  moreover have "unat (- 1 :: u32) = U32_MAX"
    by (simp add: unsigned_minus_1_eq_mask mask_eq_exp_minus_1 U32_MAX_def)
  ultimately show ?thesis by (simp add: u32_saturating_add_def)
qed

lemma unat_u32_le: "unat (a :: u32) \<le> U32_MAX"
  proof -
  have "unat a < 2 ^ 32" using unsigned_less [of a] by simp
  then show ?thesis by (simp add: U32_MAX_def)
qed

lemma u32_saturating_add_mono: "a \<le> u32_saturating_add a b"
  using unat_u32_le [of a] by (simp add: word_le_nat_alt unat_u32_saturating_add)

text \<open>The saturating conversions \<^verbatim>\<open>i64::try_from(x).unwrap_or(i64::MAX)\<close> of an unsigned
  value and \<^verbatim>\<open>i64::saturating_sub\<close>.\<close>

definition i64_of_nat_sat :: "nat \<Rightarrow> int" where
  "i64_of_nat_sat n = (if int n \<le> I64_MAX then int n else I64_MAX)"

definition i64_saturating_sub :: "int \<Rightarrow> int \<Rightarrow> int" where
  "i64_saturating_sub a b = max I64_MIN (min I64_MAX (a - b))"

definition i64_ok :: "int \<Rightarrow> bool" where
  "i64_ok x \<longleftrightarrow> I64_MIN \<le> x \<and> x \<le> I64_MAX"

section \<open>Durations\<close>

text \<open>
  A \<^verbatim>\<open>Duration\<close> is its number of nanoseconds; \<open>DURATION_MAX\<close> is \<^verbatim>\<open>Duration::MAX\<close>
  (\<^verbatim>\<open>u64::MAX\<close> seconds and 999999999 nanoseconds).
\<close>

type_synonym duration = nat

definition DURATION_MAX :: duration where
  "DURATION_MAX = (2 ^ 64 - 1) * 10 ^ 9 + 999999999"

definition from_secs :: "nat \<Rightarrow> duration" where
  "from_secs s = s * 10 ^ 9"

definition from_millis :: "nat \<Rightarrow> duration" where
  "from_millis m = m * 10 ^ 6"

definition dur_saturating_add :: "duration \<Rightarrow> duration \<Rightarrow> duration" where
  "dur_saturating_add a b = min (a + b) DURATION_MAX"

definition dur_saturating_sub :: "duration \<Rightarrow> duration \<Rightarrow> duration" where
  "dur_saturating_sub a b = a - b"

definition dur_saturating_mul :: "duration \<Rightarrow> nat \<Rightarrow> duration" where
  "dur_saturating_mul a k = min (a * k) DURATION_MAX"

lemma dur_saturating_add_le_max [simp]: "dur_saturating_add a b \<le> DURATION_MAX"
  by (simp add: dur_saturating_add_def)

lemma dur_saturating_add_ge [dur_simps]:
  "a \<le> DURATION_MAX \<Longrightarrow> a \<le> dur_saturating_add a b"
  by (simp add: dur_saturating_add_def)

lemma dur_saturating_add_exact [dur_simps]:
  "a + b \<le> DURATION_MAX \<Longrightarrow> dur_saturating_add a b = a + b"
  by (simp add: dur_saturating_add_def)

lemma dur_saturating_add_mono [dur_simps]:
  "a \<le> a' \<Longrightarrow> b \<le> b' \<Longrightarrow> dur_saturating_add a b \<le> dur_saturating_add a' b'"
  by (auto simp: dur_saturating_add_def)

section \<open>Results\<close>

text \<open>A \<^verbatim>\<open>Result\<close> is a sum, the error on the left; \<open>and_then\<close> is what \<^verbatim>\<open>?\<close> does with one.\<close>

fun and_then :: "'e + 'a \<Rightarrow> ('a \<Rightarrow> 'e + 'b) \<Rightarrow> 'e + 'b" where
  "and_then (Inl e) f = Inl e"
| "and_then (Inr x) f = f x"

fun is_ok :: "'e + 'a \<Rightarrow> bool" where
  "is_ok (Inl e) = False"
| "is_ok (Inr x) = True"

lemma is_ok_iff: "is_ok r \<longleftrightarrow> (\<exists>x. r = Inr x)"
  by (cases r) auto

section \<open>Vectors\<close>

text \<open>\<^verbatim>\<open>iter().position(p)\<close>: the index of the first element that satisfies \<open>p\<close>.\<close>

fun position :: "('a \<Rightarrow> bool) \<Rightarrow> 'a list \<Rightarrow> nat option" where
  "position p [] = None"
| "position p (x # xs) = (if p x then Some 0 else map_option Suc (position p xs))"

text \<open>\<^verbatim>\<open>Vec::remove(i)\<close>, for an index in range (every caller passes one).\<close>

definition remove_at :: "nat \<Rightarrow> 'a list \<Rightarrow> 'a list" where
  "remove_at i xs = take i xs @ drop (Suc i) xs"

text \<open>\<^verbatim>\<open>&mut xs[i]\<close> followed by field updates: the element at \<open>i\<close> replaced by its image.\<close>

definition update_at :: "nat \<Rightarrow> ('a \<Rightarrow> 'a) \<Rightarrow> 'a list \<Rightarrow> 'a list" where
  "update_at i f xs = xs[i := f (xs ! i)]"

lemma position_Some_iff:
  "position p xs = Some i \<longleftrightarrow> i < length xs \<and> p (xs ! i) \<and> (\<forall>k < i. \<not> p (xs ! k))"
proof (induction xs arbitrary: i)
  case Nil
  then show ?case by simp
next
  case (Cons x xs)
  show ?case
  proof (cases i)
    case 0
    then show ?thesis by auto
  next
    case (Suc k)
    with Cons.IH show ?thesis by (auto simp: less_Suc_eq_0_disj)
  qed
qed

lemma position_None_iff [vec_simps]: "position p xs = None \<longleftrightarrow> (\<forall>x \<in> set xs. \<not> p x)"
  by (induction xs) auto

lemma position_SomeD:
  assumes "position p xs = Some i"
  shows "i < length xs" and "p (xs ! i)"
  using assms by (auto simp: position_Some_iff)

lemma length_remove_at [vec_simps]: "i < length xs \<Longrightarrow> length (remove_at i xs) = length xs - 1"
  by (simp add: remove_at_def)

lemma set_remove_at_subset: "set (remove_at i xs) \<subseteq> set xs"
  by (auto simp: remove_at_def dest: in_set_takeD in_set_dropD)

lemma remove_at_split:
  "i < length xs \<Longrightarrow> xs = take i xs @ xs ! i # drop (Suc i) xs"
  by (rule id_take_nth_drop)

lemma map_remove_at [vec_simps]: "map f (remove_at i xs) = remove_at i (map f xs)"
  by (simp add: remove_at_def take_map drop_map)

lemma distinct_remove_at:
  assumes "distinct xs"
  shows "distinct (remove_at i xs)"
  using assms set_take_disj_set_drop_if_distinct [of xs i "Suc i"]
  by (auto simp: remove_at_def)

lemma set_remove_at_distinct:
  assumes "distinct xs" and "i < length xs"
  shows "set (remove_at i xs) = set xs - {xs ! i}"
proof -
  have eq: "xs = take i xs @ xs ! i # drop (Suc i) xs"
    using assms(2) by (rule remove_at_split)
  with assms(1) have "distinct (take i xs @ xs ! i # drop (Suc i) xs)" by simp
  then have notin: "xs ! i \<notin> set (take i xs)" "xs ! i \<notin> set (drop (Suc i) xs)" by auto
  have "set xs = set (take i xs @ xs ! i # drop (Suc i) xs)" using eq by simp
  with notin show ?thesis by (auto simp: remove_at_def)
qed

lemma filter_remove_at [vec_simps]:
  assumes "i < length xs" and "\<not> p (xs ! i)"
  shows "filter p (remove_at i xs) = filter p xs"
proof -
  have "filter p xs = filter p (take i xs @ xs ! i # drop (Suc i) xs)"
    using remove_at_split [OF assms(1)] by simp
  with assms(2) show ?thesis by (simp add: remove_at_def)
qed

lemma length_update_at [simp]: "length (update_at i f xs) = length xs"
  by (simp add: update_at_def)

lemma nth_update_at [vec_simps]:
  "k < length xs \<Longrightarrow> update_at i f xs ! k = (if k = i then f (xs ! k) else xs ! k)"
  by (auto simp: update_at_def nth_list_update)

lemma map_update_at_same [vec_simps]:
  "(\<And>x. g (f x) = g x) \<Longrightarrow> map g (update_at i f xs) = map g xs"
  by (rule nth_equalityI) (auto simp: nth_update_at)

lemma set_update_at:
  assumes "i < length xs"
  shows "set (update_at i f xs) = insert (f (xs ! i)) (set (remove_at i xs))"
proof -
  have "update_at i f xs = take i xs @ f (xs ! i) # drop (Suc i) xs"
    using assms by (simp add: update_at_def upd_conv_take_nth_drop)
  then show ?thesis by (auto simp: remove_at_def)
qed

text \<open>A vector of records read as a map, by a key that is distinct over it.\<close>

definition lookup_by :: "('a \<Rightarrow> 'k) \<Rightarrow> 'a list \<Rightarrow> ('k \<rightharpoonup> 'a)" where
  "lookup_by key xs = map_of (map (\<lambda>x. (key x, x)) xs)"

lemma lookup_by_Nil [simp]: "lookup_by key [] = Map.empty"
  by (simp add: lookup_by_def)

lemma lookup_by_SomeD: "lookup_by key xs k = Some x \<Longrightarrow> x \<in> set xs \<and> key x = k"
  by (auto simp: lookup_by_def dest: map_of_SomeD)

lemma lookup_by_Some_iff:
  "distinct (map key xs) \<Longrightarrow> lookup_by key xs k = Some x \<longleftrightarrow> x \<in> set xs \<and> key x = k"
  by (auto simp: lookup_by_def comp_def map_of_eq_Some_iff)

lemma lookup_by_None_iff: "lookup_by key xs k = None \<longleftrightarrow> k \<notin> key ` set xs"
  by (auto simp: lookup_by_def map_of_eq_None_iff image_image)

lemma lookup_by_nth: "distinct (map key xs) \<Longrightarrow> i < length xs \<Longrightarrow> lookup_by key xs (key (xs ! i)) = Some (xs ! i)"
  by (simp add: lookup_by_Some_iff)

lemma distinct_map_update_at:
  assumes "i < length xs \<Longrightarrow> key (f (xs ! i)) = key (xs ! i)"
  shows "map key (update_at i f xs) = map key xs"
  using assms by (intro nth_equalityI) (auto simp: nth_update_at)

lemma split_at_index:
  assumes "i < length xs"
  obtains ys zs where "xs = ys @ xs ! i # zs" "remove_at i xs = ys @ zs"
    "\<And>f. update_at i f xs = ys @ f (xs ! i) # zs"
  using assms remove_at_split [OF assms]
  by (auto simp: remove_at_def update_at_def upd_conv_take_nth_drop)

lemma lookup_by_middle:
  assumes "key x \<notin> key ` set ys"
  shows "lookup_by key (ys @ x # zs) = (lookup_by key (ys @ zs))(key x \<mapsto> x)"
proof -
  from assms have "lookup_by key ys (key x) = None" by (simp add: lookup_by_None_iff)
  then show ?thesis by (auto simp: lookup_by_def fun_eq_iff map_add_def split: option.split)
qed

lemma lookup_by_update_at:
  assumes d: "distinct (map key xs)" and i: "i < length xs" and k: "key (f (xs ! i)) = key (xs ! i)"
  shows "lookup_by key (update_at i f xs) = (lookup_by key xs)(key (xs ! i) \<mapsto> f (xs ! i))"
proof -
  obtain ys zs where xs: "xs = ys @ xs ! i # zs" and up: "update_at i f xs = ys @ f (xs ! i) # zs"
    using split_at_index [OF i] by metis
  define x where "x = xs ! i"
  from d xs have notin: "key x \<notin> key ` set ys" unfolding x_def
    by (metis (no_types, lifting) disjoint_iff distinct_append image_set list.set_intros(1) list.simps(9) map_append)
  from lookup_by_middle [of key "f x" ys zs] lookup_by_middle [of key x ys zs] notin k xs up show ?thesis
    unfolding x_def by (metis fun_upd_upd)
qed

lemma lookup_by_remove_at:
  assumes d: "distinct (map key xs)" and i: "i < length xs"
  shows "lookup_by key (remove_at i xs) = (lookup_by key xs)(key (xs ! i) := None)"
proof -
  obtain ys zs where xs: "xs = ys @ xs ! i # zs" and rm: "remove_at i xs = ys @ zs"
    using split_at_index [OF i] by metis
  define x where "x = xs ! i"
  have "distinct (map key (ys @ x # zs))" using d xs unfolding x_def by metis
  then have notin: "key x \<notin> key ` set ys" "key x \<notin> key ` set zs" by auto
  then have "lookup_by key (ys @ zs) (key x) = None" by (auto simp: lookup_by_None_iff)
  moreover have "lookup_by key xs = (lookup_by key (ys @ zs))(key x \<mapsto> x)"
    using lookup_by_middle [OF notin(1)] xs unfolding x_def by metis
  ultimately show ?thesis unfolding rm x_def by (simp add: fun_upd_idem)
qed

lemma lookup_by_append1:
  "key x \<notin> key ` set xs \<Longrightarrow> lookup_by key (xs @ [x]) = (lookup_by key xs)(key x \<mapsto> x)"
  using lookup_by_middle [of key x xs "[]"] by simp

lemma lookup_by_map:
  "(\<And>x. key (f x) = key x) \<Longrightarrow> lookup_by key (map f xs) = (\<lambda>k. map_option f (lookup_by key xs k))"
  by (induction xs) (auto simp: lookup_by_def)

section \<open>Formatted text\<close>

text \<open>
  A \<^verbatim>\<open>format!\<close> call is the list of its pieces in order: the literal text and the values it
  interpolates.  Text that the program stores or redacts is rendered to a string; how a value
  of a third-party type prints (a UUID) is an argument of the rendering.
\<close>

datatype 'id frag =
    Lit string
  | FId 'id
  | FNat nat
  | FInt int
  | FDebugStr string
  | FDebugDur duration
  | FCodePoint nat

type_synonym 'id msg = "'id frag list"

fun digit_char :: "nat \<Rightarrow> char" where
  "digit_char d = char_of (48 + d)"

text \<open>Decimal printing of an unsigned integer.\<close>

fun show_nat :: "nat \<Rightarrow> string" where
  "show_nat n = (if n < 10 then [digit_char n] else show_nat (n div 10) @ [digit_char (n mod 10)])"

declare show_nat.simps [simp del]

definition show_int :: "int \<Rightarrow> string" where
  "show_int i = (if i < 0 then CHR ''-'' # show_nat (nat (- i)) else show_nat (nat i))"

definition undigit :: "char \<Rightarrow> nat" where
  "undigit c = of_char c - 48"

definition undigits :: "string \<Rightarrow> nat" where
  "undigits s = foldl (\<lambda>acc c. 10 * acc + undigit c) 0 s"

lemma undigit_digit_char [simp]: "d < 10 \<Longrightarrow> undigit (digit_char d) = d"
  by (simp add: undigit_def)

lemma undigits_show_nat [simp]: "undigits (show_nat n) = n"
proof (induction n rule: show_nat.induct)
  case (1 n)
  show ?case
  proof (cases "n < 10")
    case True
    then show ?thesis by (simp add: show_nat.simps [of n] undigits_def del: digit_char.simps)
  next
    case False
    then have "undigits (show_nat n) = 10 * undigits (show_nat (n div 10)) + n mod 10"
      by (simp add: show_nat.simps [of n] undigits_def del: digit_char.simps)
    with False "1" show ?thesis by simp
  qed
qed

lemma show_nat_inject [simp]: "show_nat m = show_nat n \<longleftrightarrow> m = n"
  by (metis undigits_show_nat)

lemma show_nat_digits: "c \<in> set (show_nat n) \<Longrightarrow> 48 \<le> (of_char c :: nat) \<and> (of_char c :: nat) < 58"
proof (induction n arbitrary: c rule: show_nat.induct)
  case (1 n)
  show ?case
  proof (cases "n < 10")
    case True
    with "1.prems" show ?thesis by (simp add: show_nat.simps [of n])
  next
    case False
    with "1.prems" have "c \<in> set (show_nat (n div 10)) \<or> c = digit_char (n mod 10)"
      by (auto simp: show_nat.simps [of n] simp del: digit_char.simps)
    with "1.IH" False show ?thesis by auto
  qed
qed

text \<open>Rendering: \<open>fmt\<close> prints the pieces whose formatting is not spelled out here.\<close>

fun render_frag :: "('id frag \<Rightarrow> string) \<Rightarrow> 'id frag \<Rightarrow> string" where
  "render_frag fmt (Lit s) = s"
| "render_frag fmt (FNat n) = show_nat n"
| "render_frag fmt (FInt i) = show_int i"
| "render_frag fmt f = fmt f"

definition render :: "('id frag \<Rightarrow> string) \<Rightarrow> 'id msg \<Rightarrow> string" where
  "render fmt t = concat (map (render_frag fmt) t)"

lemma render_append [simp]: "render fmt (s @ t) = render fmt s @ render fmt t"
  by (simp add: render_def)

lemma render_Lit [simp]: "render fmt [Lit s] = s"
  by (simp add: render_def)

end
