(* ===== verification/Errors.thy ===== *)
theory Errors
  imports Prelude
begin

text \<open>
  The error type of \<^verbatim>\<open>worklane-core/src/error.rs\<close> and its \<^verbatim>\<open>Display\<close>.  A UUID is its 128
  bits; how it prints belongs to the \<^verbatim>\<open>uuid\<close> crate and is the argument \<open>fmt\<close> of a rendering.
\<close>

type_synonym uuid = "128 word"
type_synonym message = "uuid msg"

datatype error =
    Serialization message
  | OutputEncode message
  | UnknownKind message
  | Handler message
  | Broker message
  | LiveJobIdConflict message
  | StaleReservation message
  | UniqueKeyHeld message
  | Registration message
  | UnknownLane message
  | ResultStore message
  | UnsupportedCapability message

fun display_error :: "error \<Rightarrow> message" where
  "display_error (Serialization m) = Lit ''serialization error: '' # m"
| "display_error (OutputEncode m) = Lit ''output encode error: '' # m"
| "display_error (UnknownKind m) = Lit ''unknown job kind: '' # m"
| "display_error (Handler m) = Lit ''handler error: '' # m"
| "display_error (Broker m) = Lit ''broker error: '' # m"
| "display_error (LiveJobIdConflict m) = Lit ''live job id conflict: '' # m"
| "display_error (StaleReservation m) = Lit ''stale reservation: '' # m"
| "display_error (UniqueKeyHeld m) = Lit ''unique key held: '' # m"
| "display_error (Registration m) = Lit ''registration error: '' # m"
| "display_error (UnknownLane m) = Lit ''unknown lane: '' # m"
| "display_error (ResultStore m) = Lit ''result store error: '' # m"
| "display_error (UnsupportedCapability m) = Lit ''unsupported broker capability: '' # m"

text \<open>\<^verbatim>\<open>matches!(e, Error::StaleReservation(_))\<close>, the one class of error the worker treats as
  a benign race.\<close>

fun is_stale :: "error \<Rightarrow> bool" where
  "is_stale (StaleReservation m) = True"
| "is_stale _ = False"

type_synonym 'a result = "error + 'a"

end
