(* ===== verification/Rust_Str.thy ===== *)
theory Rust_Str
  imports Prelude "HOL-Library.Sublist"
begin

text \<open>
  Rust strings.  A \<^verbatim>\<open>String\<close> or \<^verbatim>\<open>&str\<close> is its UTF-8 bytes, one \<open>char\<close> each, so that
  \<open>length\<close> is \<^verbatim>\<open>str::len\<close> and an index is a byte index.  \<open>str_chars\<close> decodes the Unicode
  scalar values that \<^verbatim>\<open>str::chars\<close> yields.  The operations of \<^verbatim>\<open>std\<close> the sources use are
  here: UTF-8 validation, character boundaries, trimming, substring search, ASCII lower case.
\<close>

section \<open>UTF-8\<close>

definition str_bytes :: "string \<Rightarrow> nat list" where
  "str_bytes s = map of_char s"

definition utf8_cont :: "nat \<Rightarrow> bool" where
  "utf8_cont b \<longleftrightarrow> 128 \<le> b \<and> b \<le> 191"

text \<open>The scalar values \<^verbatim>\<open>char\<close> ranges over: every code point but the surrogates.\<close>

definition scalar_value :: "nat \<Rightarrow> bool" where
  "scalar_value c \<longleftrightarrow> c < 55296 \<or> (57344 \<le> c \<and> c < 1114112)"

text \<open>The first-byte and second-byte ranges of the well-formed two, three and four byte
  sequences, as \<^verbatim>\<open>core::str::from_utf8\<close> checks them.\<close>

definition utf8_lead2 :: "nat \<Rightarrow> bool" where
  "utf8_lead2 a \<longleftrightarrow> 194 \<le> a \<and> a \<le> 223"

definition utf8_lead3 :: "nat \<Rightarrow> nat \<Rightarrow> bool" where
  "utf8_lead3 a b \<longleftrightarrow>
     (a = 224 \<and> 160 \<le> b \<and> b \<le> 191) \<or> (225 \<le> a \<and> a \<le> 236 \<and> utf8_cont b) \<or>
     (a = 237 \<and> 128 \<le> b \<and> b \<le> 159) \<or> (238 \<le> a \<and> a \<le> 239 \<and> utf8_cont b)"

definition utf8_lead4 :: "nat \<Rightarrow> nat \<Rightarrow> bool" where
  "utf8_lead4 a b \<longleftrightarrow>
     (a = 240 \<and> 144 \<le> b \<and> b \<le> 191) \<or> (241 \<le> a \<and> a \<le> 243 \<and> utf8_cont b) \<or>
     (a = 244 \<and> 128 \<le> b \<and> b \<le> 143)"

fun utf8_decode :: "nat list \<Rightarrow> nat list option" where
  "utf8_decode [] = Some []"
| "utf8_decode (a # as) =
     (if a < 128 then map_option (Cons a) (utf8_decode as)
      else case as of
        [] \<Rightarrow> None
      | b # bs \<Rightarrow>
          if utf8_lead2 a \<and> utf8_cont b
          then map_option (Cons ((a - 192) * 64 + (b - 128))) (utf8_decode bs)
          else case bs of
            [] \<Rightarrow> None
          | c # cs \<Rightarrow>
              if utf8_lead3 a b \<and> utf8_cont c
              then map_option (Cons ((a - 224) * 4096 + (b - 128) * 64 + (c - 128))) (utf8_decode cs)
              else case cs of
                [] \<Rightarrow> None
              | d # ds \<Rightarrow>
                  if utf8_lead4 a b \<and> utf8_cont c \<and> utf8_cont d
                  then map_option (Cons ((a - 240) * 262144 + (b - 128) * 4096 + (c - 128) * 64 + (d - 128)))
                         (utf8_decode ds)
                  else None)"

declare utf8_decode.simps(2) [simp del]

fun utf8_encode :: "nat \<Rightarrow> nat list" where
  "utf8_encode c =
     (if c < 128 then [c]
      else if c < 2048 then [192 + c div 64, 128 + c mod 64]
      else if c < 65536 then [224 + c div 4096, 128 + c div 64 mod 64, 128 + c mod 64]
      else [240 + c div 262144, 128 + c div 4096 mod 64, 128 + c div 64 mod 64, 128 + c mod 64])"

lemma utf8_join2: "(c :: nat) div 64 * 64 + c mod 64 = c"
  by simp

lemma utf8_join3: "(c :: nat) div 4096 * 4096 + c div 64 mod 64 * 64 + c mod 64 = c"
proof -
  have "c div 4096 = c div 64 div 64" by (simp add: div_mult2_eq [symmetric])
  then have "c div 4096 * 4096 + c div 64 mod 64 * 64 = (c div 64 div 64 * 64 + c div 64 mod 64) * 64"
    by (simp only: add_mult_distrib mult.assoc)
  then show ?thesis by simp
qed

lemma utf8_join4:
  "(c :: nat) div 262144 * 262144 + c div 4096 mod 64 * 4096 + c div 64 mod 64 * 64 + c mod 64 = c"
proof -
  have "c div 262144 = c div 64 div 4096" and "c div 4096 = c div 64 div 64"
    by (simp_all add: div_mult2_eq [symmetric])
  then have "c div 262144 * 262144 + c div 4096 mod 64 * 4096 + c div 64 mod 64 * 64
      = (c div 64 div 4096 * 4096 + c div 64 div 64 mod 64 * 64 + c div 64 mod 64) * 64"
    by (simp only: add_mult_distrib mult.assoc)
  also have "\<dots> = c div 64 * 64" by (simp only: utf8_join3)
  finally show ?thesis by simp
qed

lemma utf8_lead2_encode:
  assumes "128 \<le> c" and "c < 2048"
  shows "utf8_lead2 (192 + c div 64)"
proof -
  have "2 \<le> c div 64" using assms(1) by (simp add: less_eq_div_iff_mult_less_eq)
  moreover have "c div 64 < 32" using assms(2) by (simp add: less_mult_imp_div_less)
  ultimately show ?thesis by (simp add: utf8_lead2_def)
qed

lemma utf8_cont_encode: "utf8_cont (128 + c mod 64)"
proof -
  have "c mod 64 < 64" by simp
  then show ?thesis unfolding utf8_cont_def by linarith
qed

lemma utf8_lead3_encode:
  assumes "2048 \<le> c" and "c < 65536" and "scalar_value c"
  shows "utf8_lead3 (224 + c div 4096) (128 + c div 64 mod 64)"
proof -
  define d where "d = c div 64"
  define q where "q = c div 4096"
  define r where "r = d mod 64"
  have q: "q = d div 64" unfolding q_def d_def by (simp add: div_mult2_eq [symmetric])
  have d: "d = q * 64 + r" unfolding q r_def by simp
  have r: "r < 64" unfolding r_def by simp
  have lo: "32 \<le> d" using assms(1) unfolding d_def by (simp add: less_eq_div_iff_mult_less_eq)
  have hi: "d < 1024" using assms(2) unfolding d_def by (simp add: less_mult_imp_div_less)
  have "d < 864 \<or> 896 \<le> d"
    using assms(3) unfolding d_def scalar_value_def
    by (auto simp: less_eq_div_iff_mult_less_eq less_mult_imp_div_less)
  with d r lo hi show ?thesis
    unfolding utf8_lead3_def utf8_cont_def q_def [symmetric] d_def [symmetric] r_def [symmetric]
    by presburger
qed

lemma utf8_lead4_encode:
  assumes "65536 \<le> c" and "scalar_value c"
  shows "utf8_lead4 (240 + c div 262144) (128 + c div 4096 mod 64)"
proof -
  define d where "d = c div 4096"
  define q where "q = c div 262144"
  define r where "r = d mod 64"
  have q: "q = d div 64" unfolding q_def d_def by (simp add: div_mult2_eq [symmetric])
  have d: "d = q * 64 + r" unfolding q r_def by simp
  have r: "r < 64" unfolding r_def by simp
  have lo: "16 \<le> d" using assms(1) unfolding d_def by (simp add: less_eq_div_iff_mult_less_eq)
  have "c < 1114112" using assms by (auto simp: scalar_value_def)
  then have hi: "d < 272" unfolding d_def by (simp add: less_mult_imp_div_less)
  from d r lo hi show ?thesis
    unfolding utf8_lead4_def utf8_cont_def q_def [symmetric] d_def [symmetric] r_def [symmetric]
    by presburger
qed

lemma utf8_decode_encode:
  assumes "scalar_value c"
  shows "utf8_decode (utf8_encode c @ bs) = map_option (Cons c) (utf8_decode bs)"
proof -
  consider "c < 128" | "128 \<le> c" "c < 2048" | "2048 \<le> c" "c < 65536" | "65536 \<le> c"
    by linarith
  then show ?thesis
  proof cases
    case 1
    then show ?thesis by (simp add: utf8_decode.simps(2))
  next
    case 2
    then show ?thesis
      using utf8_lead2_encode [of c] utf8_cont_encode [of c] utf8_join2 [of c]
      by (simp add: utf8_decode.simps(2))
  next
    case 3
    then have "\<not> utf8_lead2 (224 + c div 4096)" by (simp add: utf8_lead2_def)
    with 3 show ?thesis
      using utf8_lead3_encode [OF 3 assms] utf8_cont_encode [of c] utf8_join3 [of c]
      by (simp add: utf8_decode.simps(2))
  next
    case 4
    then have "\<not> utf8_lead2 (240 + c div 262144)"
      "\<not> utf8_lead3 (240 + c div 262144) (128 + c div 4096 mod 64)"
      by (simp_all add: utf8_lead2_def utf8_lead3_def)
    with 4 show ?thesis
      using utf8_lead4_encode [OF 4 assms] utf8_cont_encode [of c] utf8_cont_encode [of "c div 64"]
        utf8_join4 [of c]
      by (simp add: utf8_decode.simps(2))
  qed
qed

lemma utf8_decode_encode_all:
  "\<forall>c \<in> set cs. scalar_value c \<Longrightarrow> utf8_decode (concat (map utf8_encode cs)) = Some cs"
  by (induction cs) (simp_all add: utf8_decode_encode del: utf8_encode.simps)

text \<open>A string is well formed when its bytes are UTF-8, which \<^verbatim>\<open>&str\<close> guarantees by type.\<close>

definition valid_str :: "string \<Rightarrow> bool" where
  "valid_str s \<longleftrightarrow> utf8_decode (str_bytes s) \<noteq> None"

definition str_chars :: "string \<Rightarrow> nat list" where
  "str_chars s = (case utf8_decode (str_bytes s) of Some cs \<Rightarrow> cs | None \<Rightarrow> [])"

lemma utf8_decode_ascii: "\<forall>b \<in> set bs. b < 128 \<Longrightarrow> utf8_decode bs = Some bs"
  by (induction bs) (simp_all add: utf8_decode.simps(2))

definition is_ascii_str :: "string \<Rightarrow> bool" where
  "is_ascii_str s \<longleftrightarrow> (\<forall>c \<in> set s. (of_char c :: nat) < 128)"

lemma str_chars_ascii: "is_ascii_str s \<Longrightarrow> str_chars s = str_bytes s"
  by (simp add: is_ascii_str_def str_chars_def str_bytes_def utf8_decode_ascii)

lemma valid_str_ascii: "is_ascii_str s \<Longrightarrow> valid_str s"
  by (simp add: is_ascii_str_def valid_str_def str_bytes_def utf8_decode_ascii)

text \<open>\<^verbatim>\<open>char::is_control\<close> (category Cc) and \<^verbatim>\<open>char::is_whitespace\<close> (property White_Space).\<close>

definition is_control :: "nat \<Rightarrow> bool" where
  "is_control c \<longleftrightarrow> c \<le> 31 \<or> (127 \<le> c \<and> c \<le> 159)"

definition is_whitespace :: "nat \<Rightarrow> bool" where
  "is_whitespace c \<longleftrightarrow>
     (9 \<le> c \<and> c \<le> 13) \<or> c = 32 \<or> c = 133 \<or> c = 160 \<or> c = 5760 \<or> (8192 \<le> c \<and> c \<le> 8202) \<or>
     c = 8232 \<or> c = 8233 \<or> c = 8239 \<or> c = 8287 \<or> c = 12288"

definition trim :: "nat list \<Rightarrow> nat list" where
  "trim cs = rev (dropWhile is_whitespace (rev (dropWhile is_whitespace cs)))"

lemma trim_Nil [simp]: "trim [] = []"
  by (simp add: trim_def)

lemma trim_id_iff:
  assumes "cs \<noteq> []"
  shows "trim cs = cs \<longleftrightarrow> \<not> is_whitespace (hd cs) \<and> \<not> is_whitespace (last cs)"
proof
  assume eq: "trim cs = cs"
  have len: "length (trim cs) \<le> length (dropWhile is_whitespace cs)"
    using length_dropWhile_le [of is_whitespace "rev (dropWhile is_whitespace cs)"]
    by (simp add: trim_def)
  have first: "\<not> is_whitespace (hd cs)"
  proof
    assume "is_whitespace (hd cs)"
    with assms have "length (dropWhile is_whitespace cs) < length cs"
      by (cases cs) (auto simp: length_dropWhile_le less_Suc_eq_le)
    with len eq show False by simp
  qed
  with assms have "dropWhile is_whitespace cs = cs" by (cases cs) auto
  with eq have "dropWhile is_whitespace (rev cs) = rev cs" by (simp add: trim_def rev_swap)
  with assms have "\<not> is_whitespace (hd (rev cs))"
    by (metis hd_dropWhile rev_is_Nil_conv)
  with assms first show "\<not> is_whitespace (hd cs) \<and> \<not> is_whitespace (last cs)"
    by (simp add: hd_rev)
next
  assume ends: "\<not> is_whitespace (hd cs) \<and> \<not> is_whitespace (last cs)"
  with assms have "dropWhile is_whitespace cs = cs" by (cases cs) auto
  moreover have "dropWhile is_whitespace (rev cs) = rev cs"
    using ends assms by (cases cs rule: rev_cases) auto
  ultimately show "trim cs = cs" by (simp add: trim_def)
qed

section \<open>Slices and search\<close>

text \<open>\<^verbatim>\<open>str::is_char_boundary\<close>: the ends, or a byte that does not continue a sequence.\<close>

definition is_char_boundary :: "string \<Rightarrow> nat \<Rightarrow> bool" where
  "is_char_boundary s i \<longleftrightarrow>
     i = 0 \<or> i = length s \<or> (i < length s \<and> \<not> utf8_cont (of_char (s ! i)))"

text \<open>\<^verbatim>\<open>str::find\<close> for a substring, \<^verbatim>\<open>str::find\<close> and \<^verbatim>\<open>str::rfind\<close> for a set of
  characters.\<close>

fun str_find :: "string \<Rightarrow> string \<Rightarrow> nat option" where
  "str_find needle [] = (if needle = [] then Some 0 else None)"
| "str_find needle (c # cs) =
     (if prefix needle (c # cs) then Some 0 else map_option Suc (str_find needle cs))"

definition str_rfind :: "char \<Rightarrow> string \<Rightarrow> nat option" where
  "str_rfind c s = map_option (\<lambda>i. length s - Suc i) (position (\<lambda>x. x = c) (rev s))"

lemma str_find_Some_iff:
  "str_find needle s = Some i \<longleftrightarrow>
     i \<le> length s \<and> prefix needle (drop i s) \<and> (\<forall>k < i. \<not> prefix needle (drop k s))"
proof (induction s arbitrary: i)
  case Nil
  then show ?case by auto
next
  case (Cons c cs)
  show ?case
  proof (cases i)
    case 0
    then show ?thesis by auto
  next
    case (Suc k)
    with Cons.IH show ?thesis by (auto simp: less_Suc_eq_0_disj simp del: prefix_Cons)
  qed
qed

lemma str_find_None_iff:
  "str_find needle s = None \<longleftrightarrow> (\<forall>i \<le> length s. \<not> prefix needle (drop i s))"
proof (induction s)
  case Nil
  then show ?case by simp
next
  case (Cons c cs)
  show ?case
  proof
    assume "str_find needle (c # cs) = None"
    then have "\<not> prefix needle (c # cs)" and "\<forall>i \<le> length cs. \<not> prefix needle (drop i cs)"
      using Cons.IH by (auto split: if_splits)
    then show "\<forall>i \<le> length (c # cs). \<not> prefix needle (drop i (c # cs))"
      by (auto simp: drop_Cons simp del: prefix_Cons split: nat.splits)
  next
    assume H: "\<forall>i \<le> length (c # cs). \<not> prefix needle (drop i (c # cs))"
    from H [rule_format, of 0] have "\<not> prefix needle (c # cs)" by simp
    moreover have "\<forall>i \<le> length cs. \<not> prefix needle (drop i cs)"
      using H by (metis Suc_le_mono drop_Suc_Cons length_Cons)
    ultimately show "str_find needle (c # cs) = None" using Cons.IH by simp
  qed
qed

lemma str_find_SomeD:
  assumes "str_find needle s = Some i"
  shows "i + length needle \<le> length s" and "take (length needle) (drop i s) = needle"
proof -
  from assms have "i \<le> length s" and "prefix needle (drop i s)"
    by (simp_all add: str_find_Some_iff)
  then obtain zs where zs: "drop i s = needle @ zs" by (auto elim: prefixE)
  then have "length (drop i s) = length needle + length zs" by simp
  with \<open>i \<le> length s\<close> show "i + length needle \<le> length s" by simp
  from zs show "take (length needle) (drop i s) = needle" by simp
qed

definition ascii_lower :: "char \<Rightarrow> char" where
  "ascii_lower c = (if 65 \<le> (of_char c :: nat) \<and> (of_char c :: nat) \<le> 90
                    then char_of ((of_char c :: nat) + 32) else c)"

definition to_ascii_lowercase :: "string \<Rightarrow> string" where
  "to_ascii_lowercase s = map ascii_lower s"

lemma length_to_ascii_lowercase [simp]: "length (to_ascii_lowercase s) = length s"
  by (simp add: to_ascii_lowercase_def)

definition is_ascii_alphanumeric :: "char \<Rightarrow> bool" where
  "is_ascii_alphanumeric c \<longleftrightarrow>
     (let b = (of_char c :: nat)
      in (48 \<le> b \<and> b \<le> 57) \<or> (65 \<le> b \<and> b \<le> 90) \<or> (97 \<le> b \<and> b \<le> 122))"

text \<open>Bytes of a \<^verbatim>\<open>Vec<u8>\<close> and \<^verbatim>\<open>std::str::from_utf8\<close>.\<close>

definition as_bytes :: "string \<Rightarrow> bytes" where
  "as_bytes s = map (\<lambda>c. word_of_nat (of_char c)) s"

definition chars_of_bytes :: "bytes \<Rightarrow> string" where
  "chars_of_bytes bs = map (\<lambda>b. char_of (unat b)) bs"

definition from_utf8 :: "bytes \<Rightarrow> string option" where
  "from_utf8 bs = (if utf8_decode (map unat bs) = None then None else Some (chars_of_bytes bs))"

lemma unat_of_char_word: "unat (word_of_nat (of_char c) :: u8) = of_char c"
proof -
  have "(of_char c :: nat) < 256" by (metis char_of_mod_256 mod_less_divisor nat_of_char_less_256 zero_less_numeral)
  then show ?thesis by (simp add: unsigned_of_nat take_bit_nat_eq_self)
qed

lemma chars_of_as_bytes [simp]: "chars_of_bytes (as_bytes s) = s"
  by (induction s) (simp_all add: chars_of_bytes_def as_bytes_def unat_of_char_word)

lemma map_unat_as_bytes: "map unat (as_bytes s) = str_bytes s"
  by (simp add: as_bytes_def str_bytes_def unat_of_char_word)

lemma from_utf8_as_bytes: "valid_str s \<Longrightarrow> from_utf8 (as_bytes s) = Some s"
  by (simp add: from_utf8_def valid_str_def map_unat_as_bytes)

section \<open>Slicing laws\<close>

lemma prefix_drop_iff:
  assumes "p \<le> length s"
  shows "prefix m (drop p s) \<longleftrightarrow> p + length m \<le> length s \<and> (\<forall>i < length m. s ! (p + i) = m ! i)"
proof
  assume "prefix m (drop p s)"
  then obtain zs where zs: "drop p s = m @ zs" by (auto elim: prefixE)
  then have "length (drop p s) = length m + length zs" by simp
  with assms have len: "p + length m \<le> length s" by simp
  moreover have "s ! (p + i) = m ! i" if "i < length m" for i
  proof -
    have "s ! (p + i) = drop p s ! i" using that len by simp
    with zs that show ?thesis by (simp add: nth_append)
  qed
  ultimately show "p + length m \<le> length s \<and> (\<forall>i < length m. s ! (p + i) = m ! i)" by simp
next
  assume H: "p + length m \<le> length s \<and> (\<forall>i < length m. s ! (p + i) = m ! i)"
  then have "take (length m) (drop p s) = m" by (intro nth_equalityI) auto
  then show "prefix m (drop p s)" by (metis take_is_prefix)
qed

lemma str_find_append:
  assumes "str_find needle a = Some i"
  shows "str_find needle (a @ b) = Some i"
proof -
  from assms have i: "i + length needle \<le> length a" by (rule str_find_SomeD)
  from assms have pre: "prefix needle (drop i a)" and none: "\<forall>k < i. \<not> prefix needle (drop k a)"
    by (simp_all add: str_find_Some_iff)
  have "\<not> prefix needle (drop k (a @ b))" if "k < i" for k
  proof
    assume "prefix needle (drop k (a @ b))"
    with that i have "\<forall>j < length needle. (a @ b) ! (k + j) = needle ! j"
      using prefix_drop_iff [of k "a @ b" needle] by auto
    with that i have "prefix needle (drop k a)" by (simp add: prefix_drop_iff nth_append)
    with none that show False by blast
  qed
  moreover from pre have "prefix needle (drop i (a @ b))" using i by (simp add: prefix_order.trans)
  ultimately show ?thesis using i by (simp add: str_find_Some_iff)
qed

lemma position_append_None:
  "\<forall>x \<in> set xs. \<not> p x \<Longrightarrow> position p (xs @ ys) = map_option (\<lambda>i. length xs + i) (position p ys)"
  by (induction xs) (auto simp: option.map_comp comp_def option.map_ident intro: option.map_cong
        split: option.splits; cases "position p ys"; simp)+

lemma str_rfind_last:
  assumes "c \<notin> set host"
  shows "str_rfind c (ui @ c # host) = Some (length ui)"
proof -
  have "\<forall>x \<in> set (rev host). x \<noteq> c" using assms by auto
  from position_append_None [OF this] show ?thesis by (simp add: str_rfind_def)
qed

text \<open>Cutting well-formed UTF-8 at a character boundary leaves well-formed UTF-8.\<close>

lemma utf8_decode_take:
  "utf8_decode bs \<noteq> None \<Longrightarrow> i \<le> length bs \<Longrightarrow> i = length bs \<or> \<not> utf8_cont (bs ! i) \<Longrightarrow>
    utf8_decode (take i bs) \<noteq> None"
proof (induction bs arbitrary: i rule: utf8_decode.induct)
  case 1
  then show ?case by simp
next
  case (2 a as)
  show ?case
  proof (cases i)
    case 0
    then show ?thesis by simp
  next
    case i: (Suc j)
    have lead: "utf8_lead3 a b \<Longrightarrow> utf8_cont b" "utf8_lead4 a b \<Longrightarrow> utf8_cont b" for b
      by (auto simp: utf8_lead3_def utf8_lead4_def utf8_cont_def)
    show ?thesis
    proof (cases "a < 128")
      case True
      with 2 i show ?thesis by (auto simp: utf8_decode.simps(2))
    next
      case a: False
      with "2.prems" obtain b bs where as: "as = b # bs"
        by (auto simp: utf8_decode.simps(2) split: list.splits)
      show ?thesis
      proof (cases "utf8_lead2 a \<and> utf8_cont b")
        case True
        with "2.prems" i as obtain k where k: "j = Suc k" by (cases j) auto
        from "2.IH"(2) [OF a as True, of k] "2.prems" True a as i k show ?thesis
          by (auto simp: utf8_decode.simps(2))
      next
        case l2: False
        with "2.prems" a as obtain c cs where bs: "bs = c # cs"
          by (auto simp: utf8_decode.simps(2) split: list.splits)
        show ?thesis
        proof (cases "utf8_lead3 a b \<and> utf8_cont c")
          case True
          with "2.prems" i as bs lead obtain k where k: "j = Suc (Suc k)"
            by (cases j; cases "j - 1") auto
          from "2.IH"(3) [OF a as l2 bs True, of k] "2.prems" True a as bs l2 i k show ?thesis
            by (auto simp: utf8_decode.simps(2))
        next
          case l3: False
          with "2.prems" a as bs l2 obtain d ds where cs: "cs = d # ds"
            by (auto simp: utf8_decode.simps(2) split: list.splits)
          with "2.prems" a as bs l2 l3 have l4: "utf8_lead4 a b \<and> utf8_cont c \<and> utf8_cont d"
            by (auto simp: utf8_decode.simps(2) split: if_splits)
          with "2.prems" i as bs cs lead obtain k where k: "j = Suc (Suc (Suc k))"
            by (cases j; cases "j - 1"; cases "j - 2") auto
          from "2.IH"(4) [OF a as l2 bs l3 cs l4, of k] "2.prems" l4 a as bs cs l2 l3 i k show ?thesis
            by (auto simp: utf8_decode.simps(2))
        qed
      qed
    qed
  qed
qed

lemma valid_str_take:
  assumes "valid_str s" and "is_char_boundary s i" and "i \<le> length s"
  shows "valid_str (take i s)"
proof (cases "i = 0")
  case False
  then have "i = length (str_bytes s) \<or> \<not> utf8_cont (str_bytes s ! i)"
    using assms by (auto simp: is_char_boundary_def str_bytes_def)
  with assms utf8_decode_take [of "str_bytes s" i] show ?thesis
    by (simp add: valid_str_def str_bytes_def take_map)
qed (simp add: valid_str_def str_bytes_def)

lemma utf8_decode_append:
  "utf8_decode bs \<noteq> None \<Longrightarrow> utf8_decode cs \<noteq> None \<Longrightarrow> utf8_decode (bs @ cs) \<noteq> None"
proof (induction bs rule: utf8_decode.induct)
  case 1
  then show ?case by simp
next
  case (2 a as)
  show ?case
  proof (cases "a < 128")
    case True
    with "2.IH"(1) "2.prems" show ?thesis by (auto simp: utf8_decode.simps(2) [of a])
  next
    case a: False
    with "2.prems" obtain b bs where as: "as = b # bs"
      by (cases as) (simp_all add: utf8_decode.simps(2))
    show ?thesis
    proof (cases "utf8_lead2 a \<and> utf8_cont b")
      case True
      with "2.IH"(2) [OF a as True] "2.prems" a as show ?thesis by (auto simp: utf8_decode.simps(2) [of a])
    next
      case l2: False
      with "2.prems" a as obtain c ds where bs: "bs = c # ds"
        by (cases bs) (simp_all add: utf8_decode.simps(2))
      show ?thesis
      proof (cases "utf8_lead3 a b \<and> utf8_cont c")
        case True
        with "2.IH"(3) [OF a as l2 bs True] "2.prems" a as bs l2 show ?thesis
          by (auto simp: utf8_decode.simps(2) [of a])
      next
        case l3: False
        with "2.prems" a as bs l2 obtain d es where ds: "ds = d # es"
          by (cases ds) (simp_all add: utf8_decode.simps(2))
        with "2.prems" a as bs l2 l3 have l4: "utf8_lead4 a b \<and> utf8_cont c \<and> utf8_cont d"
          by (simp add: utf8_decode.simps(2) split: if_splits)
        with "2.IH"(4) [OF a as l2 bs l3 ds l4] "2.prems" a as bs l2 l3 ds show ?thesis
          by (auto simp: utf8_decode.simps(2) [of a])
      qed
    qed
  qed
qed

lemma valid_str_append: "valid_str s \<Longrightarrow> valid_str t \<Longrightarrow> valid_str (s @ t)"
  unfolding valid_str_def str_bytes_def map_append by (rule utf8_decode_append)

end
