(* ===== verification/Lanes.thy ===== *)
theory Lanes
  imports Rust_Str "HOL-Library.List_Lexorder" "HOL-Library.Char_ord"
begin

text \<open>
  Lanes, from \<^verbatim>\<open>worklane-core/src/lane.rs\<close>: the validated lane name, the reasons a name is
  refused, and the registry of known lanes a client may be configured with.
\<close>

definition MAX_LEN :: nat where "MAX_LEN = 256"

definition DEFAULT_LANE :: string where "DEFAULT_LANE = ''default''"

datatype lane = Lane (lane_str: string)

datatype lane_error = Empty | TooLong | InvalidChar

fun display_lane_error :: "lane_error \<Rightarrow> 'id msg" where
  "display_lane_error Empty = [Lit ''lane name must not be empty'']"
| "display_lane_error TooLong = [Lit ''lane name must not exceed 256 bytes'']"
| "display_lane_error InvalidChar =
     [Lit ''lane name must not contain control characters or leading/trailing whitespace'']"

definition validated :: "string \<Rightarrow> lane_error + lane" where
  "validated name =
     (if name = [] then Inl Empty
      else if length name > MAX_LEN then Inl TooLong
      else if list_ex is_control (str_chars name) then Inl InvalidChar
      else if trim (str_chars name) \<noteq> str_chars name then Inl InvalidChar
      else Inr (Lane name))"

definition default_lane :: lane where
  "default_lane = Lane DEFAULT_LANE"

text \<open>The derived order of \<^verbatim>\<open>Lane\<close> is the byte order of its name.\<close>

instantiation lane :: linorder
begin

definition less_eq_lane :: "lane \<Rightarrow> lane \<Rightarrow> bool" where
  "less_eq_lane a b \<longleftrightarrow> lane_str a \<le> lane_str b"

definition less_lane :: "lane \<Rightarrow> lane \<Rightarrow> bool" where
  "less_lane a b \<longleftrightarrow> lane_str a < lane_str b"

instance
  by standard (auto simp: less_eq_lane_def less_lane_def intro: lane.expand)

end

record lane_registry =
  lr_lanes :: "lane set"

definition registry_new :: "lane list \<Rightarrow> lane_registry" where
  "registry_new ls = \<lparr> lr_lanes = set ls \<rparr>"

definition with_default_lane :: "lane_registry \<Rightarrow> lane_registry" where
  "with_default_lane r = r\<lparr> lr_lanes := insert default_lane (lr_lanes r) \<rparr>"

definition registry_contains :: "lane_registry \<Rightarrow> lane \<Rightarrow> bool" where
  "registry_contains r l \<longleftrightarrow> l \<in> lr_lanes r"

definition registry_len :: "lane_registry \<Rightarrow> nat" where
  "registry_len r = card (lr_lanes r)"

definition registry_is_empty :: "lane_registry \<Rightarrow> bool" where
  "registry_is_empty r \<longleftrightarrow> lr_lanes r = {}"

section \<open>Validation\<close>

text \<open>The portable invariant the documentation of \<^verbatim>\<open>Lane\<close> states.\<close>

definition portable_name :: "string \<Rightarrow> bool" where
  "portable_name name \<longleftrightarrow>
     name \<noteq> [] \<and> length name \<le> MAX_LEN \<and> (\<forall>c \<in> set (str_chars name). \<not> is_control c) \<and>
     \<not> is_whitespace (hd (str_chars name)) \<and> \<not> is_whitespace (last (str_chars name))"

lemma utf8_decode_Some_Nil: "utf8_decode bs = Some [] \<longleftrightarrow> bs = []"
  by (cases bs) (auto simp: utf8_decode.simps(2) split: if_splits list.splits)

lemma str_chars_nonempty: "valid_str name \<Longrightarrow> name \<noteq> [] \<Longrightarrow> str_chars name \<noteq> []"
  using utf8_decode_Some_Nil [of "str_bytes name"]
  by (auto simp: valid_str_def str_chars_def str_bytes_def)

lemma validated_portable:
  assumes "valid_str name"
  shows "validated name = Inr l \<longleftrightarrow> portable_name name \<and> l = Lane name"
  using trim_id_iff [OF str_chars_nonempty [OF assms]]
  by (auto simp: validated_def portable_name_def list_ex_iff)

lemma validated_default: "validated DEFAULT_LANE = Inr default_lane"
  by code_simp

end
