(* ===== verification/Envelopes.thy ===== *)
theory Envelopes
  imports Errors Lanes
begin

text \<open>
  The data a broker stores and hands out, from \<^verbatim>\<open>worklane-core/src/id.rs\<close>,
  \<^verbatim>\<open>envelope.rs\<close> and \<^verbatim>\<open>job.rs\<close>: job ids and receipts (random UUIDs, supplied by the
  caller of the definition that mints one), the job to be enqueued, the stored envelope, the
  reservation, the dead letter, and the per-run context with its shared cancellation flag.
\<close>

datatype job_id = JobId (job_uuid: uuid)

definition job_id_msg :: "job_id \<Rightarrow> message" where
  "job_id_msg i = [FId (job_uuid i)]"

text \<open>\<^verbatim>\<open>Uuid::parse_str\<close> is the argument \<open>parse_str\<close>; its error text is a string.\<close>

datatype job_id_parse_error = JobIdParseError string

definition job_id_from_str :: "(string \<Rightarrow> string + uuid) \<Rightarrow> string \<Rightarrow> job_id_parse_error + job_id" where
  "job_id_from_str parse_str s =
     (case parse_str s of Inr u \<Rightarrow> Inr (JobId u) | Inl e \<Rightarrow> Inl (JobIdParseError e))"

datatype receipt = Receipt (receipt_uuid: uuid)

definition DEFAULT_MAX_ATTEMPTS :: u32 where "DEFAULT_MAX_ATTEMPTS = 5"

text \<open>A \<^verbatim>\<open>HashMap<String, String>\<close> whose entries are counted and summed: its entries, the
  keys distinct.\<close>

type_synonym trace_context = "(string \<times> string) list"

record new_job =
  nj_id :: job_id
  nj_lane :: lane
  nj_kind :: string
  nj_payload :: bytes
  nj_max_attempts :: u32
  nj_delay :: duration
  nj_unique_key :: "string option"
  nj_priority :: u8
  nj_trace_context :: "trace_context option"

definition new_job_new :: "job_id \<Rightarrow> lane \<Rightarrow> string \<Rightarrow> bytes \<Rightarrow> u32 \<Rightarrow> new_job" where
  "new_job_new i l k p m =
     \<lparr> nj_id = i, nj_lane = l, nj_kind = k, nj_payload = p, nj_max_attempts = m, nj_delay = 0,
       nj_unique_key = None, nj_priority = 0, nj_trace_context = None \<rparr>"

definition with_delay :: "duration \<Rightarrow> new_job \<Rightarrow> new_job" where
  "with_delay d j = j\<lparr> nj_delay := d \<rparr>"

definition with_unique_key :: "string \<Rightarrow> new_job \<Rightarrow> new_job" where
  "with_unique_key k j = j\<lparr> nj_unique_key := Some k \<rparr>"

definition with_priority :: "u8 \<Rightarrow> new_job \<Rightarrow> new_job" where
  "with_priority p j = j\<lparr> nj_priority := p \<rparr>"

definition with_trace_context :: "trace_context \<Rightarrow> new_job \<Rightarrow> new_job" where
  "with_trace_context t j = j\<lparr> nj_trace_context := Some t \<rparr>"

record job_envelope =
  env_id :: job_id
  env_lane :: lane
  env_kind :: string
  env_payload :: bytes
  env_attempts :: u32
  env_max_attempts :: u32
  env_priority :: u8
  env_trace_context :: "trace_context option"

definition job_envelope_new ::
  "job_id \<Rightarrow> lane \<Rightarrow> string \<Rightarrow> bytes \<Rightarrow> u32 \<Rightarrow> u8 \<Rightarrow> trace_context option \<Rightarrow> job_envelope" where
  "job_envelope_new i l k p m pr t =
     \<lparr> env_id = i, env_lane = l, env_kind = k, env_payload = p, env_attempts = 0,
       env_max_attempts = m, env_priority = pr, env_trace_context = t \<rparr>"

definition into_envelope :: "new_job \<Rightarrow> job_envelope" where
  "into_envelope j =
     job_envelope_new (nj_id j) (nj_lane j) (nj_kind j) (nj_payload j) (nj_max_attempts j)
       (nj_priority j) (nj_trace_context j)"

record reservation =
  rsv_envelope :: job_envelope
  rsv_receipt :: receipt
  rsv_lease :: duration

definition reservation_new :: "job_envelope \<Rightarrow> receipt \<Rightarrow> duration \<Rightarrow> reservation" where
  "reservation_new e r l = \<lparr> rsv_envelope = e, rsv_receipt = r, rsv_lease = l \<rparr>"

record dead_letter =
  dl_envelope :: job_envelope
  dl_error :: string

definition dead_letter_new :: "job_envelope \<Rightarrow> string \<Rightarrow> dead_letter" where
  "dead_letter_new e s = \<lparr> dl_envelope = e, dl_error = s \<rparr>"

datatype job_state = Live | DeadLettered | CompletedOrUnknown

lemma into_envelope_simps [simp]:
  "env_id (into_envelope j) = nj_id j"
  "env_lane (into_envelope j) = nj_lane j"
  "env_kind (into_envelope j) = nj_kind j"
  "env_payload (into_envelope j) = nj_payload j"
  "env_attempts (into_envelope j) = 0"
  "env_max_attempts (into_envelope j) = nj_max_attempts j"
  "env_priority (into_envelope j) = nj_priority j"
  "env_trace_context (into_envelope j) = nj_trace_context j"
  by (simp_all add: into_envelope_def job_envelope_new_def)

lemma reservation_new_simps [simp]:
  "rsv_envelope (reservation_new e r l) = e"
  "rsv_receipt (reservation_new e r l) = r"
  "rsv_lease (reservation_new e r l) = l"
  by (simp_all add: reservation_new_def)

lemma dead_letter_new_simps [simp]:
  "dl_envelope (dead_letter_new e s) = e" "dl_error (dead_letter_new e s) = s"
  by (simp_all add: dead_letter_new_def)

section \<open>The per-run context\<close>

text \<open>
  A \<^verbatim>\<open>Cancellation\<close> is an \<^verbatim>\<open>Arc<AtomicBool>\<close>: an address, shared by its clones, into a
  store of flags.  A fresh flag is one whose address the store has not used.
\<close>

datatype cancellation = Cancellation nat

type_synonym flags = "nat \<Rightarrow> bool"

fun cancel :: "cancellation \<Rightarrow> flags \<Rightarrow> flags" where
  "cancel (Cancellation a) h = h(a := True)"

fun cancellation_is_cancelled :: "cancellation \<Rightarrow> flags \<Rightarrow> bool" where
  "cancellation_is_cancelled (Cancellation a) h = h a"

record job_context =
  ctx_id :: job_id
  ctx_lane :: lane
  ctx_attempts :: u32
  ctx_max_attempts :: u32
  ctx_priority :: u8
  ctx_kind :: string
  ctx_trace_context :: "trace_context option"
  ctx_cancellation :: cancellation

definition job_context_of :: "cancellation \<Rightarrow> job_envelope \<Rightarrow> job_context" where
  "job_context_of fresh e =
     \<lparr> ctx_id = env_id e, ctx_lane = env_lane e, ctx_attempts = env_attempts e,
       ctx_max_attempts = env_max_attempts e, ctx_priority = env_priority e, ctx_kind = env_kind e,
       ctx_trace_context = env_trace_context e, ctx_cancellation = fresh \<rparr>"

definition with_cancellation :: "cancellation \<Rightarrow> job_context \<Rightarrow> job_context" where
  "with_cancellation c ctx = ctx\<lparr> ctx_cancellation := c \<rparr>"

definition ctx_is_cancelled :: "job_context \<Rightarrow> flags \<Rightarrow> bool" where
  "ctx_is_cancelled ctx h = cancellation_is_cancelled (ctx_cancellation ctx) h"

lemma ctx_shares_cancellation:
  "ctx_is_cancelled (with_cancellation c ctx) (cancel c h)"
  by (cases c) (simp add: ctx_is_cancelled_def with_cancellation_def)

end
