(* ===== verification/Redact.thy ===== *)
theory Redact
  imports Rust_Str
begin

text \<open>
  Credential redaction, from \<^verbatim>\<open>worklane-core/src/redact.rs\<close>.  The loops that advance a slice
  or an index over the message recurse on the rest of the message.
\<close>

definition CREDENTIAL_QUERY_NEEDLES :: "string list" where
  "CREDENTIAL_QUERY_NEEDLES =
     [''password='', ''sslpassword='', ''passwd='', ''signature='', ''x-amz-credential='',
      ''x-amz-security-token='', ''awsaccesskeyid='', ''sig='']"

section \<open>Truncation\<close>

function char_boundary_below :: "string \<Rightarrow> nat \<Rightarrow> nat" where
  "char_boundary_below s e = (if is_char_boundary s e then e else char_boundary_below s (e - 1))"
  by auto

termination
proof (relation "measure snd")
  fix s e
  assume "\<not> is_char_boundary s e"
  then have "e \<noteq> 0" by (auto simp: is_char_boundary_def)
  then show "((s, e - 1), (s, e)) \<in> measure snd" by simp
qed simp

declare char_boundary_below.simps [simp del]

definition truncate_utf8 :: "string \<Rightarrow> nat \<Rightarrow> string" where
  "truncate_utf8 msg max_len =
     (if length msg \<le> max_len then msg else take (char_boundary_below msg max_len) msg @ ''...'')"

section \<open>Userinfo\<close>

definition token_delim :: "char \<Rightarrow> bool" where
  "token_delim c \<longleftrightarrow> c \<in> {CHR '' '', CHR 0x09, CHR 0x0A, CHR 0x22, CHR 0x27}"

definition looks_like_userinfo :: "string \<Rightarrow> bool" where
  "looks_like_userinfo p \<longleftrightarrow>
     CHR '':'' \<in> set p \<or> (\<forall>c \<in> {CHR ''/'', CHR ''?'', CHR ''#''}. c \<notin> set p)"

definition redact_token :: "string \<Rightarrow> string" where
  "redact_token token =
     (case str_rfind (CHR ''@'') token of
        Some at \<Rightarrow> (if looks_like_userinfo (take at token) then ''***@'' @ drop (at + 1) token
                    else token)
      | None \<Rightarrow> token)"

definition token_end :: "string \<Rightarrow> nat" where
  "token_end tail = (case position token_delim tail of Some i \<Rightarrow> i | None \<Rightarrow> length tail)"

function redact_userinfo :: "string \<Rightarrow> string" where
  "redact_userinfo rest =
     (case str_find ''://'' rest of
        None \<Rightarrow> rest
      | Some scheme_pos \<Rightarrow>
          (let after = scheme_pos + 3; tail = drop after rest; te = token_end tail
           in take after rest @ redact_token (take te tail) @ redact_userinfo (drop te tail)))"
  by auto

termination
proof (relation "measure length")
  fix rest scheme_pos after tail te
  assume "str_find ''://'' rest = Some scheme_pos" "after = scheme_pos + 3" "tail = drop after rest"
  then show "(drop te tail, rest) \<in> measure length"
    using str_find_SomeD(1) [of "''://''" rest scheme_pos] by simp
qed simp

declare redact_userinfo.simps [simp del]

section \<open>Query credentials\<close>

definition ident_byte :: "char \<Rightarrow> bool" where
  "ident_byte c \<longleftrightarrow> is_ascii_alphanumeric c \<or> c = CHR ''_''"

text \<open>The scan of \<open>find_key_at_boundary\<close> from byte \<open>from\<close> on.\<close>

function find_key_from :: "string \<Rightarrow> string \<Rightarrow> nat \<Rightarrow> nat option" where
  "find_key_from haystack needle from =
     (if from > length haystack then None
      else case str_find needle (drop from haystack) of
        None \<Rightarrow> None
      | Some rel \<Rightarrow>
          (let pos = from + rel
           in if \<not> (pos > 0 \<and> ident_byte (haystack ! (pos - 1))) then Some pos
              else find_key_from haystack needle (pos + 1)))"
  by auto

termination
  by (relation "measure (\<lambda>(h, n, from). Suc (length h) - from)") auto

declare find_key_from.simps [simp del]

definition find_key_at_boundary :: "string \<Rightarrow> string \<Rightarrow> nat option" where
  "find_key_at_boundary haystack needle = find_key_from haystack needle 0"

text \<open>\<^verbatim>\<open>filter_map\<close> over the needles and \<^verbatim>\<open>min_by_key\<close> on the position: the first of the
  minimal hits.\<close>

fun min_by_pos :: "(nat \<times> nat) list \<Rightarrow> (nat \<times> nat) option" where
  "min_by_pos [] = None"
| "min_by_pos (h # hs) =
     (case min_by_pos hs of None \<Rightarrow> Some h | Some g \<Rightarrow> Some (if fst h \<le> fst g then h else g))"

definition credential_hit :: "string \<Rightarrow> (nat \<times> nat) option" where
  "credential_hit remaining =
     min_by_pos (concat (map (\<lambda>needle. case find_key_at_boundary remaining needle of
                                 None \<Rightarrow> [] | Some pos \<Rightarrow> [(pos, length needle)])
                             CREDENTIAL_QUERY_NEEDLES))"

definition value_delim :: "char \<Rightarrow> bool" where
  "value_delim c \<longleftrightarrow> c = CHR ''&'' \<or> token_delim c"

definition value_end :: "string \<Rightarrow> nat" where
  "value_end v = (case position value_delim v of Some p \<Rightarrow> p | None \<Rightarrow> length v)"

lemma min_by_pos_None [simp]: "min_by_pos hs = None \<longleftrightarrow> hs = []"
  by (cases hs) (auto split: option.splits)

lemma min_by_pos_Some:
  assumes "min_by_pos hs = Some h"
  shows "h \<in> set hs \<and> (\<forall>g \<in> set hs. fst h \<le> fst g)"
  using assms
proof (induction hs arbitrary: h)
  case (Cons x xs)
  then show ?case by (cases "min_by_pos xs") (auto split: if_splits)
qed simp

text \<open>An occurrence of a key at a boundary of \<open>s\<close>.\<close>

definition key_at :: "string \<Rightarrow> string \<Rightarrow> nat \<Rightarrow> bool" where
  "key_at s needle p \<longleftrightarrow>
     p \<le> length s \<and> prefix needle (drop p s) \<and> (p = 0 \<or> \<not> ident_byte (s ! (p - 1)))"

lemma find_key_from_Some:
  assumes "find_key_from h n from = Some p"
  shows "from \<le> p \<and> key_at h n p \<and> (\<forall>q. from \<le> q \<and> q < p \<longrightarrow> \<not> key_at h n q)"
  using assms
proof (induction h n "from" rule: find_key_from.induct)
  case (1 h n "from")
  then have len: "\<not> from > length h" by (auto simp: find_key_from.simps [of h n "from"] split: if_splits)
  with "1.prems" obtain rel where rel: "str_find n (drop from h) = Some rel"
    by (auto simp: find_key_from.simps [of h n "from"] split: option.splits)
  let ?pos = "from + rel"
  from rel have occ: "?pos \<le> length h" "prefix n (drop ?pos h)"
    and before: "\<forall>k < rel. \<not> prefix n (drop (from + k) h)"
    using len by (auto simp: str_find_Some_iff add.commute)
  have skip: "\<not> key_at h n q" if "from \<le> q" "q < ?pos" for q
    using before [rule_format, of "q - from"] that by (auto simp: key_at_def)
  show ?case
  proof (cases "?pos > 0 \<and> ident_byte (h ! (?pos - 1))")
    case False
    with "1.prems" len rel have "p = ?pos"
      by (auto simp: find_key_from.simps [of h n "from"] Let_def split: if_splits)
    with False occ skip show ?thesis by (auto simp: key_at_def)
  next
    case True
    with "1.prems" len rel have nxt: "find_key_from h n (?pos + 1) = Some p"
      by (auto simp: find_key_from.simps [of h n "from"] Let_def)
    from "1.IH" [OF len rel refl _ this] True
    have ih: "?pos + 1 \<le> p \<and> key_at h n p \<and> (\<forall>q. ?pos + 1 \<le> q \<and> q < p \<longrightarrow> \<not> key_at h n q)"
      by blast
    from True have "\<not> key_at h n ?pos" by (auto simp: key_at_def)
    with ih skip show ?thesis by (metis Suc_eq_plus1 Suc_leI le_trans less_or_eq_imp_le linorder_neqE_nat le_add1)
  qed
qed

lemma find_key_from_None:
  assumes "find_key_from h n from = None" and "from \<le> q"
  shows "\<not> key_at h n q"
  using assms
proof (induction h n "from" rule: find_key_from.induct)
  case (1 h n "from")
  show ?case
  proof (cases "from > length h")
    case True
    with "1.prems" show ?thesis by (auto simp: key_at_def)
  next
    case len: False
    show ?thesis
    proof (cases "str_find n (drop from h)")
      case None
      with "1.prems" len have "\<not> prefix n (drop q h)" if "q \<le> length h"
        using that str_find_None_iff [of n "drop from h"]
        by (metis (no_types, lifting) add.commute diff_le_mono drop_drop le_add_diff_inverse2 length_drop)
      then show ?thesis by (auto simp: key_at_def)
    next
      case (Some rel)
      let ?pos = "from + rel"
      from Some have before: "\<forall>k < rel. \<not> prefix n (drop (from + k) h)"
        by (auto simp: str_find_Some_iff add.commute)
      from "1.prems"(1) len Some have ident: "?pos > 0 \<and> ident_byte (h ! (?pos - 1))"
        by (auto simp: find_key_from.simps [of h n "from"] Let_def split: if_splits)
      with "1.prems"(1) len Some have nxt: "find_key_from h n (?pos + 1) = None"
        by (auto simp: find_key_from.simps [of h n "from"] Let_def)
      consider "q < ?pos" | "q = ?pos" | "?pos + 1 \<le> q" by linarith
      then show ?thesis
      proof cases
        case 1
        with before [rule_format, of "q - from"] "1.prems"(2) show ?thesis by (auto simp: key_at_def)
      next
        case 2
        with ident show ?thesis by (auto simp: key_at_def)
      next
        case 3
        with "1.IH" [OF len Some refl _ nxt] ident show ?thesis by blast
      qed
    qed
  qed
qed

lemma credential_hit_Some:
  assumes "credential_hit s = Some (p, k)"
  obtains n where "n \<in> set CREDENTIAL_QUERY_NEEDLES" "k = length n" "key_at s n p"
    "\<And>m q. m \<in> set CREDENTIAL_QUERY_NEEDLES \<Longrightarrow> key_at s m q \<Longrightarrow> p \<le> q"
proof -
  let ?hits = "concat (map (\<lambda>needle. case find_key_at_boundary s needle of
                 None \<Rightarrow> [] | Some pos \<Rightarrow> [(pos, length needle)]) CREDENTIAL_QUERY_NEEDLES)"
  from assms have mem: "(p, k) \<in> set ?hits"
    and least: "\<And>g. g \<in> set ?hits \<Longrightarrow> p \<le> fst g"
    unfolding credential_hit_def by (auto dest: min_by_pos_Some)
  from mem obtain n where n: "n \<in> set CREDENTIAL_QUERY_NEEDLES"
    "find_key_at_boundary s n = Some p" "k = length n"
    by (auto split: option.splits)
  have "p \<le> q" if "m \<in> set CREDENTIAL_QUERY_NEEDLES" "key_at s m q" for m q
  proof (cases "find_key_from s m 0")
    case None
    from find_key_from_None [OF None, of q] that show ?thesis by simp
  next
    case (Some r)
    with that have "(r, length m) \<in> set ?hits" by (force simp: find_key_at_boundary_def)
    with least have "p \<le> r" by force
    moreover from find_key_from_Some [OF Some] that have "r \<le> q" by (metis le0 not_le)
    ultimately show ?thesis by simp
  qed
  with n find_key_from_Some [of s n 0 p] that show ?thesis
    by (auto simp: find_key_at_boundary_def)
qed


lemma needles_nonempty: "n \<in> set CREDENTIAL_QUERY_NEEDLES \<Longrightarrow> n \<noteq> []"
  by (auto simp: CREDENTIAL_QUERY_NEEDLES_def)

lemma credential_hit_pos:
  assumes "credential_hit s = Some (p, k)"
  shows "0 < k" and "p + k \<le> length s"
proof -
  from assms obtain n where n: "n \<in> set CREDENTIAL_QUERY_NEEDLES" "k = length n" "key_at s n p"
    by (rule credential_hit_Some)
  from n needles_nonempty show "0 < k" by auto
  from n show "p + k \<le> length s"
    by (auto simp: key_at_def dest!: prefix_length_le)
qed

function redact_query_credentials :: "string \<Rightarrow> string" where
  "redact_query_credentials msg =
     (if msg = [] then []
      else case credential_hit (to_ascii_lowercase msg) of
        None \<Rightarrow> msg
      | Some (rel_pos, key_len) \<Rightarrow>
          (let value_start = rel_pos + key_len; v = drop value_start msg
           in take value_start msg @ ''***'' @ redact_query_credentials (drop (value_end v) v)))"
  by auto

termination
proof (relation "measure length")
  fix msg a rel_pos key_len value_start v
  assume "credential_hit (to_ascii_lowercase msg) = Some a" "(rel_pos, key_len) = a"
    "value_start = rel_pos + key_len" "v = drop value_start msg"
  then show "(drop (value_end v) v, msg) \<in> measure length"
    using credential_hit_pos [of "to_ascii_lowercase msg" rel_pos key_len] by auto
qed simp

declare redact_query_credentials.simps [simp del]

definition redact_credentials :: "string \<Rightarrow> string" where
  "redact_credentials msg = redact_query_credentials (redact_userinfo msg)"

definition redact_and_truncate :: "string \<Rightarrow> nat \<Rightarrow> string" where
  "redact_and_truncate msg max_len = truncate_utf8 (redact_credentials msg) max_len"

section \<open>What redaction guarantees\<close>






















lemma char_boundary_below_le: "char_boundary_below s e \<le> e"
  by (induction s e rule: char_boundary_below.induct)
    (subst char_boundary_below.simps, auto intro: le_trans)

lemma char_boundary_below_is: "is_char_boundary s (char_boundary_below s e)"
  by (induction s e rule: char_boundary_below.induct) (subst char_boundary_below.simps, simp)

lemma truncate_utf8_valid:
  assumes "valid_str s"
  shows "valid_str (truncate_utf8 s n)"
proof (cases "length s \<le> n")
  case False
  have "valid_str ''...''" by code_simp
  with False assms char_boundary_below_is [of s n] char_boundary_below_le [of s n] show ?thesis
    by (simp del: append.simps add: truncate_utf8_def valid_str_append valid_str_take)
qed (use assms in \<open>simp add: truncate_utf8_def\<close>)

lemma truncate_utf8_length: "length (truncate_utf8 s n) \<le> n + 3"
  using char_boundary_below_le [of s n] by (auto simp: truncate_utf8_def)

section \<open>Properties\<close>





text \<open>C34: bounding a redacted message keeps it well-formed UTF-8 and within the limit plus
  the three bytes of the ellipsis, whatever byte the limit falls on.\<close>

theorem truncate_utf8_bounded:
  assumes "valid_str msg"
  shows "valid_str (truncate_utf8 msg max_len) \<and> length (truncate_utf8 msg max_len) \<le> max_len + 3 \<and>
    (length msg \<le> max_len \<longrightarrow> truncate_utf8 msg max_len = msg)"
  using truncate_utf8_valid [OF assms] truncate_utf8_length by (simp add: truncate_utf8_def)

theorem truncate_utf8_bounded_witness:
  "valid_str [CHR ''a'', CHR 0xC3, CHR 0xA9, CHR ''b''] \<and>
   valid_str (truncate_utf8 [CHR ''a'', CHR 0xC3, CHR 0xA9, CHR ''b''] 2) \<and>
   truncate_utf8 [CHR ''a'', CHR 0xC3, CHR 0xA9, CHR ''b''] 2 = ''a...''"
proof -
  have v: "valid_str [CHR ''a'', CHR 0xC3, CHR 0xA9, CHR ''b'']" by code_simp
  have "truncate_utf8 [CHR ''a'', CHR 0xC3, CHR 0xA9, CHR ''b''] 2 = ''a...''" by code_simp
  with v truncate_utf8_bounded [OF v, of 2] show ?thesis by blast
qed

end
