(* ===== verification/Spi.thy ===== *)
theory Spi
  imports Envelopes Redact
begin

text \<open>
  The plumbing every durable broker shares, from \<^verbatim>\<open>worklane-core/src/spi.rs\<close>, and the payload
  codec of \<^verbatim>\<open>payload.rs\<close>.  \<^verbatim>\<open>serde_json\<close> is an argument: \<open>to_vec\<close> and \<open>from_slice\<close> return
  the bytes, the value, or the text of their error.
\<close>

definition MAX_ENVELOPE_BYTES :: nat where "MAX_ENVELOPE_BYTES = 64 * 1024 * 1024"
definition MAX_TRACE_CONTEXT_ENTRIES :: nat where "MAX_TRACE_CONTEXT_ENTRIES = 34"
definition MAX_TRACE_CONTEXT_BYTES :: nat where "MAX_TRACE_CONTEXT_BYTES = 8 * 1024"
definition MAX_DEAD_LETTER_SWEEP :: nat where "MAX_DEAD_LETTER_SWEEP = 128"
definition DEFAULT_LEASE :: duration where "DEFAULT_LEASE = from_secs 30"

definition json_err :: "string \<Rightarrow> error" where
  "json_err e = Broker [Lit (redact_and_truncate e 512)]"

definition serde_err :: "string \<Rightarrow> error" where
  "serde_err e = Serialization [Lit (redact_and_truncate e 512)]"

fun map_err :: "('a \<Rightarrow> 'b) \<Rightarrow> 'a + 'c \<Rightarrow> 'b + 'c" where
  "map_err f (Inl e) = Inl (f e)"
| "map_err f (Inr x) = Inr x"

definition to_payload :: "('a \<Rightarrow> string + bytes) \<Rightarrow> 'a \<Rightarrow> bytes result" where
  "to_payload to_vec v = map_err serde_err (to_vec v)"

definition from_payload :: "(bytes \<Rightarrow> string + 'a) \<Rightarrow> bytes \<Rightarrow> 'a result" where
  "from_payload from_slice bs = map_err serde_err (from_slice bs)"

text \<open>The total size of a propagation map: \<^verbatim>\<open>k.len() + v.len()\<close> summed over its entries.\<close>

definition trace_context_bytes :: "trace_context \<Rightarrow> nat" where
  "trace_context_bytes tc = sum_list (map (\<lambda>(k, v). length k + length v) tc)"

definition check_trace_context :: "trace_context option \<Rightarrow> unit result" where
  "check_trace_context t =
     (case t of
        None \<Rightarrow> Inr ()
      | Some tc \<Rightarrow>
          if length tc > MAX_TRACE_CONTEXT_ENTRIES
          then Inl (Serialization [Lit ''trace_context has '', FNat (length tc), Lit '' entries, over the '',
                 FNat MAX_TRACE_CONTEXT_ENTRIES, Lit ''-entry limit''])
          else if trace_context_bytes tc > MAX_TRACE_CONTEXT_BYTES
          then Inl (Serialization [Lit ''trace_context is '', FNat (trace_context_bytes tc),
                 Lit '' bytes, over the '', FNat MAX_TRACE_CONTEXT_BYTES, Lit ''-byte limit''])
          else Inr ())"

definition encode_envelope :: "(job_envelope \<Rightarrow> string + bytes) \<Rightarrow> job_envelope \<Rightarrow> bytes result" where
  "encode_envelope to_vec e =
     and_then (check_trace_context (env_trace_context e)) (\<lambda>_.
     and_then (map_err json_err (to_vec e)) (\<lambda>bs.
       if length bs > MAX_ENVELOPE_BYTES
       then Inl (Serialization [Lit ''encoded job envelope is '', FNat (length bs),
              Lit '' bytes, over the '', FNat MAX_ENVELOPE_BYTES, Lit ''-byte limit''])
       else Inr bs))"

definition decode_envelope :: "(bytes \<Rightarrow> string + job_envelope) \<Rightarrow> bytes \<Rightarrow> job_envelope result" where
  "decode_envelope from_slice bs =
     (if length bs > MAX_ENVELOPE_BYTES
      then Inl (Serialization [Lit ''stored job envelope is '', FNat (length bs),
             Lit '' bytes, over the '', FNat MAX_ENVELOPE_BYTES, Lit ''-byte limit''])
      else map_err json_err (from_slice bs))"

definition receipt_key :: "(receipt \<Rightarrow> string + string) \<Rightarrow> receipt \<Rightarrow> string result" where
  "receipt_key to_string r = map_err json_err (to_string r)"

definition nanos :: "duration \<Rightarrow> int" where
  "nanos d = i64_of_nat_sat d"

definition stale :: "receipt \<Rightarrow> error" where
  "stale r = StaleReservation
     [Lit ''receipt ReservationReceipt('', FId (receipt_uuid r), Lit '') is not current'']"

definition reject_chars :: "lane \<Rightarrow> nat list \<Rightarrow> nat + string" where
  "reject_chars l denylist =
     (case find (\<lambda>c. c \<in> set denylist) (str_chars (lane_str l)) of
        Some c \<Rightarrow> Inl c | None \<Rightarrow> Inr (lane_str l))"

definition allow_only :: "lane \<Rightarrow> (nat \<Rightarrow> bool) \<Rightarrow> nat + string" where
  "allow_only l allow =
     (case find (\<lambda>c. \<not> allow c) (str_chars (lane_str l)) of
        Some c \<Rightarrow> Inl c | None \<Rightarrow> Inr (lane_str l))"

definition classify_state :: "int option \<Rightarrow> job_state" where
  "classify_state code =
     (if code = Some 1 then Live else if code = Some 2 then DeadLettered else CompletedOrUnknown)"

definition SCHEMA_VERSION :: int where "SCHEMA_VERSION = 1"

datatype schema_version_check = Fresh | Match | Mismatch int

definition check_schema_version :: "int option \<Rightarrow> schema_version_check" where
  "check_schema_version stored =
     (case stored of
        None \<Rightarrow> Fresh
      | Some v \<Rightarrow> (if v = SCHEMA_VERSION then Match else Mismatch v))"

lemma is_stale_stale [simp]: "is_stale (stale r)"
  by (simp add: stale_def)

lemma stale_inject [simp]: "stale r = stale r' \<longleftrightarrow> r = r'"
  by (cases r; cases r') (simp add: stale_def)

lemma nanos_mono: "a \<le> b \<Longrightarrow> nanos a \<le> nanos b"
  by (simp add: nanos_def i64_of_nat_sat_def I64_MAX_def)

lemma nanos_nonneg [simp]: "0 \<le> nanos d"
  by (simp add: nanos_def i64_of_nat_sat_def I64_MAX_def)

lemma nanos_le_max [simp]: "nanos d \<le> I64_MAX"
  by (simp add: nanos_def i64_of_nat_sat_def)

lemma nanos_eq: "nanos d = min (int d) I64_MAX"
  by (simp add: nanos_def i64_of_nat_sat_def)

section \<open>The envelope codec\<close>

text \<open>What the brokers rely on of \<^verbatim>\<open>serde_json\<close>: what it wrote reads back.\<close>

definition serde_round_trip :: "('a \<Rightarrow> string + bytes) \<Rightarrow> (bytes \<Rightarrow> string + 'a) \<Rightarrow> bool" where
  "serde_round_trip to_vec from_slice \<longleftrightarrow> (\<forall>v bs. to_vec v = Inr bs \<longrightarrow> from_slice bs = Inr v)"

lemma map_err_Inr_iff [simp]: "map_err f r = Inr x \<longleftrightarrow> r = Inr x"
  by (cases r) auto

lemma and_then_Inr_iff: "and_then r f = Inr y \<longleftrightarrow> (\<exists>x. r = Inr x \<and> f x = Inr y)"
  by (cases r) auto

lemma encode_envelope_Inr:
  "encode_envelope to_vec e = Inr bs \<longleftrightarrow>
     check_trace_context (env_trace_context e) = Inr () \<and> to_vec e = Inr bs \<and>
     length bs \<le> MAX_ENVELOPE_BYTES"
  by (auto simp: encode_envelope_def and_then_Inr_iff not_less split: if_splits)

lemma check_trace_context_Inr:
  "check_trace_context t = Inr u \<longleftrightarrow>
     (\<forall>tc. t = Some tc \<longrightarrow> length tc \<le> MAX_TRACE_CONTEXT_ENTRIES \<and>
        trace_context_bytes tc \<le> MAX_TRACE_CONTEXT_BYTES)"
  by (cases t) (auto simp: check_trace_context_def)

lemma decode_encode_envelope:
  assumes "serde_round_trip to_vec from_slice" and "encode_envelope to_vec e = Inr bs"
  shows "decode_envelope from_slice bs = Inr e"
  using assms by (auto simp: encode_envelope_Inr serde_round_trip_def decode_envelope_def)

lemma reject_chars_Inr_iff:
  "reject_chars l deny = Inr s \<longleftrightarrow>
     s = lane_str l \<and> set (str_chars (lane_str l)) \<inter> set deny = {}"
proof (cases "find (\<lambda>c. c \<in> set deny) (str_chars (lane_str l))")
  case None
  then have "set (str_chars (lane_str l)) \<inter> set deny = {}" by (auto simp: find_None_iff)
  with None show ?thesis by (auto simp: reject_chars_def)
next
  case (Some c)
  then have "c \<in> set (str_chars (lane_str l)) \<inter> set deny" by (auto simp: find_Some_iff)
  with Some show ?thesis by (auto simp: reject_chars_def)
qed

end
