(* ===== verification/Retention.thy ===== *)
theory Retention
  imports Spi
begin

text \<open>
  Dead-letter retention, from \<^verbatim>\<open>worklane-core/src/retention.rs\<close>: the policy, its bounds as the
  durable brokers use them, and the one-shot warning of an unbounded policy.
\<close>

record retention_policy =
  max_age :: "duration option"
  max_count :: "u64 option"

definition retention_new :: retention_policy where
  "retention_new = \<lparr> max_age = None, max_count = None \<rparr>"

definition with_max_age :: "duration \<Rightarrow> retention_policy \<Rightarrow> retention_policy" where
  "with_max_age a p = p\<lparr> max_age := Some a \<rparr>"

definition with_max_count :: "u64 \<Rightarrow> retention_policy \<Rightarrow> retention_policy" where
  "with_max_count n p = p\<lparr> max_count := Some n \<rparr>"

definition is_unbounded :: "retention_policy \<Rightarrow> bool" where
  "is_unbounded p \<longleftrightarrow> max_age p = None \<and> max_count p = None"

definition age_cutoff_nanos :: "retention_policy \<Rightarrow> int \<Rightarrow> int option" where
  "age_cutoff_nanos p now = map_option (\<lambda>age. i64_saturating_sub now (nanos age)) (max_age p)"

definition keep_count :: "retention_policy \<Rightarrow> int option" where
  "keep_count p = map_option (\<lambda>count. i64_of_nat_sat (unat count)) (max_count p)"

text \<open>\<^verbatim>\<open>UnboundedDlqWarning\<close>: the flag that the warning has fired, and whether this call warns.\<close>

definition warn_once :: "retention_policy \<Rightarrow> bool \<Rightarrow> bool \<times> bool" where
  "warn_once p warned =
     (if \<not> is_unbounded p then (False, warned)
      else if warned then (False, True)
      else (True, True))"

lemma warn_once_once: "fst (warn_once p w) \<Longrightarrow> \<not> fst (warn_once q (snd (warn_once p w)))"
  by (auto simp: warn_once_def split: if_splits)

text \<open>A cutoff computed in saturated nanoseconds agrees with the exact one while both times are
  below the saturation point.\<close>

lemma age_cutoff_exact:
  assumes "max_age p = Some age" and "int now \<le> I64_MAX" and "int age \<le> I64_MAX"
  shows "age_cutoff_nanos p (nanos now) = Some (int now - int age)"
  using assms
  by (simp add: age_cutoff_nanos_def nanos_eq i64_saturating_sub_def I64_MAX_def I64_MIN_def)

end
