(* ===== verification/Memory_Broker.thy ===== *)
theory Memory_Broker
  imports Retention
begin

text \<open>
  The in-memory broker, \<^verbatim>\<open>worklane-memory/src/lib.rs\<close>.  \<open>inner\<close> is what the mutex guards,
  with the one-shot flag of the retention warning; \<open>mem_config\<close> holds the settings of the
  builder methods.  Every method takes the lock for its whole body, so a method is one step: a
  function of the clock reading and the state to the result and the new state.  The receipt a
  reservation mints is an argument.
\<close>

record stored_job =
  sj_envelope :: job_envelope
  sj_available_at :: duration
  sj_leased_until :: "duration option"
  sj_receipt :: "receipt option"
  sj_unique_key :: "string option"
  sj_deliveries :: u32

record dead_entry =
  de_letter :: dead_letter
  de_unique_key :: "string option"
  de_dead_at :: duration

record inner =
  in_jobs :: "stored_job list"
  in_dead :: "dead_entry list"
  in_unique :: "string \<rightharpoonup> job_id"
  in_schedules :: "string \<rightharpoonup> int"
  in_dlq_warned :: bool

record mem_config =
  mc_lease :: duration
  mc_retention :: retention_policy
  mc_max_deliveries :: "u32 option"

abbreviation sj_id :: "stored_job \<Rightarrow> job_id" where "sj_id j \<equiv> env_id (sj_envelope j)"
abbreviation sj_lane :: "stored_job \<Rightarrow> lane" where "sj_lane j \<equiv> env_lane (sj_envelope j)"
abbreviation de_id :: "dead_entry \<Rightarrow> job_id" where "de_id d \<equiv> env_id (dl_envelope (de_letter d))"
abbreviation de_lane :: "dead_entry \<Rightarrow> lane" where "de_lane d \<equiv> env_lane (dl_envelope (de_letter d))"

definition mem_with_clock :: inner where
  "mem_with_clock =
     \<lparr> in_jobs = [], in_dead = [], in_unique = Map.empty, in_schedules = Map.empty,
       in_dlq_warned = False \<rparr>"

definition mem_config_default :: mem_config where
  "mem_config_default =
     \<lparr> mc_lease = DEFAULT_LEASE, mc_retention = retention_new, mc_max_deliveries = None \<rparr>"

definition mem_with_lease :: "duration \<Rightarrow> mem_config \<Rightarrow> mem_config" where
  "mem_with_lease l c = c\<lparr> mc_lease := l \<rparr>"

definition mem_with_max_deliveries :: "u32 \<Rightarrow> mem_config \<Rightarrow> mem_config" where
  "mem_with_max_deliveries m c = c\<lparr> mc_max_deliveries := Some m \<rparr>"

definition mem_with_dead_letter_retention :: "retention_policy \<Rightarrow> mem_config \<Rightarrow> mem_config" where
  "mem_with_dead_letter_retention p c = c\<lparr> mc_retention := p \<rparr>"

section \<open>Dead letters\<close>

text \<open>The \<^verbatim>\<open>retain\<close> that drops the first \<open>n\<close> records of a lane.\<close>

fun drop_oldest :: "lane \<Rightarrow> nat \<Rightarrow> dead_entry list \<Rightarrow> dead_entry list" where
  "drop_oldest l n [] = []"
| "drop_oldest l n (d # ds) =
     (if de_lane d = l \<and> n > 0 then drop_oldest l (n - 1) ds else d # drop_oldest l n ds)"

definition prune_dead :: "lane \<Rightarrow> retention_policy \<Rightarrow> duration \<Rightarrow> inner \<Rightarrow> inner" where
  "prune_dead l policy now inn =
     (if is_unbounded policy then inn
      else
        let inn1 = (case max_age policy of
              None \<Rightarrow> inn
            | Some age \<Rightarrow>
                (let cutoff = dur_saturating_sub now age
                 in inn\<lparr> in_dead := filter (\<lambda>d. de_lane d \<noteq> l \<or> de_dead_at d \<ge> cutoff) (in_dead inn) \<rparr>))
        in case max_count policy of
             None \<Rightarrow> inn1
           | Some count \<Rightarrow>
               (let total = length (filter (\<lambda>d. de_lane d = l) (in_dead inn1))
                in if total > unat count
                   then inn1\<lparr> in_dead := drop_oldest l (total - unat count) (in_dead inn1) \<rparr>
                   else inn1))"

section \<open>Choosing a job\<close>

definition mem_visible :: "lane \<Rightarrow> duration \<Rightarrow> stored_job \<Rightarrow> bool" where
  "mem_visible l now j \<longleftrightarrow> sj_lane j = l \<and> sj_leased_until j = None \<and> sj_available_at j \<le> now"

definition mem_better :: "stored_job \<Rightarrow> stored_job \<Rightarrow> bool" where
  "mem_better job best \<longleftrightarrow>
     env_priority (sj_envelope job) > env_priority (sj_envelope best) \<or>
     (env_priority (sj_envelope job) = env_priority (sj_envelope best) \<and>
      sj_available_at job < sj_available_at best)"

text \<open>The body of the scan: the best index so far after looking at job \<open>i\<close>.\<close>

definition pick_step :: "stored_job list \<Rightarrow> lane \<Rightarrow> duration \<Rightarrow> nat \<Rightarrow> nat option \<Rightarrow> nat option" where
  "pick_step jobs l now i best_idx =
     (if mem_visible l now (jobs ! i)
      then (case best_idx of
              Some best \<Rightarrow> if mem_better (jobs ! i) (jobs ! best) then Some i else best_idx
            | None \<Rightarrow> Some i)
      else best_idx)"

definition pick_best :: "stored_job list \<Rightarrow> lane \<Rightarrow> duration \<Rightarrow> nat option" where
  "pick_best jobs l now = fold (pick_step jobs l now) [0..<length jobs] None"

text \<open>The reference: the index of the first visible job that no visible job is better than.\<close>

definition best_below :: "stored_job list \<Rightarrow> lane \<Rightarrow> duration \<Rightarrow> nat \<Rightarrow> nat option \<Rightarrow> bool" where
  "best_below jobs l now n best \<longleftrightarrow>
     (case best of
        None \<Rightarrow> (\<forall>k < n. \<not> mem_visible l now (jobs ! k))
      | Some b \<Rightarrow> b < n \<and> mem_visible l now (jobs ! b) \<and>
          (\<forall>k < n. mem_visible l now (jobs ! k) \<longrightarrow>
             \<not> mem_better (jobs ! k) (jobs ! b) \<and> (k < b \<longrightarrow> mem_better (jobs ! b) (jobs ! k))))"

lemma mem_better_trans: "mem_better a b \<Longrightarrow> \<not> mem_better c b \<Longrightarrow> mem_better a c \<and> \<not> mem_better c a"
  by (auto simp: mem_better_def)

lemma mem_better_irrefl [simp]: "\<not> mem_better a a"
  by (simp add: mem_better_def)

lemma pick_step_best_below:
  assumes "best_below jobs l now n best"
  shows "best_below jobs l now (Suc n) (pick_step jobs l now n best)"
proof (cases best)
  case None
  with assms show ?thesis by (auto simp: best_below_def pick_step_def less_Suc_eq)
next
  case (Some b)
  with assms mem_better_trans [of "jobs ! n" "jobs ! b"] show ?thesis
    by (auto simp: best_below_def pick_step_def less_Suc_eq)
qed

lemma pick_best_best_below: "best_below jobs l now (length jobs) (pick_best jobs l now)"
proof -
  have "best_below jobs l now n (fold (pick_step jobs l now) [0..<n] None)" for n
    by (induction n) (simp add: best_below_def, simp add: pick_step_best_below)
  then show ?thesis by (simp add: pick_best_def)
qed

lemma pick_best_SomeD:
  assumes "pick_best jobs l now = Some i"
  shows "i < length jobs" and "mem_visible l now (jobs ! i)"
  using pick_best_best_below [of jobs l now] assms by (auto simp: best_below_def)

lemma pick_best_NoneD:
  "pick_best jobs l now = None \<Longrightarrow> j \<in> set jobs \<Longrightarrow> \<not> mem_visible l now j"
  using pick_best_best_below [of jobs l now] by (auto simp: best_below_def in_set_conv_nth)

section \<open>Insertion and removal\<close>

definition check_payload_size :: "new_job \<Rightarrow> unit result" where
  "check_payload_size job =
     (if length (nj_payload job) > MAX_ENVELOPE_BYTES
      then Inl (Serialization [Lit ''job payload is '', FNat (length (nj_payload job)),
             Lit '' bytes, over the '', FNat MAX_ENVELOPE_BYTES, Lit ''-byte limit''])
      else Inr ())"

definition stored_of :: "new_job \<Rightarrow> duration \<Rightarrow> stored_job" where
  "stored_of job available_at =
     \<lparr> sj_envelope = into_envelope job, sj_available_at = available_at, sj_leased_until = None,
       sj_receipt = None, sj_unique_key = nj_unique_key job, sj_deliveries = 0 \<rparr>"

definition insert_one :: "new_job \<Rightarrow> duration \<Rightarrow> inner \<Rightarrow> job_id \<times> inner" where
  "insert_one job now inn =
     (let available_at = dur_saturating_add now (nj_delay job) in
      if list_ex (\<lambda>j. sj_id j = nj_id job) (in_jobs inn) then (nj_id job, inn)
      else case Option.bind (nj_unique_key job) (in_unique inn) of
        Some existing \<Rightarrow> (existing, inn)
      | None \<Rightarrow>
          (nj_id job,
           inn\<lparr> in_unique := (case nj_unique_key job of
                                Some key \<Rightarrow> (in_unique inn)(key \<mapsto> nj_id job)
                              | None \<Rightarrow> in_unique inn),
                in_jobs := in_jobs inn @ [stored_of job available_at] \<rparr>))"

definition release_key :: "string option \<Rightarrow> (string \<rightharpoonup> job_id) \<Rightarrow> (string \<rightharpoonup> job_id)" where
  "release_key k u = (case k of Some key \<Rightarrow> u(key := None) | None \<Rightarrow> u)"

definition dead_letter_at ::
  "nat \<Rightarrow> string \<Rightarrow> duration \<Rightarrow> retention_policy \<Rightarrow> inner \<Rightarrow> inner" where
  "dead_letter_at idx err now retention inn =
     (let job = in_jobs inn ! idx in
      prune_dead (sj_lane job) retention now
        (inn\<lparr> in_jobs := remove_at idx (in_jobs inn),
              in_unique := release_key (sj_unique_key job) (in_unique inn),
              in_dead := in_dead inn @
                [\<lparr> de_letter = dead_letter_new (sj_envelope job) err,
                   de_unique_key = sj_unique_key job, de_dead_at = now \<rparr>] \<rparr>))"

definition release_lease :: "stored_job \<Rightarrow> stored_job" where
  "release_lease j = j\<lparr> sj_leased_until := None, sj_receipt := None \<rparr>"

definition lease_expired :: "duration \<Rightarrow> stored_job \<Rightarrow> bool" where
  "lease_expired now j \<longleftrightarrow> (case sj_leased_until j of Some until \<Rightarrow> until \<le> now | None \<Rightarrow> False)"

definition find_current_receipt :: "receipt \<Rightarrow> duration \<Rightarrow> inner \<Rightarrow> nat result \<times> inner" where
  "find_current_receipt r now inn =
     (case position (\<lambda>j. sj_receipt j = Some r) (in_jobs inn) of
        None \<Rightarrow> (Inl (stale r), inn)
      | Some pos \<Rightarrow>
          if lease_expired now (in_jobs inn ! pos)
          then (Inl (stale r), inn\<lparr> in_jobs := update_at pos release_lease (in_jobs inn) \<rparr>)
          else (Inr pos, inn))"

section \<open>The broker methods\<close>

definition mem_enqueue :: "duration \<Rightarrow> new_job \<Rightarrow> inner \<Rightarrow> job_id result \<times> inner" where
  "mem_enqueue now job inn =
     (case check_payload_size job of
        Inl e \<Rightarrow> (Inl e, inn)
      | Inr _ \<Rightarrow> (let (i, inn') = insert_one job now inn in (Inr i, inn')))"

fun check_all :: "new_job list \<Rightarrow> unit result" where
  "check_all [] = Inr ()"
| "check_all (j # js) = and_then (check_payload_size j) (\<lambda>_. check_all js)"

fun insert_all :: "new_job list \<Rightarrow> duration \<Rightarrow> inner \<Rightarrow> job_id list \<times> inner" where
  "insert_all [] now inn = ([], inn)"
| "insert_all (j # js) now inn =
     (let (i, inn1) = insert_one j now inn; (is, inn2) = insert_all js now inn1 in (i # is, inn2))"

definition mem_enqueue_batch :: "duration \<Rightarrow> new_job list \<Rightarrow> inner \<Rightarrow> job_id list result \<times> inner" where
  "mem_enqueue_batch now jobs inn =
     (case check_all jobs of
        Inl e \<Rightarrow> (Inl e, inn)
      | Inr _ \<Rightarrow> (let (ids, inn') = insert_all jobs now inn in (Inr ids, inn')))"

text \<open>The first loop of \<^verbatim>\<open>reserve\<close> releases expired leases; the second picks jobs until one is
  within the delivery bound, dead-lettering those that are not.\<close>

definition release_expired :: "duration \<Rightarrow> inner \<Rightarrow> inner" where
  "release_expired now inn =
     inn\<lparr> in_jobs := map (\<lambda>j. if lease_expired now j then release_lease j else j) (in_jobs inn) \<rparr>"

definition over_delivered :: "mem_config \<Rightarrow> stored_job \<Rightarrow> u32 option" where
  "over_delivered cfg j =
     (case mc_max_deliveries cfg of
        Some m \<Rightarrow> if u32_saturating_add (sj_deliveries j) 1 > m then Some m else None
      | None \<Rightarrow> None)"

definition exceeded_text :: "u32 \<Rightarrow> string" where
  "exceeded_text m = ''exceeded max deliveries ('' @ show_nat (unat m) @ '')''"

definition hand_out :: "receipt \<Rightarrow> duration \<Rightarrow> stored_job \<Rightarrow> stored_job" where
  "hand_out r lease_until j =
     j\<lparr> sj_deliveries := u32_saturating_add (sj_deliveries j) 1,
        sj_leased_until := Some lease_until, sj_receipt := Some r \<rparr>"

lemma prune_dead_jobs [simp]:
  "in_jobs (prune_dead l p now inn) = in_jobs inn"
  "in_unique (prune_dead l p now inn) = in_unique inn"
  "in_schedules (prune_dead l p now inn) = in_schedules inn"
  "in_dlq_warned (prune_dead l p now inn) = in_dlq_warned inn"
  by (simp_all add: prune_dead_def Let_def split: option.split)

lemma dead_letter_at_jobs [simp]:
  "in_jobs (dead_letter_at i e now p inn) = remove_at i (in_jobs inn)"
  "in_unique (dead_letter_at i e now p inn) =
     release_key (sj_unique_key (in_jobs inn ! i)) (in_unique inn)"
  "in_schedules (dead_letter_at i e now p inn) = in_schedules inn"
  by (simp_all add: dead_letter_at_def Let_def)

function reserve_loop ::
  "mem_config \<Rightarrow> duration \<Rightarrow> duration \<Rightarrow> receipt \<Rightarrow> lane \<Rightarrow> nat \<Rightarrow> inner \<Rightarrow> reservation option \<times> inner" where
  "reserve_loop cfg now lease_until r l swept inn =
     (case pick_best (in_jobs inn) l now of
        None \<Rightarrow> (None, inn)
      | Some idx \<Rightarrow>
          (case over_delivered cfg (in_jobs inn ! idx) of
             Some m \<Rightarrow>
               (let inn' = dead_letter_at idx (exceeded_text m) now (mc_retention cfg) inn
                in if swept + 1 \<ge> MAX_DEAD_LETTER_SWEEP then (None, inn')
                   else reserve_loop cfg now lease_until r l (swept + 1) inn')
           | None \<Rightarrow>
               (Some (reservation_new (sj_envelope (in_jobs inn ! idx)) r (mc_lease cfg)),
                inn\<lparr> in_jobs := update_at idx (hand_out r lease_until) (in_jobs inn) \<rparr>)))"
  by auto

termination
  by (relation "measure (\<lambda>(cfg, now, lu, r, l, swept, inn). length (in_jobs inn))")
    (auto simp: length_remove_at dest!: pick_best_SomeD(1))

declare reserve_loop.simps [simp del]

definition mem_reserve ::
  "mem_config \<Rightarrow> duration \<Rightarrow> receipt \<Rightarrow> lane \<Rightarrow> inner \<Rightarrow> reservation option result \<times> inner" where
  "mem_reserve cfg now r l inn =
     (let lease_until = dur_saturating_add now (mc_lease cfg);
          (res, inn') = reserve_loop cfg now lease_until r l 0 (release_expired now inn)
      in (Inr res, inn'))"

text \<open>What the resolution methods share: find the job held under the receipt, or fail as stale.\<close>

definition with_receipt ::
  "receipt \<Rightarrow> duration \<Rightarrow> (nat \<Rightarrow> inner \<Rightarrow> inner) \<Rightarrow> inner \<Rightarrow> unit result \<times> inner" where
  "with_receipt r now f inn =
     (case find_current_receipt r now inn of
        (Inl e, inn') \<Rightarrow> (Inl e, inn')
      | (Inr pos, inn') \<Rightarrow> (Inr (), f pos inn'))"

definition mem_ack :: "duration \<Rightarrow> receipt \<Rightarrow> inner \<Rightarrow> unit result \<times> inner" where
  "mem_ack now r =
     with_receipt r now (\<lambda>pos inn.
       inn\<lparr> in_jobs := remove_at pos (in_jobs inn),
            in_unique := release_key (sj_unique_key (in_jobs inn ! pos)) (in_unique inn) \<rparr>)"

definition mem_retry :: "duration \<Rightarrow> receipt \<Rightarrow> duration \<Rightarrow> inner \<Rightarrow> unit result \<times> inner" where
  "mem_retry now r delay =
     with_receipt r now (\<lambda>pos inn.
       inn\<lparr> in_jobs := update_at pos (\<lambda>j.
              j\<lparr> sj_envelope := (sj_envelope j)
                   \<lparr> env_attempts := u32_saturating_add (env_attempts (sj_envelope j)) 1 \<rparr>,
                 sj_available_at := dur_saturating_add now delay,
                 sj_leased_until := None, sj_receipt := None \<rparr>) (in_jobs inn) \<rparr>)"

definition mem_defer :: "duration \<Rightarrow> receipt \<Rightarrow> duration \<Rightarrow> inner \<Rightarrow> unit result \<times> inner" where
  "mem_defer now r delay =
     with_receipt r now (\<lambda>pos inn.
       inn\<lparr> in_jobs := update_at pos (\<lambda>j.
              j\<lparr> sj_available_at := dur_saturating_add now delay,
                 sj_leased_until := None, sj_receipt := None \<rparr>) (in_jobs inn) \<rparr>)"

definition mem_fail ::
  "mem_config \<Rightarrow> duration \<Rightarrow> receipt \<Rightarrow> string \<Rightarrow> inner \<Rightarrow> unit result \<times> inner" where
  "mem_fail cfg now r err =
     with_receipt r now (\<lambda>pos inn.
       dead_letter_at pos err now (mc_retention cfg)
         (inn\<lparr> in_dlq_warned := snd (warn_once (mc_retention cfg) (in_dlq_warned inn)) \<rparr>))"

definition mem_extend :: "mem_config \<Rightarrow> duration \<Rightarrow> receipt \<Rightarrow> inner \<Rightarrow> unit result \<times> inner" where
  "mem_extend cfg now r =
     with_receipt r now (\<lambda>pos inn.
       inn\<lparr> in_jobs := update_at pos
              (\<lambda>j. j\<lparr> sj_leased_until := Some (dur_saturating_add now (mc_lease cfg)) \<rparr>) (in_jobs inn) \<rparr>)"

definition mem_classify :: "job_id \<Rightarrow> inner \<Rightarrow> job_state result" where
  "mem_classify i inn =
     (if list_ex (\<lambda>j. sj_id j = i) (in_jobs inn) then Inr Live
      else if list_ex (\<lambda>d. de_id d = i) (in_dead inn) then Inr DeadLettered
      else Inr CompletedOrUnknown)"

definition mem_read_dead_letters :: "lane \<Rightarrow> nat \<Rightarrow> inner \<Rightarrow> dead_letter list result" where
  "mem_read_dead_letters l limit inn =
     Inr (map de_letter (take limit (filter (\<lambda>d. de_lane d = l) (in_dead inn))))"

definition mem_count_dead_letters :: "lane \<Rightarrow> inner \<Rightarrow> nat result" where
  "mem_count_dead_letters l inn = Inr (length (filter (\<lambda>d. de_lane d = l) (in_dead inn)))"

definition mem_requeue :: "duration \<Rightarrow> job_id \<Rightarrow> inner \<Rightarrow> unit result \<times> inner" where
  "mem_requeue now i inn =
     (case position (\<lambda>d. de_id d = i) (in_dead inn) of
        None \<Rightarrow> (Inl (Broker (Lit ''no dead-letter record for job '' # job_id_msg i)), inn)
      | Some pos \<Rightarrow>
          (let entry = in_dead inn ! pos in
           if list_ex (\<lambda>j. sj_id j = i) (in_jobs inn)
           then (Inl (LiveJobIdConflict ([Lit ''cannot requeue job ''] @ job_id_msg i @
                   [Lit '': a live job with the same id already exists''])), inn)
           else case Option.bind (de_unique_key entry) (\<lambda>uk. if in_unique inn uk \<noteq> None then Some uk else None) of
             Some uk \<Rightarrow> (Inl (UniqueKeyHeld ([Lit ''cannot requeue job ''] @ job_id_msg i @
                   [Lit '': unique key '', FDebugStr uk, Lit '' is held by another live job''])), inn)
           | None \<Rightarrow>
               (Inr (),
                inn\<lparr> in_dead := remove_at pos (in_dead inn),
                     in_unique := (case de_unique_key entry of
                                     Some key \<Rightarrow> (in_unique inn)(key \<mapsto> i) | None \<Rightarrow> in_unique inn),
                     in_jobs := in_jobs inn @
                       [\<lparr> sj_envelope = dl_envelope (de_letter entry), sj_available_at = now,
                          sj_leased_until = None, sj_receipt = None,
                          sj_unique_key = de_unique_key entry, sj_deliveries = 0 \<rparr>] \<rparr>)))"

definition mem_purge_dead_letters :: "lane \<Rightarrow> inner \<Rightarrow> nat result \<times> inner" where
  "mem_purge_dead_letters l inn =
     (let kept = filter (\<lambda>d. de_lane d \<noteq> l) (in_dead inn)
      in (Inr (length (in_dead inn) - length kept), inn\<lparr> in_dead := kept \<rparr>))"

definition mem_pending_count :: "lane \<Rightarrow> inner \<Rightarrow> nat result" where
  "mem_pending_count l inn = Inr (length (filter (\<lambda>j. sj_lane j = l) (in_jobs inn)))"

definition mem_enqueue_scheduled ::
  "duration \<Rightarrow> string \<Rightarrow> int \<Rightarrow> new_job \<Rightarrow> inner \<Rightarrow> bool result \<times> inner" where
  "mem_enqueue_scheduled now schedule_id occurrence job inn =
     (let win = (case in_schedules inn schedule_id of
                   None \<Rightarrow> True | Some prev \<Rightarrow> occurrence > prev)
      in if win
         then (Inr True,
               snd (insert_one job now
                 (inn\<lparr> in_schedules := (in_schedules inn)(schedule_id \<mapsto> occurrence) \<rparr>)))
         else (Inr False, inn))"

definition mem_remove_schedule :: "string \<Rightarrow> inner \<Rightarrow> unit result \<times> inner" where
  "mem_remove_schedule schedule_id inn =
     (Inr (), inn\<lparr> in_schedules := (in_schedules inn)(schedule_id := None) \<rparr>)"

definition mem_dead_letters :: "inner \<Rightarrow> dead_letter list" where
  "mem_dead_letters inn = map de_letter (in_dead inn)"

definition mem_len :: "inner \<Rightarrow> nat" where
  "mem_len inn = length (in_jobs inn)"

definition mem_is_empty :: "inner \<Rightarrow> bool" where
  "mem_is_empty inn \<longleftrightarrow> mem_len inn = 0"

end
