(* ===== verification/Broker_Contract.thy ===== *)
theory Broker_Contract
  imports Spi
begin

text \<open>
  The broker interface, \<^verbatim>\<open>worklane-core/src/broker.rs\<close>.  A \<^verbatim>\<open>dyn Broker\<close> is the record of its
  methods; a method takes the reading of the broker's clock (and the receipt it may mint) and
  returns its result with the new state.  The locale \<open>broker_contract\<close> states what the trait
  promises, over a view of the stored jobs at a time: the view shows a lease only while it has
  not expired.  A broker may refuse any call with an error, and then nothing has changed; what it
  promises to carry out, it promises in the states \<open>healthy\<close> singles out.  What clients rely on is
  proved here once: exclusive delivery under a lease, no loss of a job but by its holder.  A broker
  all of whose states are healthy (\<open>broker_total\<close>) carries out every call on a current receipt.
\<close>

record 's broker =
  bk_enqueue :: "duration \<Rightarrow> new_job \<Rightarrow> 's \<Rightarrow> job_id result \<times> 's"
  bk_reserve :: "duration \<Rightarrow> receipt \<Rightarrow> lane \<Rightarrow> 's \<Rightarrow> reservation option result \<times> 's"
  bk_ack :: "duration \<Rightarrow> receipt \<Rightarrow> 's \<Rightarrow> unit result \<times> 's"
  bk_retry :: "duration \<Rightarrow> receipt \<Rightarrow> duration \<Rightarrow> 's \<Rightarrow> unit result \<times> 's"
  bk_defer :: "duration \<Rightarrow> receipt \<Rightarrow> duration \<Rightarrow> 's \<Rightarrow> unit result \<times> 's"
  bk_extend :: "duration \<Rightarrow> receipt \<Rightarrow> 's \<Rightarrow> unit result \<times> 's"
  bk_fail :: "duration \<Rightarrow> receipt \<Rightarrow> string \<Rightarrow> 's \<Rightarrow> unit result \<times> 's"
  bk_classify :: "job_id \<Rightarrow> 's \<Rightarrow> job_state result"

text \<open>A job as the contract sees it at a time: whether it has become available, and the receipt
  of the lease it is under.\<close>

record jview =
  jv_envelope :: job_envelope
  jv_key :: "string option"
  jv_ready :: bool
  jv_held :: "receipt option"

type_synonym jobs_view = "job_id \<rightharpoonup> jview"

text \<open>The receipt \<open>r\<close> is current for job \<open>i\<close>.\<close>

definition holds :: "jobs_view \<Rightarrow> job_id \<Rightarrow> receipt \<Rightarrow> bool" where
  "holds V i r \<longleftrightarrow> (\<exists>v. V i = Some v \<and> jv_held v = Some r)"

definition bump_attempts :: "job_envelope \<Rightarrow> job_envelope" where
  "bump_attempts e = e\<lparr> env_attempts := u32_saturating_add (env_attempts e) 1 \<rparr>"

lemma bump_attempts_simps [simp]:
  "env_id (bump_attempts e) = env_id e"
  "env_lane (bump_attempts e) = env_lane e"
  "env_payload (bump_attempts e) = env_payload e"
  "env_priority (bump_attempts e) = env_priority e"
  by (simp_all add: bump_attempts_def)

text \<open>A call on a broker and its outcome, for sequences of calls by any number of clients.\<close>

datatype broker_call =
    CEnqueue new_job
  | CReserve receipt lane
  | CAck receipt
  | CRetry receipt duration
  | CDefer receipt duration
  | CExtend receipt
  | CFail receipt string

datatype call_outcome =
    OEnqueued "job_id result"
  | OReserved "reservation option result"
  | OResolved "unit result"

fun call_step :: "'s broker \<Rightarrow> duration \<Rightarrow> broker_call \<Rightarrow> 's \<Rightarrow> call_outcome \<times> 's" where
  "call_step B t (CEnqueue j) s = map_prod OEnqueued id (bk_enqueue B t j s)"
| "call_step B t (CReserve r l) s = map_prod OReserved id (bk_reserve B t r l s)"
| "call_step B t (CAck r) s = map_prod OResolved id (bk_ack B t r s)"
| "call_step B t (CRetry r d) s = map_prod OResolved id (bk_retry B t r d s)"
| "call_step B t (CDefer r d) s = map_prod OResolved id (bk_defer B t r d s)"
| "call_step B t (CExtend r) s = map_prod OResolved id (bk_extend B t r s)"
| "call_step B t (CFail r e) s = map_prod OResolved id (bk_fail B t r e s)"

fun calls_run :: "'s broker \<Rightarrow> (duration \<times> broker_call) list \<Rightarrow> 's \<Rightarrow> call_outcome list \<times> 's" where
  "calls_run B [] s = ([], s)"
| "calls_run B ((t, c) # cs) s =
     (let (out, s1) = call_step B t c s; (os, s2) = calls_run B cs s1 in (out # os, s2))"

text \<open>The receipt a call presents for resolution, and the one it may mint.\<close>

fun presents :: "broker_call \<Rightarrow> receipt option" where
  "presents (CAck r) = Some r"
| "presents (CRetry r d) = Some r"
| "presents (CDefer r d) = Some r"
| "presents (CFail r e) = Some r"
| "presents _ = None"

fun mints :: "broker_call \<Rightarrow> receipt option" where
  "mints (CReserve r l) = Some r"
| "mints _ = None"

text \<open>The envelope a call handed out.\<close>

fun handed_out :: "call_outcome \<Rightarrow> job_envelope option" where
  "handed_out (OReserved (Inr (Some rsv))) = Some (rsv_envelope rsv)"
| "handed_out _ = None"

text \<open>The calls a step may take: within the horizon of the clock, minting a receipt the store has
  never seen.  In a sequence of calls by any clients the times do not decrease, and the minted
  receipts are distinct.\<close>

definition admissible :: "(receipt \<Rightarrow> 's \<Rightarrow> bool) \<Rightarrow> duration \<Rightarrow> duration \<Rightarrow> broker_call \<Rightarrow> 's \<Rightarrow> bool" where
  "admissible fresh horizon t c s \<longleftrightarrow> t \<le> horizon \<and> (\<forall>r. mints c = Some r \<longrightarrow> fresh r s)"

definition fair_calls :: "(receipt \<Rightarrow> 's \<Rightarrow> bool) \<Rightarrow> duration \<Rightarrow> (duration \<times> broker_call) list \<Rightarrow> 's \<Rightarrow> bool" where
  "fair_calls fresh horizon cs s \<longleftrightarrow>
     sorted (map fst cs) \<and> (\<forall>(t, c) \<in> set cs. t \<le> horizon) \<and>
     distinct (List.map_filter (mints \<circ> snd) cs) \<and>
     (\<forall>(t, c) \<in> set cs. \<forall>r. mints c = Some r \<longrightarrow> fresh r s)"

locale broker_contract =
  fixes B :: "'s broker"
    and inv :: "'s \<Rightarrow> bool"
    and view :: "duration \<Rightarrow> 's \<Rightarrow> jobs_view"
    and fresh :: "receipt \<Rightarrow> 's \<Rightarrow> bool"
    and lease :: duration
    and horizon :: duration
    and healthy :: "'s \<Rightarrow> bool"
  assumes view_id: "inv s \<Longrightarrow> view t s i = Some v \<Longrightarrow> env_id (jv_envelope v) = i"
    and view_later: "inv s \<Longrightarrow> t \<le> t' \<Longrightarrow> t' \<le> horizon \<Longrightarrow> view t s i = Some v \<Longrightarrow>
      \<exists>v'. view t' s i = Some v' \<and> jv_envelope v' = jv_envelope v \<and> jv_key v' = jv_key v \<and>
        (jv_ready v \<longrightarrow> jv_ready v') \<and> (jv_held v' = jv_held v \<or> jv_held v' = None)"
    and view_none: "inv s \<Longrightarrow> view t s i = None \<Longrightarrow> view t' s i = None"
    and holds_inj: "inv s \<Longrightarrow> holds (view t s) i r \<Longrightarrow> holds (view t s) j r \<Longrightarrow> i = j"
    and fresh_not_held: "inv s \<Longrightarrow> fresh r s \<Longrightarrow> \<not> holds (view t s) i r"
    and enqueue_law: "inv s \<Longrightarrow> bk_enqueue B t nj s = (eres, s') \<Longrightarrow>
      inv s' \<and> (\<forall>r. fresh r s \<longrightarrow> fresh r s') \<and>
      (\<forall>i v. view t' s i = Some v \<longrightarrow> view t' s' i = Some v) \<and>
      (\<forall>i. eres = Inr i \<longrightarrow> view t' s' i \<noteq> None) \<and>
      (\<forall>i. view t' s i = None \<and> view t' s' i \<noteq> None \<longrightarrow>
         eres = Inr i \<and> i = nj_id nj \<and>
         (\<exists>v. view t' s' i = Some v \<and> jv_envelope v = into_envelope nj \<and> jv_key v = nj_unique_key nj \<and>
            jv_held v = None))"
    and reserve_law: "inv s \<Longrightarrow> fresh r s \<Longrightarrow> t \<le> horizon \<Longrightarrow> bk_reserve B t r l s = (rres, s') \<Longrightarrow>
      inv s' \<and> (\<forall>r'. fresh r' s \<and> r' \<noteq> r \<longrightarrow> fresh r' s') \<and>
      (healthy s \<longrightarrow> (\<exists>opt. rres = Inr opt)) \<and>
      ((\<exists>opt. rres = Inr opt) \<or> (\<forall>i t'. view t' s' i = view t' s i))"
    and reserve_frame: "inv s \<Longrightarrow> fresh r s \<Longrightarrow> t \<le> horizon \<Longrightarrow> bk_reserve B t r l s = (Inr opt, s') \<Longrightarrow>
      (\<forall>rsv. opt = Some rsv \<longrightarrow> env_id (rsv_envelope rsv) \<noteq> i) \<Longrightarrow> t \<le> t' \<Longrightarrow> t' \<le> horizon \<Longrightarrow>
      view t' s' i = view t' s i \<or>
      (view t' s' i = None \<and> (\<forall>v. view t s i = Some v \<longrightarrow> jv_held v = None))"
    and reserve_some: "inv s \<Longrightarrow> fresh r s \<Longrightarrow> t \<le> horizon \<Longrightarrow>
      bk_reserve B t r l s = (Inr (Some rsv), s') \<Longrightarrow>
      \<exists>v. view t s (env_id (rsv_envelope rsv)) = Some v \<and> rsv_envelope rsv = jv_envelope v \<and>
        env_lane (jv_envelope v) = l \<and> jv_ready v \<and> jv_held v = None \<and> rsv_receipt rsv = r \<and>
        (\<forall>t'. t \<le> t' \<and> t' \<le> horizon \<longrightarrow>
           (\<exists>v'. view t' s' (env_id (rsv_envelope rsv)) = Some v' \<and> jv_envelope v' = jv_envelope v \<and>
              jv_key v' = jv_key v \<and> jv_ready v' \<and>
              jv_held v' = (if t' < t + lease then Some r else None)))"
    and resolve_stale: "inv s \<Longrightarrow> t \<le> horizon \<Longrightarrow> (\<forall>i. \<not> holds (view t s) i r) \<Longrightarrow>
      op \<in> {bk_ack B t r, bk_retry B t r d, bk_defer B t r d, bk_extend B t r, bk_fail B t r e} \<Longrightarrow>
      op s = (ures, s') \<Longrightarrow>
      (\<exists>e. ures = Inl e) \<and> (healthy s \<longrightarrow> ures = Inl (stale r)) \<and> inv s' \<and>
      (\<forall>r'. fresh r' s \<longrightarrow> fresh r' s') \<and> (\<forall>i t'. t \<le> t' \<and> t' \<le> horizon \<longrightarrow> view t' s' i = view t' s i)"
    and resolve_current: "inv s \<Longrightarrow> t \<le> horizon \<Longrightarrow> holds (view t s) i r \<Longrightarrow>
      op \<in> {bk_ack B t r, bk_retry B t r d, bk_defer B t r d, bk_extend B t r, bk_fail B t r e} \<Longrightarrow>
      op s = (ures, s') \<Longrightarrow>
      (healthy s \<longrightarrow> ures = Inr ()) \<and> inv s' \<and> (\<forall>r'. fresh r' s \<longrightarrow> fresh r' s') \<and>
      (\<forall>j t'. (j \<noteq> i \<or> ures \<noteq> Inr ()) \<and> t \<le> t' \<and> t' \<le> horizon \<longrightarrow> view t' s' j = view t' s j)"
    and ack_current: "inv s \<Longrightarrow> t \<le> horizon \<Longrightarrow> holds (view t s) i r \<Longrightarrow> bk_ack B t r s = (Inr (), s') \<Longrightarrow>
      view t' s' i = None"
    and fail_current: "inv s \<Longrightarrow> t \<le> horizon \<Longrightarrow> holds (view t s) i r \<Longrightarrow> bk_fail B t r e s = (Inr (), s') \<Longrightarrow>
      view t' s' i = None"
    and retry_current: "inv s \<Longrightarrow> t \<le> horizon \<Longrightarrow> holds (view t s) i r \<Longrightarrow> view t s i = Some v \<Longrightarrow>
      bk_retry B t r d s = (Inr (), s') \<Longrightarrow> t' \<le> horizon \<Longrightarrow>
      view t' s' i = Some (v\<lparr> jv_envelope := bump_attempts (jv_envelope v),
        jv_ready := (t + d \<le> t'), jv_held := None \<rparr>)"
    and defer_current: "inv s \<Longrightarrow> t \<le> horizon \<Longrightarrow> holds (view t s) i r \<Longrightarrow> view t s i = Some v \<Longrightarrow>
      bk_defer B t r d s = (Inr (), s') \<Longrightarrow> t' \<le> horizon \<Longrightarrow>
      view t' s' i = Some (v\<lparr> jv_ready := (t + d \<le> t'), jv_held := None \<rparr>)"
    and extend_current: "inv s \<Longrightarrow> t \<le> horizon \<Longrightarrow> holds (view t s) i r \<Longrightarrow> view t s i = Some v \<Longrightarrow>
      bk_extend B t r s = (Inr (), s') \<Longrightarrow> t \<le> t' \<Longrightarrow> t' \<le> horizon \<Longrightarrow>
      \<exists>v'. view t' s' i = Some v' \<and> jv_envelope v' = jv_envelope v \<and> jv_key v' = jv_key v \<and>
        (jv_ready v \<longrightarrow> jv_ready v') \<and> jv_held v' = (if t' < t + lease then Some r else None)"
    and classify_law: "inv s \<Longrightarrow> (bk_classify B i s = Inr Live \<longrightarrow> view t s i \<noteq> None) \<and>
      (healthy s \<and> view t s i \<noteq> None \<longrightarrow> bk_classify B i s = Inr Live)"
begin

lemma call_resolve_cases:
  assumes "call_step B t c s = (out, s')"
  obtains (enqueue) nj res where "c = CEnqueue nj" "bk_enqueue B t nj s = (res, s')" "out = OEnqueued res"
  | (reserve) r l res where "c = CReserve r l" "bk_reserve B t r l s = (res, s')" "out = OReserved res"
  | (resolve) r res opn d e where "opn \<in> {bk_ack B t r, bk_retry B t r d, bk_defer B t r d, bk_extend B t r, bk_fail B t r e}"
      "opn s = (res, s')" "out = OResolved res" "presents c = Some r \<or> c = CExtend r"
      "c = CExtend r \<Longrightarrow> opn = bk_extend B t r"
      "mints c = None"
  using assms by (cases c) (auto intro: that simp: map_prod_def split: prod.splits)

lemma step_keeps:
  assumes "inv s" and "admissible fresh horizon t c s" and "call_step B t c s = (out, s')"
  shows "inv s' \<and> (\<forall>r. fresh r s \<and> mints c \<noteq> Some r \<longrightarrow> fresh r s')"
  using assms(3)
proof (cases rule: call_resolve_cases)
  case enqueue
  with enqueue_law [OF assms(1)] show ?thesis by metis
next
  case (reserve r l res)
  with assms(2) reserve_law [OF assms(1) _ _ reserve(2)] show ?thesis
    by (auto simp: admissible_def)
next
  case (resolve r res opn d e)
  from assms(2) have t: "t \<le> horizon" by (simp add: admissible_def)
  show ?thesis
  proof (cases "\<exists>i. holds (view t s) i r")
    case True
    with resolve_current [OF assms(1) t _ resolve(1,2)] show ?thesis by blast
  next
    case False
    with resolve_stale [OF assms(1) t _ resolve(1,2)] show ?thesis by blast
  qed
qed

text \<open>A lease granted until \<open>D\<close> stays with its job through any call that does not present its
  receipt, and the call does not hand the job out.\<close>

definition held_until :: "duration \<Rightarrow> duration \<Rightarrow> 's \<Rightarrow> job_id \<Rightarrow> receipt \<Rightarrow> bool" where
  "held_until D t s i r \<longleftrightarrow> (\<forall>t'. t \<le> t' \<and> t' < D \<and> t' \<le> horizon \<longrightarrow> holds (view t' s) i r)"

lemma step_keeps_lease:
  assumes inv: "inv s" and adm: "admissible fresh horizon t c s" and step: "call_step B t c s = (out, s')"
    and held: "held_until D t s i r" and t: "t < D" and D: "D \<le> t + lease"
    and pres: "presents c \<noteq> Some r"
  shows "held_until D t s' i r" and "\<forall>e. handed_out out = Some e \<longrightarrow> env_id e \<noteq> i"
proof -
  from adm have hor: "t \<le> horizon" by (simp add: admissible_def)
  from held t hor have now: "holds (view t s) i r" by (simp add: held_until_def)
  then obtain v where v: "view t s i = Some v" "jv_held v = Some r" by (auto simp: holds_def)
  have both: "held_until D t s' i r \<and> (\<forall>e. handed_out out = Some e \<longrightarrow> env_id e \<noteq> i)"
    using step
  proof (cases rule: call_resolve_cases)
    case (enqueue nj res)
    have "holds (view t' s') i r" if "holds (view t' s) i r" for t'
      using that enqueue_law [OF inv enqueue(2), of t'] by (auto simp: holds_def)
    with held enqueue(3) show ?thesis by (auto simp: held_until_def)
  next
    case (reserve r' l res)
    with adm have fr: "fresh r' s" by (simp add: admissible_def)
    show ?thesis
    proof (cases res)
      case (Inl e)
      with reserve_law [OF inv fr hor reserve(2)] have "\<forall>t'. view t' s' i = view t' s i" by auto
      with held reserve(3) Inl show ?thesis by (auto simp: held_until_def holds_def)
    next
      case opt: (Inr opt)
      have other: "env_id (rsv_envelope rsv) \<noteq> i" if "opt = Some rsv" for rsv
        using reserve_some [OF inv fr hor, of l rsv s'] reserve(2) opt that v by auto
      have "holds (view t' s') i r" if "t \<le> t'" "t' \<le> horizon" "holds (view t' s) i r" for t'
        using reserve_frame [OF inv fr hor, of l opt s' i t'] reserve(2) opt other that v
        by (auto simp: holds_def)
      with held other reserve(3) opt show ?thesis
        by (cases opt) (auto simp: held_until_def)
    qed
  next
    case (resolve r' res opn d e)
    show ?thesis
    proof (cases "c = CExtend r \<and> r' = r")
      case True
      with resolve(5) have ext: "bk_extend B t r s = (res, s')" using resolve(2) by auto
      have "holds (view t' s') i r" if "t \<le> t'" "t' < D" "t' \<le> horizon" for t'
      proof (cases res)
        case (Inl e)
        with resolve_current [OF inv hor now, of "bk_extend B t r" 0 "[]" res s'] ext that
        have "view t' s' i = view t' s i" by simp
        with held that show ?thesis by (simp add: held_until_def holds_def)
      next
        case (Inr u)
        then have "bk_extend B t r s = (Inr (), s')" using ext by simp
        from extend_current [OF inv hor now v(1) this that(1,3)] that(2) D show ?thesis
          by (auto simp: holds_def)
      qed
      with resolve(3) show ?thesis by (simp add: held_until_def)
    next
      case False
      with resolve(4) pres have ne: "r' \<noteq> r" by auto
      have "view t' s' i = view t' s i" if "t \<le> t'" "t' \<le> horizon" for t'
      proof (cases "\<exists>j. holds (view t s) j r'")
        case True
        then obtain j where j: "holds (view t s) j r'" by blast
        with now ne have "j \<noteq> i" by (auto simp: holds_def)
        with resolve_current [OF inv hor j resolve(1,2)] that show ?thesis by auto
      next
        case False
        with resolve_stale [OF inv hor _ resolve(1,2)] that show ?thesis by blast
      qed
      with held resolve(3) show ?thesis by (auto simp: held_until_def holds_def)
    qed
  qed
  from both show "held_until D t s' i r" and "\<forall>e. handed_out out = Some e \<longrightarrow> env_id e \<noteq> i" by blast+
qed

lemma fair_calls_Cons:
  assumes "fair_calls fresh horizon ((t, c) # cs) s" and "inv s" and "call_step B t c s = (out, s')"
  shows "admissible fresh horizon t c s" and "inv s'" and "fair_calls fresh horizon cs s'" and "\<forall>(t', c') \<in> set cs. t \<le> t'"
proof -
  from assms(1) show adm: "admissible fresh horizon t c s" by (auto simp: fair_calls_def admissible_def)
  from step_keeps [OF assms(2) adm assms(3)] show "inv s'" by blast
  have dist: "r \<noteq> r'" if "(t', c') \<in> set cs" "mints c' = Some r" "mints c = Some r'" for t' c' r r'
    using assms(1) that by (force simp: fair_calls_def map_filter_def)
  have "distinct (List.map_filter (mints \<circ> snd) cs)"
    using assms(1) by (cases "mints c") (auto simp: fair_calls_def map_filter_simps)
  with assms(1) dist step_keeps [OF assms(2) adm assms(3)] show "fair_calls fresh horizon cs s'"
    by (fastforce simp: fair_calls_def)
  from assms(1) show "\<forall>(t', c') \<in> set cs. t \<le> t'" by (auto simp: fair_calls_def)
qed

lemma calls_keep_lease:
  assumes "inv s" and "fair_calls fresh horizon cs s" and "calls_run B cs s = (outs, s')"
    and "held_until D t0 s i r" and "\<forall>(t, c) \<in> set cs. t0 \<le> t \<and> t < D \<and> presents c \<noteq> Some r"
    and "D \<le> t0 + lease"
  shows "inv s' \<and> (\<forall>out \<in> set outs. \<forall>e. handed_out out = Some e \<longrightarrow> env_id e \<noteq> i) \<and>
    (\<forall>t. t0 \<le> t \<and> (\<forall>(t1, c) \<in> set cs. t1 \<le> t) \<longrightarrow> held_until D t s' i r)"
  using assms
proof (induction cs arbitrary: s outs t0)
  case Nil
  then show ?case by (auto simp: held_until_def)
next
  case (Cons tc cs)
  obtain t c where tc: "tc = (t, c)" by (cases tc)
  obtain out s1 where step: "call_step B t c s = (out, s1)" by (cases "call_step B t c s")
  obtain os s2 where run: "calls_run B cs s1 = (os, s2)" by (cases "calls_run B cs s1")
  from Cons.prems(3) tc step run have out: "outs = out # os" and s2: "s2 = s'" by auto
  from Cons.prems(2) [unfolded tc] have fc: "admissible fresh horizon t c s" "inv s1" "fair_calls fresh horizon cs s1"
    "\<forall>(t', c') \<in> set cs. t \<le> t'"
    using fair_calls_Cons [OF _ Cons.prems(1) step] by blast+
  from Cons.prems(4,5) tc have held: "held_until D t s i r" by (auto simp: held_until_def)
  have t: "t < D" "D \<le> t + lease" "presents c \<noteq> Some r" using Cons.prems(5,6) tc by auto
  note keep = step_keeps_lease [OF Cons.prems(1) fc(1) step held t]
  have "\<forall>(t', c') \<in> set cs. t \<le> t' \<and> t' < D \<and> presents c' \<noteq> Some r"
    using fc(4) Cons.prems(5) by fastforce
  from Cons.IH [OF fc(2,3) run [unfolded s2] keep(1) this t(2)] keep(2) out tc show ?case by auto
qed

text \<open>A fair sequence of calls stays fair after its first part has been run.\<close>

lemma fair_calls_append:
  assumes "fair_calls fresh horizon (cs @ ds) s" and "inv s" and "calls_run B cs s = (outs, s')"
  shows "fair_calls fresh horizon cs s" and "inv s'" and "fair_calls fresh horizon ds s'"
proof -
  show "fair_calls fresh horizon cs s"
    using assms(1) by (auto simp: fair_calls_def sorted_append map_filter_def)
  have "inv s' \<and> fair_calls fresh horizon ds s'"
    using assms
  proof (induction cs arbitrary: s outs)
    case Nil
    then show ?case by simp
  next
    case (Cons tc cs)
    obtain t c where tc: "tc = (t, c)" by (cases tc)
    obtain out s1 where step: "call_step B t c s = (out, s1)" by (cases "call_step B t c s")
    obtain os s2 where run: "calls_run B cs s1 = (os, s2)" by (cases "calls_run B cs s1")
    from Cons.prems(3) tc step run have "s2 = s'" by auto
    with run have "calls_run B cs s1 = (os, s')" by simp
    with Cons.IH [of s1 os] fair_calls_Cons(2,3) [OF _ Cons.prems(2) step, of "cs @ ds"] Cons.prems(1) tc
    show ?case by simp
  qed
  then show "inv s'" "fair_calls fresh horizon ds s'" by blast+
qed

lemma exclusive_delivery:
  assumes inv: "inv s" and fr: "fresh r s" and t0: "t0 \<le> horizon"
    and rsv: "bk_reserve B t0 r l s = (Inr (Some rsv), s1)"
    and fair: "fair_calls fresh horizon cs s1" and run: "calls_run B cs s1 = (outs, s2)"
    and within: "\<forall>(t, c) \<in> set cs. t0 \<le> t \<and> t < t0 + lease \<and> presents c \<noteq> Some r"
  shows "\<forall>out \<in> set outs. \<forall>e. handed_out out = Some e \<longrightarrow> env_id e \<noteq> env_id (rsv_envelope rsv)"
proof -
  have "held_until (t0 + lease) t0 s1 (env_id (rsv_envelope rsv)) r"
    using reserve_some [OF inv fr t0 rsv] by (force simp: held_until_def holds_def)
  moreover have "inv s1" using reserve_law [OF inv fr t0 rsv] by blast
  ultimately show ?thesis using calls_keep_lease [OF _ fair run _ within] by blast
qed

text \<open>A live job disappears only through the holder of its lease, or through the delivery bound
  of a reservation while nobody holds it.\<close>

lemma no_loss:
  assumes inv: "inv s" and adm: "admissible fresh horizon t c s" and step: "call_step B t c s = (out, s')"
    and live: "view t s i = Some v" and gone: "view t s' i = None"
  shows "(\<exists>r. holds (view t s) i r \<and> out = OResolved (Inr ()) \<and> (c = CAck r \<or> (\<exists>e. c = CFail r e))) \<or>
    (jv_held v = None \<and> (\<exists>r l. c = CReserve r l))"
proof -
  from adm have hor: "t \<le> horizon" by (simp add: admissible_def)
  show ?thesis
    using step
  proof (cases rule: call_resolve_cases)
    case (enqueue nj res)
    from enqueue_law [OF inv enqueue(2), of t] live gone show ?thesis by auto
  next
    case (reserve r l res)
    with adm have fr: "fresh r s" by (simp add: admissible_def)
    from reserve_law [OF inv fr hor reserve(2)] live gone obtain opt where opt: "res = Inr opt" by auto
    have "\<forall>rsv. opt = Some rsv \<longrightarrow> env_id (rsv_envelope rsv) \<noteq> i"
      using reserve_some [OF inv fr hor, of l _ s'] reserve(2) opt gone hor by fastforce
    from reserve_frame [OF inv fr hor reserve(2) [unfolded opt] this, of t] hor live gone reserve(1)
    show ?thesis by auto
  next
    case (resolve r res opn d e)
    have cur: "holds (view t s) i r"
    proof (rule ccontr)
      assume no: "\<not> holds (view t s) i r"
      have "view t s' i = view t s i"
      proof (cases "\<exists>j. holds (view t s) j r")
        case True
        then obtain j where j: "holds (view t s) j r" by blast
        with no have "i \<noteq> j" by auto
        with resolve_current [OF inv hor j resolve(1,2)] hor show ?thesis by auto
      next
        case False
        with resolve_stale [OF inv hor _ resolve(1,2)] hor show ?thesis by blast
      qed
      with live gone show False by simp
    qed
    from resolve_current [OF inv hor cur resolve(1,2)] live gone hor have ok: "res = Inr ()"
      by (metis option.distinct(1) order_refl)
    have "c = CAck r \<or> (\<exists>e. c = CFail r e)"
    proof (rule ccontr)
      assume "\<not> ?thesis"
      then consider d where "c = CRetry r d" | d where "c = CDefer r d" | "c = CExtend r"
        using resolve(4) by (cases c) auto
      then show False
      proof cases
        case 1
        with step have "bk_retry B t r d s = (Inr (), s')" using resolve(3) ok by (cases "bk_retry B t r d s") auto
        with retry_current [OF inv hor cur live this hor] gone show False by simp
      next
        case 2
        with step have "bk_defer B t r d s = (Inr (), s')" using resolve(3) ok by (cases "bk_defer B t r d s") auto
        with defer_current [OF inv hor cur live this hor] gone show False by simp
      next
        case 3
        with resolve(2,5) have "bk_extend B t r s = (Inr (), s')" using ok by simp
        with extend_current [OF inv hor cur live this _ hor] gone show False by simp
      qed
    qed
    with cur ok resolve(3) show ?thesis by blast
  qed
qed

end

text \<open>A broker that carries out every call: none of its states is unhealthy.\<close>

locale broker_total = broker_contract +
  assumes total: "inv s \<Longrightarrow> healthy s"
begin

lemma reserve_answers:
  assumes "inv s" and "fresh r s" and "t \<le> horizon" and "bk_reserve B t r l s = (rres, s')"
  shows "\<exists>opt. rres = Inr opt"
  using reserve_law [OF assms] total [OF assms(1)] by blast

lemma stale_refused:
  assumes "inv s" and "t \<le> horizon" and "\<forall>i. \<not> holds (view t s) i r"
    and "opn \<in> {bk_ack B t r, bk_retry B t r d, bk_defer B t r d, bk_extend B t r, bk_fail B t r e}"
    and "opn s = (ures, s')"
  shows "ures = Inl (stale r)"
  using resolve_stale [OF assms] total [OF assms(1)] by blast

lemma current_accepted:
  assumes "inv s" and "t \<le> horizon" and "holds (view t s) i r"
    and "opn \<in> {bk_ack B t r, bk_retry B t r d, bk_defer B t r d, bk_extend B t r, bk_fail B t r e}"
    and "opn s = (ures, s')"
  shows "ures = Inr ()"
  using resolve_current [OF assms] total [OF assms(1)] by blast

end

end
