(* ===== verification/Memory_Laws.thy ===== *)
theory Memory_Laws
  imports Memory_Broker Broker_Contract
begin

text \<open>
  The in-memory broker keeps its invariant and implements the broker contract.  The stored jobs
  are read as a map by job id; every method updates that map at one id, which the lemmas of the
  first two sections establish once for the vector operations of the code.
\<close>

section \<open>The invariant\<close>

abbreviation jobs_by_id :: "stored_job list \<Rightarrow> (job_id \<rightharpoonup> stored_job)" where
  "jobs_by_id \<equiv> lookup_by (\<lambda>j. sj_id j)"

text \<open>What holds of the map of jobs and the uniqueness index: a job is leased exactly when it has
  a receipt, no two jobs share a receipt, and the index holds exactly the keys of live jobs.\<close>

definition jobs_ok :: "(job_id \<rightharpoonup> stored_job) \<Rightarrow> (string \<rightharpoonup> job_id) \<Rightarrow> bool" where
  "jobs_ok L u \<longleftrightarrow>
     (\<forall>i a. L i = Some a \<longrightarrow> sj_id a = i \<and> (sj_leased_until a = None \<longleftrightarrow> sj_receipt a = None)) \<and>
     (\<forall>i j a b. L i = Some a \<and> L j = Some b \<and> sj_receipt a \<noteq> None \<and> sj_receipt a = sj_receipt b \<longrightarrow> i = j) \<and>
     (\<forall>k i. u k = Some i \<longleftrightarrow> (\<exists>a. L i = Some a \<and> sj_unique_key a = Some k))"

definition mem_inv :: "inner \<Rightarrow> bool" where
  "mem_inv inn \<longleftrightarrow>
     distinct (map (\<lambda>j. sj_id j) (in_jobs inn)) \<and> jobs_ok (jobs_by_id (in_jobs inn)) (in_unique inn)"

definition mem_fresh :: "receipt \<Rightarrow> inner \<Rightarrow> bool" where
  "mem_fresh r inn \<longleftrightarrow> (\<forall>j \<in> set (in_jobs inn). sj_receipt j \<noteq> Some r)"

lemma jobs_okD:
  assumes "jobs_ok L u" and "L i = Some a"
  shows "sj_id a = i" and "sj_leased_until a = None \<longleftrightarrow> sj_receipt a = None"
  using assms by (auto simp: jobs_ok_def)

lemma jobs_ok_receipt:
  assumes "jobs_ok L u" and "L i = Some a" and "L j = Some b" and "sj_receipt a = Some r" and "sj_receipt b = Some r"
  shows "i = j"
  using assms unfolding jobs_ok_def by (metis option.discI)

lemma jobs_ok_key: "jobs_ok L u \<Longrightarrow> u k = Some i \<longleftrightarrow> (\<exists>a. L i = Some a \<and> sj_unique_key a = Some k)"
  by (auto simp: jobs_ok_def)

lemma jobs_okI:
  assumes "\<And>i a. L i = Some a \<Longrightarrow> sj_id a = i" and "\<And>i a. L i = Some a \<Longrightarrow> sj_leased_until a = None \<longleftrightarrow> sj_receipt a = None"
    and "\<And>i j a b r. L i = Some a \<Longrightarrow> L j = Some b \<Longrightarrow> sj_receipt a = Some r \<Longrightarrow> sj_receipt b = Some r \<Longrightarrow> i = j"
    and "\<And>k i. u k = Some i \<longleftrightarrow> (\<exists>a. L i = Some a \<and> sj_unique_key a = Some k)"
  shows "jobs_ok L u"
proof -
  have "i = j" if "L i = Some a" "L j = Some b" "sj_receipt a \<noteq> None" "sj_receipt a = sj_receipt b" for i j a b
    using assms(3) [OF that(1,2)] that(3,4) by (cases "sj_receipt a") auto
  with assms(1,2,4) show ?thesis unfolding jobs_ok_def by blast
qed

lemma jobs_ok_empty: "jobs_ok Map.empty Map.empty"
  by (simp add: jobs_ok_def)

lemma jobs_ok_remove:
  assumes ok: "jobs_ok L u" and i: "L i = Some a"
  shows "jobs_ok (L(i := None)) (release_key (sj_unique_key a) u)"
proof -
  have "release_key (sj_unique_key a) u k = Some j \<longleftrightarrow> (\<exists>b. (L(i := None)) j = Some b \<and> sj_unique_key b = Some k)"
    for k j
  proof (cases "sj_unique_key a = Some k")
    case True
    with jobs_ok_key [OF ok, of k i] i have "u k = Some i" by auto
    with True jobs_ok_key [OF ok, of k j] show ?thesis by (auto simp: release_key_def)
  next
    case False
    with jobs_ok_key [OF ok, of k j] i show ?thesis by (auto simp: release_key_def split: option.split)
  qed
  then show ?thesis
    using jobs_okD [OF ok] jobs_ok_receipt [OF ok] by (intro jobs_okI) (auto split: if_splits)
qed

lemma jobs_ok_update:
  assumes ok: "jobs_ok L u" and i: "L i = Some a"
    and b: "sj_id b = sj_id a" "sj_unique_key b = sj_unique_key a"
      "sj_leased_until b = None \<longleftrightarrow> sj_receipt b = None"
    and r: "\<And>r. sj_receipt b = Some r \<Longrightarrow> sj_receipt a = Some r \<or> (\<forall>j c. L j = Some c \<longrightarrow> sj_receipt c \<noteq> Some r)"
  shows "jobs_ok (L(i \<mapsto> b)) u"
proof (rule jobs_okI)
  fix j c
  assume c: "(L(i \<mapsto> b)) j = Some c"
  show "sj_id c = j"
  proof (cases "j = i")
    case True
    with c b(1) jobs_okD(1) [OF ok i] show ?thesis by simp
  next
    case False
    with c jobs_okD(1) [OF ok, of j c] show ?thesis by simp
  qed
  show "sj_leased_until c = None \<longleftrightarrow> sj_receipt c = None"
  proof (cases "j = i")
    case True
    with c b(3) show ?thesis by simp
  next
    case False
    with c jobs_okD(2) [OF ok, of j c] show ?thesis by simp
  qed
next
  fix k j x y q
  assume x: "(L(i \<mapsto> b)) k = Some x" and y: "(L(i \<mapsto> b)) j = Some y"
    and q: "sj_receipt x = Some q" "sj_receipt y = Some q"
  have new: False if "L j' = Some z" "j' \<noteq> i" "sj_receipt z = Some q" "sj_receipt b = Some q" for j' z
    using r [OF that(4)] that(1,2,3) jobs_ok_receipt [OF ok i that(1) _ that(3)] by blast
  show "k = j"
  proof (cases "k = i"; cases "j = i")
    assume "k = i" "j \<noteq> i"
    with x y q new [of j y] show ?thesis by simp
  next
    assume "k \<noteq> i" "j = i"
    with x y q new [of k x] show ?thesis by simp
  next
    assume "k \<noteq> i" "j \<noteq> i"
    with x y have "L k = Some x" "L j = Some y" by simp_all
    then show ?thesis using jobs_ok_receipt [OF ok] q by blast
  qed simp
next
  fix k j
  show "u k = Some j \<longleftrightarrow> (\<exists>c. (L(i \<mapsto> b)) j = Some c \<and> sj_unique_key c = Some k)"
    unfolding jobs_ok_key [OF ok] using i b(2) by simp
qed

lemma jobs_ok_insert:
  assumes ok: "jobs_ok L u" and i: "L i = None" and b: "sj_id b = i" "sj_leased_until b = None" "sj_receipt b = None"
    and key: "\<And>k. sj_unique_key b = Some k \<Longrightarrow> u k = None"
  shows "jobs_ok (L(i \<mapsto> b)) (case sj_unique_key b of Some k \<Rightarrow> u(k \<mapsto> i) | None \<Rightarrow> u)"
proof -
  have "(case sj_unique_key b of Some k \<Rightarrow> u(k \<mapsto> i) | None \<Rightarrow> u) k = Some j \<longleftrightarrow>
      (\<exists>c. (L(i \<mapsto> b)) j = Some c \<and> sj_unique_key c = Some k)" for k j
    using jobs_ok_key [OF ok, of k j] i key [of k] by (auto split: option.splits)
  then show ?thesis
    using jobs_okD [OF ok] jobs_ok_receipt [OF ok] b by (intro jobs_okI) (auto split: if_splits)
qed

section \<open>The methods on the map of jobs\<close>

lemma mem_inv_distinct: "mem_inv inn \<Longrightarrow> distinct (map (\<lambda>j. sj_id j) (in_jobs inn))"
  by (simp add: mem_inv_def)

lemma mem_inv_ok: "mem_inv inn \<Longrightarrow> jobs_ok (jobs_by_id (in_jobs inn)) (in_unique inn)"
  by (simp add: mem_inv_def)

lemma mem_inv_nth:
  "mem_inv inn \<Longrightarrow> i < length (in_jobs inn) \<Longrightarrow> jobs_by_id (in_jobs inn) (sj_id (in_jobs inn ! i)) = Some (in_jobs inn ! i)"
  using lookup_by_nth [OF mem_inv_distinct, of inn i] by simp

lemma mem_fresh_iff:
  "mem_inv inn \<Longrightarrow> mem_fresh r inn \<longleftrightarrow> (\<forall>i a. jobs_by_id (in_jobs inn) i = Some a \<longrightarrow> sj_receipt a \<noteq> Some r)"
  by (auto simp: mem_fresh_def lookup_by_Some_iff mem_inv_distinct)

lemma mem_inv_init: "mem_inv mem_with_clock"
  by (simp add: mem_inv_def mem_with_clock_def jobs_ok_empty)

lemma mem_inv_remove_at:
  assumes "mem_inv inn" and "i < length (in_jobs inn)"
    and "in_jobs inn' = remove_at i (in_jobs inn)"
    and "in_unique inn' = release_key (sj_unique_key (in_jobs inn ! i)) (in_unique inn)"
  shows "mem_inv inn'"
    and "jobs_by_id (in_jobs inn') = (jobs_by_id (in_jobs inn))(sj_id (in_jobs inn ! i) := None)"
proof -
  show eq: "jobs_by_id (in_jobs inn') = (jobs_by_id (in_jobs inn))(sj_id (in_jobs inn ! i) := None)"
    using lookup_by_remove_at [OF mem_inv_distinct [OF assms(1)] assms(2)] assms(3) by simp
  have "distinct (map (\<lambda>j. sj_id j) (in_jobs inn'))"
    using assms(1,3) by (simp add: map_remove_at distinct_remove_at mem_inv_distinct)
  then show "mem_inv inn'"
    using jobs_ok_remove [OF mem_inv_ok [OF assms(1)] mem_inv_nth [OF assms(1,2)]] assms(4)
    by (simp add: mem_inv_def eq)
qed

lemma mem_inv_update_at:
  assumes "mem_inv inn" and "i < length (in_jobs inn)"
    and "in_jobs inn' = update_at i f (in_jobs inn)" and "in_unique inn' = in_unique inn"
    and "\<And>j. sj_id (f j) = sj_id j" "\<And>j. sj_unique_key (f j) = sj_unique_key j"
    and "sj_leased_until (f (in_jobs inn ! i)) = None \<longleftrightarrow> sj_receipt (f (in_jobs inn ! i)) = None"
    and "\<And>r. sj_receipt (f (in_jobs inn ! i)) = Some r \<Longrightarrow> sj_receipt (in_jobs inn ! i) = Some r \<or> mem_fresh r inn"
  shows "mem_inv inn'"
    and "jobs_by_id (in_jobs inn') = (jobs_by_id (in_jobs inn))(sj_id (in_jobs inn ! i) \<mapsto> f (in_jobs inn ! i))"
proof -
  show eq: "jobs_by_id (in_jobs inn') = (jobs_by_id (in_jobs inn))(sj_id (in_jobs inn ! i) \<mapsto> f (in_jobs inn ! i))"
    using lookup_by_update_at [OF mem_inv_distinct [OF assms(1)] assms(2), of f] assms(3,5) by simp
  have "distinct (map (\<lambda>j. sj_id j) (in_jobs inn'))"
    using assms(1,3,5) by (simp add: map_update_at_same mem_inv_distinct)
  moreover have "jobs_ok (jobs_by_id (in_jobs inn')) (in_unique inn')"
    unfolding eq assms(4)
    using assms(8) by (intro jobs_ok_update [OF mem_inv_ok [OF assms(1)] mem_inv_nth [OF assms(1,2)]])
      (auto simp: assms mem_fresh_iff [OF assms(1)])
  ultimately show "mem_inv inn'" by (simp add: mem_inv_def)
qed

lemma mem_inv_append:
  assumes "mem_inv inn" and "sj_id b \<notin> (\<lambda>j. sj_id j) ` set (in_jobs inn)"
    and "in_jobs inn' = in_jobs inn @ [b]"
    and "in_unique inn' = (case sj_unique_key b of Some k \<Rightarrow> (in_unique inn)(k \<mapsto> sj_id b) | None \<Rightarrow> in_unique inn)"
    and "sj_leased_until b = None" "sj_receipt b = None"
    and "\<And>k. sj_unique_key b = Some k \<Longrightarrow> in_unique inn k = None"
  shows "mem_inv inn'"
    and "jobs_by_id (in_jobs inn') = (jobs_by_id (in_jobs inn))(sj_id b \<mapsto> b)"
proof -
  show eq: "jobs_by_id (in_jobs inn') = (jobs_by_id (in_jobs inn))(sj_id b \<mapsto> b)"
    using assms(2,3) lookup_by_append1 [of "\<lambda>j. sj_id j" b "in_jobs inn"] by simp
  have "jobs_by_id (in_jobs inn) (sj_id b) = None" using assms(2) by (simp add: lookup_by_None_iff)
  from jobs_ok_insert [OF mem_inv_ok [OF assms(1)] this refl assms(5,6,7)] assms(1,2,3,4) eq
  show "mem_inv inn'" by (auto simp: mem_inv_def)
qed

lemma find_current_receipt_cases:
  assumes inv: "mem_inv inn"
  obtains (stale) inn' where "find_current_receipt r now inn = (Inl (stale r), inn')" "mem_inv inn'"
      "\<And>i a. jobs_by_id (in_jobs inn) i = Some a \<Longrightarrow> sj_receipt a = Some r \<Longrightarrow> lease_expired now a"
      "\<And>i. jobs_by_id (in_jobs inn') i = jobs_by_id (in_jobs inn) i \<or>
         (\<exists>a. jobs_by_id (in_jobs inn) i = Some a \<and> lease_expired now a \<and>
              jobs_by_id (in_jobs inn') i = Some (release_lease a))"
      "in_dead inn' = in_dead inn" "in_schedules inn' = in_schedules inn" "in_unique inn' = in_unique inn"
  | (current) pos where "find_current_receipt r now inn = (Inr pos, inn)" "pos < length (in_jobs inn)"
      "sj_receipt (in_jobs inn ! pos) = Some r" "\<not> lease_expired now (in_jobs inn ! pos)"
proof (cases "position (\<lambda>j. sj_receipt j = Some r) (in_jobs inn)")
  case None
  then have "\<forall>j \<in> set (in_jobs inn). sj_receipt j \<noteq> Some r" by (simp add: position_None_iff)
  then have "\<And>i a. jobs_by_id (in_jobs inn) i = Some a \<Longrightarrow> sj_receipt a \<noteq> Some r"
    by (auto dest: lookup_by_SomeD)
  with None inv show ?thesis by (intro stale [of inn]) (auto simp: find_current_receipt_def)
next
  case (Some pos)
  note pos = position_SomeD [OF Some]
  let ?j = "in_jobs inn ! pos"
  show ?thesis
  proof (cases "lease_expired now ?j")
    case True
    let ?inn = "inn\<lparr> in_jobs := update_at pos release_lease (in_jobs inn) \<rparr>"
    have up: "mem_inv ?inn" "jobs_by_id (in_jobs ?inn) = (jobs_by_id (in_jobs inn))(sj_id ?j \<mapsto> release_lease ?j)"
      using mem_inv_update_at [OF inv pos(1), of ?inn release_lease] by (simp_all add: release_lease_def)
    have only: "lease_expired now a" if "jobs_by_id (in_jobs inn) i = Some a" "sj_receipt a = Some r" for i a
      using jobs_ok_receipt [OF mem_inv_ok [OF inv] that(1) mem_inv_nth [OF inv pos(1)] that(2) pos(2)]
        that mem_inv_nth [OF inv pos(1)] True by simp
    show ?thesis
    proof (rule stale [of ?inn])
      show "find_current_receipt r now inn = (Inl (Spi.stale r), ?inn)"
        using Some True by (simp add: find_current_receipt_def)
      show "jobs_by_id (in_jobs ?inn) i = jobs_by_id (in_jobs inn) i \<or>
         (\<exists>a. jobs_by_id (in_jobs inn) i = Some a \<and> lease_expired now a \<and>
              jobs_by_id (in_jobs ?inn) i = Some (release_lease a))" for i
        unfolding up(2) using True mem_inv_nth [OF inv pos(1)] by simp
    qed (use up(1) only in simp_all)
  next
    case False
    with Some pos show ?thesis by (intro current [of pos]) (auto simp: find_current_receipt_def)
  qed
qed

section \<open>The view of the contract\<close>

definition jview_of :: "duration \<Rightarrow> stored_job \<Rightarrow> jview" where
  "jview_of t j =
     \<lparr> jv_envelope = sj_envelope j, jv_key = sj_unique_key j, jv_ready = (sj_available_at j \<le> t),
       jv_held = (if lease_expired t j then None else sj_receipt j) \<rparr>"

definition mem_view :: "duration \<Rightarrow> inner \<Rightarrow> jobs_view" where
  "mem_view t inn i = map_option (jview_of t) (jobs_by_id (in_jobs inn) i)"

lemma jview_of_simps [simp]:
  "jv_envelope (jview_of t j) = sj_envelope j" "jv_key (jview_of t j) = sj_unique_key j"
  "jv_ready (jview_of t j) \<longleftrightarrow> sj_available_at j \<le> t"
  "jv_held (jview_of t j) = (if lease_expired t j then None else sj_receipt j)"
  by (simp_all add: jview_of_def)

lemma lease_expired_mono: "lease_expired t j \<Longrightarrow> t \<le> t' \<Longrightarrow> lease_expired t' j"
  by (auto simp: lease_expired_def split: option.splits)

lemma jview_release_lease:
  "lease_expired now j \<Longrightarrow> now \<le> t \<Longrightarrow> jview_of t (release_lease j) = jview_of t j"
  using lease_expired_mono [of now j t] by (simp add: jview_of_def release_lease_def lease_expired_def)

lemma holds_mem_view:
  "holds (mem_view t inn) i r \<longleftrightarrow>
     (\<exists>a. jobs_by_id (in_jobs inn) i = Some a \<and> sj_receipt a = Some r \<and> \<not> lease_expired t a)"
  by (auto simp: holds_def mem_view_def split: if_splits)

lemma release_expired_map:
  assumes inv: "mem_inv inn"
  shows "mem_inv (release_expired now inn)"
    and "jobs_by_id (in_jobs (release_expired now inn)) i =
      map_option (\<lambda>j. if lease_expired now j then release_lease j else j) (jobs_by_id (in_jobs inn) i)"
proof -
  let ?f = "\<lambda>j. if lease_expired now j then release_lease j else j"
  have L: "jobs_by_id (in_jobs (release_expired now inn)) = (\<lambda>i. map_option ?f (jobs_by_id (in_jobs inn) i))"
    by (simp add: release_expired_def, rule lookup_by_map) (simp add: release_lease_def)
  then show "jobs_by_id (in_jobs (release_expired now inn)) i = map_option ?f (jobs_by_id (in_jobs inn) i)"
    by simp
  note ok = mem_inv_ok [OF inv]
  have "jobs_ok (\<lambda>i. map_option ?f (jobs_by_id (in_jobs inn) i)) (in_unique inn)"
  proof (rule jobs_okI)
    fix k i
    show "in_unique inn k = Some i \<longleftrightarrow> (\<exists>a. map_option ?f (jobs_by_id (in_jobs inn) i) = Some a \<and> sj_unique_key a = Some k)"
      unfolding jobs_ok_key [OF ok] by (cases "jobs_by_id (in_jobs inn) i") (auto simp: release_lease_def)
  qed (auto simp: release_lease_def jobs_okD [OF ok] dest: jobs_ok_receipt [OF ok] split: if_splits)
  moreover have "map (\<lambda>j. sj_id j) (in_jobs (release_expired now inn)) = map (\<lambda>j. sj_id j) (in_jobs inn)"
    by (simp add: release_expired_def release_lease_def)
  ultimately show "mem_inv (release_expired now inn)"
    using inv L by (simp add: mem_inv_def) (simp add: release_expired_def)
qed

lemma mem_view_release_expired:
  assumes "mem_inv inn" and "now \<le> t"
  shows "mem_view t (release_expired now inn) = mem_view t inn"
  using release_expired_map(2) [OF assms(1)] assms(2)
  by (auto simp: mem_view_def fun_eq_iff option.map_comp comp_def jview_release_lease intro!: option.map_cong)

lemma mem_fresh_release_expired:
  "mem_inv inn \<Longrightarrow> mem_fresh r inn \<Longrightarrow> mem_fresh r (release_expired now inn)"
  by (auto simp: mem_fresh_def release_expired_def release_lease_def)

section \<open>The loop of reserve\<close>

lemma reserve_loop_spec:
  assumes "mem_inv inn" and "mem_fresh r inn"
    and "reserve_loop cfg now lu r l swept inn = (opt, inn')"
  shows "mem_inv inn' \<and> (\<forall>r'. mem_fresh r' inn \<and> r' \<noteq> r \<longrightarrow> mem_fresh r' inn') \<and>
    (\<forall>i. (\<forall>rsv. opt = Some rsv \<longrightarrow> env_id (rsv_envelope rsv) \<noteq> i) \<longrightarrow>
       jobs_by_id (in_jobs inn') i = jobs_by_id (in_jobs inn) i \<or>
       (jobs_by_id (in_jobs inn') i = None \<and>
        (\<exists>a. jobs_by_id (in_jobs inn) i = Some a \<and> mem_visible l now a \<and> over_delivered cfg a \<noteq> None))) \<and>
    (\<forall>rsv. opt = Some rsv \<longrightarrow>
       (\<exists>a. jobs_by_id (in_jobs inn) (sj_id a) = Some a \<and> rsv = reservation_new (sj_envelope a) r (mc_lease cfg) \<and>
          mem_visible l now a \<and> over_delivered cfg a = None \<and>
          jobs_by_id (in_jobs inn') (sj_id a) = Some (hand_out r lu a)))"
  using assms
proof (induction cfg now lu r l swept inn rule: reserve_loop.induct)
  case (1 cfg now lu r l swept inn)
  note inv = "1.prems"(1) and fr = "1.prems"(2)
  show ?case
  proof (cases "pick_best (in_jobs inn) l now")
    case None
    with "1.prems" show ?thesis by (simp add: reserve_loop.simps [of cfg now lu r l swept inn])
  next
    case (Some idx)
    note idx = pick_best_SomeD [OF Some]
    let ?j = "in_jobs inn ! idx"
    have at: "jobs_by_id (in_jobs inn) (sj_id ?j) = Some ?j" by (rule mem_inv_nth [OF inv idx(1)])
    show ?thesis
    proof (cases "over_delivered cfg ?j")
      case None
      let ?inn = "inn\<lparr> in_jobs := update_at idx (hand_out r lu) (in_jobs inn) \<rparr>"
      from Some None "1.prems"(3) have out: "opt = Some (reservation_new (sj_envelope ?j) r (mc_lease cfg))" "inn' = ?inn"
        by (auto simp: reserve_loop.simps [of cfg now lu r l swept inn])
      have up: "mem_inv ?inn" "jobs_by_id (in_jobs ?inn) = (jobs_by_id (in_jobs inn))(sj_id ?j \<mapsto> hand_out r lu ?j)"
        using mem_inv_update_at [OF inv idx(1), of ?inn "hand_out r lu"] fr by (simp_all add: hand_out_def)
      have "mem_fresh r' ?inn" if "mem_fresh r' inn" "r' \<noteq> r" for r'
        using that set_update_at [OF idx(1), of "hand_out r lu"] set_remove_at_subset [of idx "in_jobs inn"]
        by (auto simp: mem_fresh_def hand_out_def)
      with up at idx(2) None show ?thesis unfolding out by auto
    next
      case over: (Some m)
      let ?inn = "dead_letter_at idx (exceeded_text m) now (mc_retention cfg) inn"
      have rm: "mem_inv ?inn" "jobs_by_id (in_jobs ?inn) = (jobs_by_id (in_jobs inn))(sj_id ?j := None)"
        using mem_inv_remove_at [OF inv idx(1), of ?inn] by simp_all
      have fr': "mem_fresh r' ?inn" if "mem_fresh r' inn" for r'
        using that set_remove_at_subset [of idx "in_jobs inn"] by (auto simp: mem_fresh_def)
      show ?thesis
      proof (cases "swept + 1 \<ge> MAX_DEAD_LETTER_SWEEP")
        case True
        with Some over "1.prems"(3) have "opt = None" "inn' = ?inn"
          by (auto simp: reserve_loop.simps [of cfg now lu r l swept inn])
        with rm fr' at idx(2) over show ?thesis by auto
      next
        case False
        with Some over "1.prems"(3) have recl: "reserve_loop cfg now lu r l (swept + 1) ?inn = (opt, inn')"
          by (auto simp: reserve_loop.simps [of cfg now lu r l swept inn] Let_def)
        note IH = "1.IH" [OF Some over refl False rm(1) fr' [OF fr] recl]
        have earlier: "jobs_by_id (in_jobs ?inn) i = Some a \<Longrightarrow> jobs_by_id (in_jobs inn) i = Some a" for i a
          unfolding rm(2) by (simp split: if_splits)
        have framed: "jobs_by_id (in_jobs inn') i = jobs_by_id (in_jobs inn) i \<or>
            (jobs_by_id (in_jobs inn') i = None \<and>
             (\<exists>a. jobs_by_id (in_jobs inn) i = Some a \<and> mem_visible l now a \<and> over_delivered cfg a \<noteq> None))"
          if "\<forall>rsv. opt = Some rsv \<longrightarrow> env_id (rsv_envelope rsv) \<noteq> i" for i
        proof (cases "i = sj_id ?j")
          case True
          with IH that rm(2) have "jobs_by_id (in_jobs inn') i = None" by (metis fun_upd_same option.discI)
          with True at idx(2) over show ?thesis by auto
        next
          case False
          with rm(2) have eq: "jobs_by_id (in_jobs ?inn) i = jobs_by_id (in_jobs inn) i" by simp
          from IH that have "jobs_by_id (in_jobs inn') i = jobs_by_id (in_jobs ?inn) i \<or>
              (jobs_by_id (in_jobs inn') i = None \<and>
               (\<exists>a. jobs_by_id (in_jobs ?inn) i = Some a \<and> mem_visible l now a \<and> over_delivered cfg a \<noteq> None))"
            by blast
          then show ?thesis unfolding eq .
        qed
        from IH earlier fr' framed show ?thesis by blast
      qed
    qed
  qed
qed

lemma reserve_loop_facts:
  assumes "mem_inv inn" and "mem_fresh r inn"
    and "reserve_loop cfg now lu r l swept inn = (opt, inn')"
  shows "mem_inv inn'" and "\<And>r'. mem_fresh r' inn \<Longrightarrow> r' \<noteq> r \<Longrightarrow> mem_fresh r' inn'"
    and "\<And>i. \<forall>rsv. opt = Some rsv \<longrightarrow> env_id (rsv_envelope rsv) \<noteq> i \<Longrightarrow>
       jobs_by_id (in_jobs inn') i = jobs_by_id (in_jobs inn) i \<or>
       (jobs_by_id (in_jobs inn') i = None \<and>
        (\<exists>a. jobs_by_id (in_jobs inn) i = Some a \<and> mem_visible l now a \<and> over_delivered cfg a \<noteq> None))"
    and "\<And>rsv. opt = Some rsv \<Longrightarrow>
       \<exists>a. jobs_by_id (in_jobs inn) (sj_id a) = Some a \<and> rsv = reservation_new (sj_envelope a) r (mc_lease cfg) \<and>
          mem_visible l now a \<and> over_delivered cfg a = None \<and>
          jobs_by_id (in_jobs inn') (sj_id a) = Some (hand_out r lu a)"
  using reserve_loop_spec [OF assms] by blast+

section \<open>The resolution methods\<close>

lemma with_receipt_stale:
  assumes inv: "mem_inv inn" and none: "\<forall>i. \<not> holds (mem_view t inn) i r"
    and run: "with_receipt r t f inn = (res, inn')"
  shows "res = Inl (stale r) \<and> mem_inv inn' \<and> (\<forall>r'. mem_fresh r' inn \<longrightarrow> mem_fresh r' inn') \<and>
    (\<forall>i t'. t \<le> t' \<longrightarrow> mem_view t' inn' i = mem_view t' inn i) \<and>
    in_dead inn' = in_dead inn \<and> in_schedules inn' = in_schedules inn \<and> in_unique inn' = in_unique inn"
proof (cases rule: find_current_receipt_cases [OF inv, where r = r and now = t, case_names stale current])
  case (stale inn1)
  then have eq: "res = Inl (Spi.stale r)" "inn' = inn1" using run by (auto simp: with_receipt_def)
  have "mem_view t' inn1 i = mem_view t' inn i" if "t \<le> t'" for i t'
    using stale(4) [of i] that by (auto simp: mem_view_def jview_release_lease)
  moreover have "mem_fresh r' inn1" if "mem_fresh r' inn" for r'
    using that stale(4) unfolding mem_fresh_iff [OF inv] mem_fresh_iff [OF stale(2)]
    by (metis (no_types, lifting) option.discI option.inject release_lease_def stored_job.select_convs(4)
        stored_job.surjective stored_job.update_convs(4))
  ultimately show ?thesis using stale eq by blast
next
  case (current pos)
  with none mem_inv_nth [OF inv current(2)] show ?thesis by (auto simp: holds_mem_view)
qed

lemma with_receipt_current:
  assumes inv: "mem_inv inn" and cur: "holds (mem_view t inn) i r"
  obtains pos where "pos < length (in_jobs inn)" "sj_id (in_jobs inn ! pos) = i"
    "sj_receipt (in_jobs inn ! pos) = Some r" "\<not> lease_expired t (in_jobs inn ! pos)"
    "\<And>f. with_receipt r t f inn = (Inr (), f pos inn)"
    "jobs_by_id (in_jobs inn) i = Some (in_jobs inn ! pos)"
proof (cases rule: find_current_receipt_cases [OF inv, where r = r and now = t, case_names stale current])
  case (stale inn1)
  with cur show ?thesis by (auto simp: holds_mem_view)
next
  case (current pos)
  from cur obtain a where a: "jobs_by_id (in_jobs inn) i = Some a" "sj_receipt a = Some r"
    by (auto simp: holds_mem_view)
  from jobs_ok_receipt [OF mem_inv_ok [OF inv] a(1) mem_inv_nth [OF inv current(2)] a(2) current(3)]
  have i: "i = sj_id (in_jobs inn ! pos)" .
  with current mem_inv_nth [OF inv current(2)] show ?thesis
    by (intro that [of pos]) (auto simp: with_receipt_def)
qed

text \<open>What a method does to the job at \<open>pos\<close>, for the methods that keep the job and for those
  that remove it.\<close>

definition keeps_job :: "(nat \<Rightarrow> inner \<Rightarrow> inner) \<Rightarrow> (stored_job \<Rightarrow> stored_job) \<Rightarrow> bool" where
  "keeps_job f g \<longleftrightarrow>
     (\<forall>pos inn. in_jobs (f pos inn) = update_at pos g (in_jobs inn) \<and> in_unique (f pos inn) = in_unique inn) \<and>
     (\<forall>j. sj_id (g j) = sj_id j \<and> sj_unique_key (g j) = sj_unique_key j \<and>
        (sj_receipt (g j) = None \<and> sj_leased_until (g j) = None \<or>
         sj_receipt (g j) = sj_receipt j \<and> sj_leased_until (g j) \<noteq> None))"

definition drops_job :: "(nat \<Rightarrow> inner \<Rightarrow> inner) \<Rightarrow> bool" where
  "drops_job f \<longleftrightarrow>
     (\<forall>pos inn. in_jobs (f pos inn) = remove_at pos (in_jobs inn) \<and>
        in_unique (f pos inn) = release_key (sj_unique_key (in_jobs inn ! pos)) (in_unique inn))"

lemma with_receipt_keeps:
  assumes inv: "mem_inv inn" and cur: "holds (mem_view t inn) i r" and f: "keeps_job f g"
    and run: "with_receipt r t f inn = (res, inn')"
  shows "res = Inr () \<and> mem_inv inn' \<and> (\<forall>r'. mem_fresh r' inn \<longrightarrow> mem_fresh r' inn') \<and>
    (\<exists>a. jobs_by_id (in_jobs inn) i = Some a \<and> sj_receipt a = Some r \<and> \<not> lease_expired t a \<and>
       jobs_by_id (in_jobs inn') = (jobs_by_id (in_jobs inn))(i \<mapsto> g a))"
  using with_receipt_current [OF inv cur]
proof cases
  case (1 pos)
  from run 1(5) have res: "res = Inr ()" "inn' = f pos inn" by simp_all
  have up: "mem_inv inn'" "jobs_by_id (in_jobs inn') = (jobs_by_id (in_jobs inn))(i \<mapsto> g (in_jobs inn ! pos))"
  proof -
    let ?j = "in_jobs inn ! pos"
    have g: "sj_receipt (g ?j) = None \<and> sj_leased_until (g ?j) = None \<or>
        sj_receipt (g ?j) = Some r \<and> sj_leased_until (g ?j) \<noteq> None"
      using f 1(3) unfolding keeps_job_def by metis
    then have "sj_leased_until (g ?j) = None \<longleftrightarrow> sj_receipt (g ?j) = None"
      "\<And>q. sj_receipt (g ?j) = Some q \<Longrightarrow> sj_receipt ?j = Some q \<or> mem_fresh q inn"
      using 1(3) by auto
    from mem_inv_update_at [OF inv 1(1), of inn' g, OF _ _ _ _ this] f 1(2)
    show "mem_inv inn'" "jobs_by_id (in_jobs inn') = (jobs_by_id (in_jobs inn))(i \<mapsto> g ?j)"
      by (simp_all add: keeps_job_def res)
  qed
  moreover have "mem_fresh r' inn'" if "mem_fresh r' inn" for r'
  proof -
    have "sj_receipt (g (in_jobs inn ! pos)) \<noteq> Some r'"
      using f that nth_mem [OF 1(1)] unfolding keeps_job_def mem_fresh_def by (metis option.discI)
    with that f set_update_at [OF 1(1), of g] set_remove_at_subset [of pos "in_jobs inn"] show ?thesis
      by (auto simp: mem_fresh_def res keeps_job_def)
  qed
  ultimately show ?thesis using res 1 by auto
qed

lemma with_receipt_drops:
  assumes inv: "mem_inv inn" and cur: "holds (mem_view t inn) i r" and f: "drops_job f"
    and run: "with_receipt r t f inn = (res, inn')"
  shows "res = Inr () \<and> mem_inv inn' \<and> (\<forall>r'. mem_fresh r' inn \<longrightarrow> mem_fresh r' inn') \<and>
    jobs_by_id (in_jobs inn') = (jobs_by_id (in_jobs inn))(i := None)"
  using with_receipt_current [OF inv cur]
proof cases
  case (1 pos)
  from run 1(5) have res: "res = Inr ()" "inn' = f pos inn" by simp_all
  have "mem_inv inn'" "jobs_by_id (in_jobs inn') = (jobs_by_id (in_jobs inn))(i := None)"
    using mem_inv_remove_at [OF inv 1(1), of inn'] f 1(2) by (auto simp: drops_job_def res)
  moreover have "mem_fresh r' inn'" if "mem_fresh r' inn" for r'
    using that f set_remove_at_subset [of pos "in_jobs inn"] by (auto simp: mem_fresh_def res drops_job_def)
  ultimately show ?thesis using res by simp
qed

text \<open>The methods as instances.\<close>

definition retried :: "duration \<Rightarrow> stored_job \<Rightarrow> stored_job" where
  "retried at j =
     j\<lparr> sj_envelope := bump_attempts (sj_envelope j), sj_available_at := at,
        sj_leased_until := None, sj_receipt := None \<rparr>"

definition deferred :: "duration \<Rightarrow> stored_job \<Rightarrow> stored_job" where
  "deferred at j = j\<lparr> sj_available_at := at, sj_leased_until := None, sj_receipt := None \<rparr>"

lemma mem_ack_drops: "drops_job (\<lambda>pos inn.
       inn\<lparr> in_jobs := remove_at pos (in_jobs inn),
            in_unique := release_key (sj_unique_key (in_jobs inn ! pos)) (in_unique inn) \<rparr>)"
  by (simp add: drops_job_def)

lemma mem_fail_drops: "drops_job (\<lambda>pos inn.
       dead_letter_at pos err now p (inn\<lparr> in_dlq_warned := w inn \<rparr>))"
  by (simp add: drops_job_def)

lemma mem_retry_keeps: "keeps_job (\<lambda>pos inn.
       inn\<lparr> in_jobs := update_at pos (\<lambda>j.
              j\<lparr> sj_envelope := (sj_envelope j)
                   \<lparr> env_attempts := u32_saturating_add (env_attempts (sj_envelope j)) 1 \<rparr>,
                 sj_available_at := at, sj_leased_until := None, sj_receipt := None \<rparr>) (in_jobs inn) \<rparr>)
     (retried at)"
  by (simp add: keeps_job_def retried_def [abs_def] bump_attempts_def)

lemma mem_defer_keeps: "keeps_job (\<lambda>pos inn.
       inn\<lparr> in_jobs := update_at pos (\<lambda>j.
              j\<lparr> sj_available_at := at, sj_leased_until := None, sj_receipt := None \<rparr>) (in_jobs inn) \<rparr>)
     (deferred at)"
  by (simp add: keeps_job_def deferred_def [abs_def])

lemma mem_extend_keeps: "keeps_job (\<lambda>pos inn.
       inn\<lparr> in_jobs := update_at pos (\<lambda>j. j\<lparr> sj_leased_until := Some at \<rparr>) (in_jobs inn) \<rparr>)
     (\<lambda>j. j\<lparr> sj_leased_until := Some at \<rparr>)"
  by (simp add: keeps_job_def)

lemmas mem_resolve_defs = mem_ack_def mem_retry_def mem_defer_def mem_extend_def mem_fail_def

section \<open>Enqueueing\<close>

lemma insert_one_cases:
  obtains (live) "jobs_by_id (in_jobs inn) (nj_id nj) \<noteq> None" "insert_one nj now inn = (nj_id nj, inn)"
  | (key) k i where "jobs_by_id (in_jobs inn) (nj_id nj) = None" "nj_unique_key nj = Some k"
      "in_unique inn k = Some i" "insert_one nj now inn = (i, inn)"
  | (new) b inn' where "jobs_by_id (in_jobs inn) (nj_id nj) = None"
      "\<And>k. nj_unique_key nj = Some k \<Longrightarrow> in_unique inn k = None"
      "insert_one nj now inn = (nj_id nj, inn')" "in_jobs inn' = in_jobs inn @ [b]"
      "in_unique inn' = (case nj_unique_key nj of Some k \<Rightarrow> (in_unique inn)(k \<mapsto> nj_id nj) | None \<Rightarrow> in_unique inn)"
      "sj_envelope b = into_envelope nj" "sj_available_at b = dur_saturating_add now (nj_delay nj)"
      "sj_leased_until b = None" "sj_receipt b = None" "sj_unique_key b = nj_unique_key nj" "sj_deliveries b = 0"
      "in_dead inn' = in_dead inn" "in_schedules inn' = in_schedules inn"
proof (cases "list_ex (\<lambda>j. sj_id j = nj_id nj) (in_jobs inn)")
  case True
  then have "jobs_by_id (in_jobs inn) (nj_id nj) \<noteq> None"
    unfolding lookup_by_None_iff list_ex_iff by force
  with True show ?thesis by (intro live) (auto simp: insert_one_def Let_def)
next
  case False
  then have none: "jobs_by_id (in_jobs inn) (nj_id nj) = None" by (auto simp: lookup_by_None_iff list_ex_iff)
  show ?thesis
  proof (cases "Option.bind (nj_unique_key nj) (in_unique inn)")
    case None
    then have "\<And>k. nj_unique_key nj = Some k \<Longrightarrow> in_unique inn k = None" by simp
    with False None none show ?thesis
      by (intro new [of "snd (insert_one nj now inn)" "stored_of nj (dur_saturating_add now (nj_delay nj))"])
        (auto simp: insert_one_def stored_of_def Let_def)
  next
    case (Some i)
    then obtain k where "nj_unique_key nj = Some k" "in_unique inn k = Some i" by (cases "nj_unique_key nj") auto
    with False Some none show ?thesis by (intro key) (auto simp: insert_one_def Let_def)
  qed
qed

lemma insert_one_conj:
  assumes inv: "mem_inv inn" and run: "insert_one nj now inn = (i, inn')"
  shows "mem_inv inn' \<and> (\<forall>r. mem_fresh r inn \<longrightarrow> mem_fresh r inn') \<and>
    (\<forall>j a. jobs_by_id (in_jobs inn) j = Some a \<longrightarrow> jobs_by_id (in_jobs inn') j = Some a) \<and>
    jobs_by_id (in_jobs inn') i \<noteq> None \<and>
    (\<forall>j. jobs_by_id (in_jobs inn) j = None \<and> jobs_by_id (in_jobs inn') j \<noteq> None \<longrightarrow>
       i = j \<and> j = nj_id nj \<and>
       (\<exists>b. jobs_by_id (in_jobs inn') j = Some b \<and> sj_envelope b = into_envelope nj \<and>
          sj_available_at b = dur_saturating_add now (nj_delay nj) \<and> sj_leased_until b = None \<and>
          sj_receipt b = None \<and> sj_unique_key b = nj_unique_key nj \<and> sj_deliveries b = 0)) \<and>
    in_dead inn' = in_dead inn \<and> in_schedules inn' = in_schedules inn"
proof (cases rule: insert_one_cases [of inn nj now, case_names live key new])
  case live
  with inv run show ?thesis by auto
next
  case (key k j)
  with run have eq: "i = j" "inn' = inn" by auto
  with key jobs_ok_key [OF mem_inv_ok [OF inv], of k j] inv show ?thesis by auto
next
  case (new b inn1)
  with run have eq: "i = nj_id nj" "inn1 = inn'" by auto
  have "sj_id b \<notin> (\<lambda>j. sj_id j) ` set (in_jobs inn)" using new(1,6) by (simp add: lookup_by_None_iff)
  moreover have id: "sj_id b = nj_id nj" using new(6) by simp
  moreover have "in_unique inn' = (case sj_unique_key b of Some k \<Rightarrow> (in_unique inn)(k \<mapsto> sj_id b) | None \<Rightarrow> in_unique inn)"
    using new(5,10) eq id by (cases "nj_unique_key nj") simp_all
  ultimately have "mem_inv inn'" "jobs_by_id (in_jobs inn') = (jobs_by_id (in_jobs inn))(nj_id nj \<mapsto> b)"
    using mem_inv_append [OF inv, of b inn'] new(2,4,8,9,10) eq by simp_all
  moreover have "mem_fresh r inn'" if "mem_fresh r inn" for r
    using that new eq by (auto simp: mem_fresh_def)
  ultimately show ?thesis using new eq by auto
qed

lemma insert_one_law:
  assumes inv: "mem_inv inn" and run: "insert_one nj now inn = (i, inn')"
  shows "mem_inv inn'" and "\<And>r. mem_fresh r inn \<Longrightarrow> mem_fresh r inn'"
    and "\<And>j a. jobs_by_id (in_jobs inn) j = Some a \<Longrightarrow> jobs_by_id (in_jobs inn') j = Some a"
    and "jobs_by_id (in_jobs inn') i \<noteq> None"
    and "\<And>j b. jobs_by_id (in_jobs inn) j = None \<Longrightarrow> jobs_by_id (in_jobs inn') j = Some b \<Longrightarrow>
       i = j \<and> j = nj_id nj \<and> sj_envelope b = into_envelope nj \<and>
       sj_available_at b = dur_saturating_add now (nj_delay nj) \<and> sj_leased_until b = None \<and>
       sj_receipt b = None \<and> sj_unique_key b = nj_unique_key nj \<and> sj_deliveries b = 0"
    and "in_dead inn' = in_dead inn" and "in_schedules inn' = in_schedules inn"
  using insert_one_conj [OF assms] by simp_all (metis option.inject)+

section \<open>The contract\<close>

definition memory_broker :: "mem_config \<Rightarrow> inner broker" where
  "memory_broker cfg =
     \<lparr> bk_enqueue = mem_enqueue, bk_reserve = mem_reserve cfg, bk_ack = mem_ack, bk_retry = mem_retry,
       bk_defer = mem_defer, bk_extend = mem_extend cfg, bk_fail = mem_fail cfg,
       bk_classify = mem_classify \<rparr>"

lemma memory_broker_simps [simp]:
  "bk_enqueue (memory_broker cfg) = mem_enqueue" "bk_reserve (memory_broker cfg) = mem_reserve cfg"
  "bk_ack (memory_broker cfg) = mem_ack" "bk_retry (memory_broker cfg) = mem_retry"
  "bk_defer (memory_broker cfg) = mem_defer" "bk_extend (memory_broker cfg) = mem_extend cfg"
  "bk_fail (memory_broker cfg) = mem_fail cfg" "bk_classify (memory_broker cfg) = mem_classify"
  by (simp_all add: memory_broker_def)

lemma mem_classify_live: "mem_classify i inn = Inr Live \<longleftrightarrow> mem_view t inn i \<noteq> None"
proof -
  have "list_ex (\<lambda>j. sj_id j = i) (in_jobs inn) \<longleftrightarrow> jobs_by_id (in_jobs inn) i \<noteq> None"
    unfolding lookup_by_None_iff by (auto simp: list_ex_iff)
  then show ?thesis by (auto simp: mem_classify_def mem_view_def)
qed

lemma mem_enqueue_law:
  assumes inv: "mem_inv inn" and run: "mem_enqueue t nj inn = (res, inn')"
  shows "mem_inv inn' \<and> (\<forall>r. mem_fresh r inn \<longrightarrow> mem_fresh r inn') \<and>
    (\<forall>i v. mem_view t' inn i = Some v \<longrightarrow> mem_view t' inn' i = Some v) \<and>
    (\<forall>i. res = Inr i \<longrightarrow> mem_view t' inn' i \<noteq> None) \<and>
    (\<forall>i. mem_view t' inn i = None \<and> mem_view t' inn' i \<noteq> None \<longrightarrow>
       res = Inr i \<and> i = nj_id nj \<and>
       (\<exists>v. mem_view t' inn' i = Some v \<and> jv_envelope v = into_envelope nj \<and> jv_key v = nj_unique_key nj \<and>
          jv_held v = None))"
proof (cases "check_payload_size nj")
  case (Inl e)
  with run have "res = Inl e" "inn' = inn" by (simp_all add: mem_enqueue_def)
  with inv show ?thesis by (simp del: not_None_eq)
next
  case (Inr u)
  obtain i inn1 where ins: "insert_one nj t inn = (i, inn1)" by (cases "insert_one nj t inn")
  with Inr run have eq: "res = Inr i" "inn' = inn1" by (simp_all add: mem_enqueue_def)
  note law = insert_one_law [OF inv ins]
  show ?thesis unfolding eq
  proof (intro conjI allI impI)
    show "mem_inv inn1" by (rule law)
    show "\<And>r. mem_fresh r inn \<Longrightarrow> mem_fresh r inn1" by (rule law)
    show "mem_view t' inn1 j = Some v" if "mem_view t' inn j = Some v" for j v
      using that law(3) [of j] by (auto simp: mem_view_def)
    show "mem_view t' inn1 j \<noteq> None" if "(Inr i :: job_id result) = Inr j" for j
      using that law(4) by (simp add: mem_view_def)
    fix j
    assume j: "mem_view t' inn j = None \<and> mem_view t' inn1 j \<noteq> None"
    then obtain b where "jobs_by_id (in_jobs inn) j = None" "jobs_by_id (in_jobs inn1) j = Some b"
      by (auto simp: mem_view_def)
    with law(5) [OF this] show "(Inr i :: job_id result) = Inr j" "j = nj_id nj"
      "\<exists>v. mem_view t' inn1 j = Some v \<and> jv_envelope v = into_envelope nj \<and>
         jv_key v = nj_unique_key nj \<and> jv_held v = None"
      by (simp_all add: mem_view_def)
  qed
qed

lemma mem_reserve_spec:
  assumes inv: "mem_inv inn" and fr: "mem_fresh r inn" and t: "t \<le> DURATION_MAX - 1"
    and run: "mem_reserve cfg t r l inn = (res, inn')"
  shows "\<exists>opt. res = Inr opt" and "mem_inv inn'"
    and "\<And>r'. mem_fresh r' inn \<Longrightarrow> r' \<noteq> r \<Longrightarrow> mem_fresh r' inn'"
    and "\<And>i t'. (\<forall>rsv. res = Inr (Some rsv) \<longrightarrow> env_id (rsv_envelope rsv) \<noteq> i) \<Longrightarrow> t \<le> t' \<Longrightarrow>
       mem_view t' inn' i = mem_view t' inn i \<or>
       (mem_view t' inn' i = None \<and> (\<forall>v. mem_view t inn i = Some v \<longrightarrow> jv_held v = None))"
    and "\<And>rsv. res = Inr (Some rsv) \<Longrightarrow> \<exists>a. jobs_by_id (in_jobs inn) (sj_id a) = Some a \<and>
       rsv = reservation_new (sj_envelope a) r (mc_lease cfg) \<and> sj_lane a = l \<and> sj_available_at a \<le> t \<and>
       (sj_leased_until a = None \<or> lease_expired t a) \<and> over_delivered cfg a = None \<and>
       (\<exists>b. jobs_by_id (in_jobs inn') (sj_id a) = Some b \<and> sj_envelope b = sj_envelope a \<and>
          sj_unique_key b = sj_unique_key a \<and> sj_available_at b = sj_available_at a \<and>
          sj_leased_until b = Some (dur_saturating_add t (mc_lease cfg)) \<and> sj_receipt b = Some r \<and>
          sj_deliveries b = u32_saturating_add (sj_deliveries a) 1)"
proof -
  let ?lu = "dur_saturating_add t (mc_lease cfg)"
  let ?inn = "release_expired t inn"
  obtain opt inn1 where loop: "reserve_loop cfg t ?lu r l 0 ?inn = (opt, inn1)"
    by (cases "reserve_loop cfg t ?lu r l 0 ?inn")
  with run have eq: "res = Inr opt" "inn' = inn1" by (auto simp: mem_reserve_def Let_def)
  note rel = release_expired_map [OF inv, of t]
  note spec = reserve_loop_facts [OF rel(1) mem_fresh_release_expired [OF inv fr] loop]
  show "\<exists>opt. res = Inr opt" using eq by simp
  show "mem_inv inn'" using spec(1) eq by simp
    show "mem_fresh r' inn'" if "mem_fresh r' inn" "r' \<noteq> r" for r'
      using spec(2) mem_fresh_release_expired [OF inv that(1)] that(2) eq by blast
  {
    fix i t'
    assume i0: "\<forall>rsv. res = Inr (Some rsv) \<longrightarrow> env_id (rsv_envelope rsv) \<noteq> i" and t': "t \<le> t'"
    then have i: "\<forall>rsv. opt = Some rsv \<longrightarrow> env_id (rsv_envelope rsv) \<noteq> i" using eq by simp
    from spec(3) [OF i] eq consider "jobs_by_id (in_jobs inn') i = jobs_by_id (in_jobs ?inn) i"
      | a where "jobs_by_id (in_jobs inn') i = None" "jobs_by_id (in_jobs ?inn) i = Some a" "mem_visible l t a"
      by auto
    then show "mem_view t' inn' i = mem_view t' inn i \<or>
       (mem_view t' inn' i = None \<and> (\<forall>v. mem_view t inn i = Some v \<longrightarrow> jv_held v = None))"
    proof cases
      case 1
      then have "mem_view t' inn' i = mem_view t' ?inn i" by (simp add: mem_view_def)
      with mem_view_release_expired [OF inv t'] show ?thesis by simp
    next
      case (2 a)
      then have "sj_receipt a = None" using jobs_okD(2) [OF mem_inv_ok [OF rel(1)] 2(2)] by (simp add: mem_visible_def)
      with 2 have "\<forall>v. mem_view t ?inn i = Some v \<longrightarrow> jv_held v = None" by (simp add: mem_view_def)
      moreover have "mem_view t' inn' i = None" using 2 by (simp add: mem_view_def)
      ultimately show ?thesis using mem_view_release_expired [OF inv order.refl, of t] by simp
    qed
  }
  {
    fix rsv
    assume "res = Inr (Some rsv)"
    then have "opt = Some rsv" using eq by simp
    from spec(4) [OF this] eq obtain a where a: "jobs_by_id (in_jobs ?inn) (sj_id a) = Some a"
      "rsv = reservation_new (sj_envelope a) r (mc_lease cfg)" "mem_visible l t a" "over_delivered cfg a = None"
      "jobs_by_id (in_jobs inn') (sj_id a) = Some (hand_out r ?lu a)" by blast
    from a(1) rel(2) [of "sj_id a"] obtain a0 where a0: "jobs_by_id (in_jobs inn) (sj_id a) = Some a0"
      "a = (if lease_expired t a0 then release_lease a0 else a0)" by auto
    then have same: "sj_envelope a0 = sj_envelope a" "sj_unique_key a0 = sj_unique_key a"
      "sj_available_at a0 = sj_available_at a" "sj_deliveries a0 = sj_deliveries a"
      by (auto simp: release_lease_def split: if_splits)
    have "over_delivered cfg a0 = None"
      using a(4) same(4) unfolding over_delivered_def by (auto split: option.splits)
    moreover have "sj_leased_until a0 = None \<or> lease_expired t a0"
      using a0(2) a(3) by (auto simp: mem_visible_def split: if_splits)
    moreover have "sj_lane a = l" "sj_available_at a \<le> t" using a(3) by (simp_all add: mem_visible_def)
    ultimately show "\<exists>a. jobs_by_id (in_jobs inn) (sj_id a) = Some a \<and>
       rsv = reservation_new (sj_envelope a) r (mc_lease cfg) \<and> sj_lane a = l \<and> sj_available_at a \<le> t \<and>
       (sj_leased_until a = None \<or> lease_expired t a) \<and> over_delivered cfg a = None \<and>
       (\<exists>b. jobs_by_id (in_jobs inn') (sj_id a) = Some b \<and> sj_envelope b = sj_envelope a \<and>
          sj_unique_key b = sj_unique_key a \<and> sj_available_at b = sj_available_at a \<and>
          sj_leased_until b = Some ?lu \<and> sj_receipt b = Some r \<and>
          sj_deliveries b = u32_saturating_add (sj_deliveries a) 1)"
      using a(2,5) a0(1) same by (intro exI [of _ a0]) (simp add: hand_out_def)
  }
qed

abbreviation mem_horizon :: duration where
  "mem_horizon \<equiv> DURATION_MAX - 1"

lemma before_horizon:
  "t' \<le> mem_horizon \<Longrightarrow> dur_saturating_add t d \<le> t' \<longleftrightarrow> t + d \<le> t'"
  by (auto simp: dur_saturating_add_def DURATION_MAX_def)

lemma mem_view_later:
  assumes "mem_view t inn i = Some v" and "t \<le> t'"
  shows "\<exists>v'. mem_view t' inn i = Some v' \<and> jv_envelope v' = jv_envelope v \<and> jv_key v' = jv_key v \<and>
    (jv_ready v \<longrightarrow> jv_ready v') \<and> (jv_held v' = jv_held v \<or> jv_held v' = None)"
  using assms lease_expired_mono by (auto simp: mem_view_def)

lemma mem_resolve_stale:
  assumes inv: "mem_inv inn" and none: "\<forall>i. \<not> holds (mem_view t inn) i r"
    and op: "opn \<in> {mem_ack t r, mem_retry t r d, mem_defer t r d, mem_extend cfg t r, mem_fail cfg t r e}"
    and run: "opn inn = (res, inn')"
  shows "res = Inl (stale r) \<and> mem_inv inn' \<and> (\<forall>r'. mem_fresh r' inn \<longrightarrow> mem_fresh r' inn') \<and>
    (\<forall>i t'. t \<le> t' \<longrightarrow> mem_view t' inn' i = mem_view t' inn i)"
proof -
  from op run obtain f where "with_receipt r t f inn = (res, inn')" by (auto simp: mem_resolve_defs)
  from with_receipt_stale [OF inv none this] show ?thesis by simp
qed

text \<open>A successful resolution touches only the job it is for.\<close>

lemma mem_resolve_current:
  assumes inv: "mem_inv inn" and cur: "holds (mem_view t inn) i r"
    and op: "opn \<in> {mem_ack t r, mem_retry t r d, mem_defer t r d, mem_extend cfg t r, mem_fail cfg t r e}"
    and run: "opn inn = (res, inn')"
  shows "res = Inr () \<and> mem_inv inn' \<and> (\<forall>r'. mem_fresh r' inn \<longrightarrow> mem_fresh r' inn') \<and>
    (\<forall>j t'. j \<noteq> i \<longrightarrow> mem_view t' inn' j = mem_view t' inn j)"
proof -
  have dropped: ?thesis if "drops_job f" "opn = with_receipt r t f" for f
    using with_receipt_drops [OF inv cur that(1)] run that(2) by (simp add: mem_view_def)
  have kept: ?thesis if "keeps_job f g" "opn = with_receipt r t f" for f g
    using with_receipt_keeps [OF inv cur that(1)] run that(2) by (auto simp: mem_view_def)
  from op consider "opn = mem_ack t r" | "opn = mem_retry t r d" | "opn = mem_defer t r d"
    | "opn = mem_extend cfg t r" | "opn = mem_fail cfg t r e" by blast
  then show ?thesis
  proof cases
    case 1
    then show ?thesis by (intro dropped [OF mem_ack_drops]) (simp add: mem_ack_def)
  next
    case 2
    then show ?thesis by (intro kept [OF mem_retry_keeps]) (simp add: mem_retry_def)
  next
    case 3
    then show ?thesis by (intro kept [OF mem_defer_keeps]) (simp add: mem_defer_def)
  next
    case 4
    then show ?thesis by (intro kept [OF mem_extend_keeps]) (simp add: mem_extend_def)
  next
    case 5
    then show ?thesis by (intro dropped [OF mem_fail_drops]) (simp add: mem_fail_def)
  qed
qed

lemma mem_drop_view:
  assumes "mem_inv inn" and "holds (mem_view t inn) i r"
  shows "mem_ack t r inn = (res, inn') \<Longrightarrow> mem_view t' inn' i = None"
    and "mem_fail cfg t r e inn = (res, inn') \<Longrightarrow> mem_view t' inn' i = None"
  using with_receipt_drops [OF assms mem_ack_drops] with_receipt_drops [OF assms mem_fail_drops]
  by (simp_all add: mem_resolve_defs mem_view_def)

lemma mem_retry_view:
  assumes inv: "mem_inv inn" and cur: "holds (mem_view t inn) i r" and v: "mem_view t inn i = Some v"
    and run: "mem_retry t r d inn = (res, inn')" and hor: "t' \<le> mem_horizon"
  shows "mem_view t' inn' i = Some (v\<lparr> jv_envelope := bump_attempts (jv_envelope v),
    jv_ready := (t + d \<le> t'), jv_held := None \<rparr>)"
  using with_receipt_keeps [OF inv cur mem_retry_keeps run [unfolded mem_retry_def]] v before_horizon [OF hor, of t d]
  by (auto simp: mem_view_def jview_of_def retried_def lease_expired_def)

lemma mem_defer_view:
  assumes inv: "mem_inv inn" and cur: "holds (mem_view t inn) i r" and v: "mem_view t inn i = Some v"
    and run: "mem_defer t r d inn = (res, inn')" and hor: "t' \<le> mem_horizon"
  shows "mem_view t' inn' i = Some (v\<lparr> jv_ready := (t + d \<le> t'), jv_held := None \<rparr>)"
  using with_receipt_keeps [OF inv cur mem_defer_keeps run [unfolded mem_defer_def]] v before_horizon [OF hor, of t d]
  by (auto simp: mem_view_def jview_of_def deferred_def lease_expired_def)

lemma mem_extend_view:
  assumes inv: "mem_inv inn" and cur: "holds (mem_view t inn) i r" and v: "mem_view t inn i = Some v"
    and run: "mem_extend cfg t r inn = (res, inn')" and t': "t \<le> t'" "t' \<le> mem_horizon"
  shows "\<exists>v'. mem_view t' inn' i = Some v' \<and> jv_envelope v' = jv_envelope v \<and> jv_key v' = jv_key v \<and>
    (jv_ready v \<longrightarrow> jv_ready v') \<and> jv_held v' = (if t' < t + mc_lease cfg then Some r else None)"
proof -
  let ?u = "dur_saturating_add t (mc_lease cfg)"
  from with_receipt_keeps [OF inv cur mem_extend_keeps run [unfolded mem_extend_def]] obtain a where
    a: "jobs_by_id (in_jobs inn) i = Some a" "sj_receipt a = Some r"
      "jobs_by_id (in_jobs inn') = (jobs_by_id (in_jobs inn))(i \<mapsto> a\<lparr> sj_leased_until := Some ?u \<rparr>)" by blast
  with v have "v = jview_of t a" by (simp add: mem_view_def)
  with a t' before_horizon [OF t'(2), of t "mc_lease cfg"] show ?thesis
    by (intro exI [of _ "jview_of t' (a\<lparr> sj_leased_until := Some ?u \<rparr>)"])
      (simp add: mem_view_def lease_expired_def not_less)
qed

lemma mem_reserve_view:
  assumes inv: "mem_inv inn" and fr: "mem_fresh r inn" and t: "t \<le> mem_horizon"
    and run: "mem_reserve cfg t r l inn = (Inr (Some rsv), inn')"
  shows "\<exists>v. mem_view t inn (env_id (rsv_envelope rsv)) = Some v \<and> rsv_envelope rsv = jv_envelope v \<and>
    env_lane (jv_envelope v) = l \<and> jv_ready v \<and> jv_held v = None \<and> rsv_receipt rsv = r \<and>
    (\<forall>t'. t \<le> t' \<and> t' \<le> mem_horizon \<longrightarrow>
       (\<exists>v'. mem_view t' inn' (env_id (rsv_envelope rsv)) = Some v' \<and> jv_envelope v' = jv_envelope v \<and>
          jv_key v' = jv_key v \<and> jv_ready v' \<and>
          jv_held v' = (if t' < t + mc_lease cfg then Some r else None)))"
proof -
  from mem_reserve_spec(5) [OF inv fr t run refl] obtain a b where
    a: "jobs_by_id (in_jobs inn) (sj_id a) = Some a" "rsv = reservation_new (sj_envelope a) r (mc_lease cfg)"
      "sj_lane a = l" "sj_available_at a \<le> t" "sj_leased_until a = None \<or> lease_expired t a"
    and b: "jobs_by_id (in_jobs inn') (sj_id a) = Some b" "sj_envelope b = sj_envelope a"
      "sj_unique_key b = sj_unique_key a" "sj_available_at b = sj_available_at a"
      "sj_leased_until b = Some (dur_saturating_add t (mc_lease cfg))" "sj_receipt b = Some r"
    by blast
  have "jv_held (jview_of t a) = None"
    using a(5) jobs_okD(2) [OF mem_inv_ok [OF inv] a(1)] by auto
  moreover have "jv_held (jview_of t' b) = (if t' < t + mc_lease cfg then Some r else None)"
    if "t' \<le> mem_horizon" for t'
    using b(5,6) before_horizon [OF that, of t "mc_lease cfg"] by (simp add: lease_expired_def not_less)
  ultimately show ?thesis
    using a b by (intro exI [of _ "jview_of t a"]) (simp add: mem_view_def)
qed

text \<open>The in-memory store has no engine that could refuse a call.\<close>

interpretation mem: broker_total "memory_broker cfg" mem_inv mem_view mem_fresh "mc_lease cfg" mem_horizon
  "\<lambda>_. True"
  for cfg
proof (unfold_locales, goal_cases)
  case (1 s t i v)
  then show ?case using jobs_okD(1) [OF mem_inv_ok] by (auto simp: mem_view_def)
next
  case (2 s t t' i v)
  then show ?case using mem_view_later by blast
next
  case (3 s t i t')
  then show ?case by (simp add: mem_view_def)
next
  case (4 s t i r j)
  then show ?case using jobs_ok_receipt [OF mem_inv_ok] by (auto simp: holds_mem_view)
next
  case (5 s r t i)
  then show ?case by (auto simp: holds_mem_view mem_fresh_iff)
next
  case (6 s t nj eres s' t')
  from mem_enqueue_law [OF 6(1) 6(2) [unfolded memory_broker_simps], of t'] show ?case .
next
  case (7 s r t l rres s')
  note spec = mem_reserve_spec(1,2,3) [OF 7(1,2,3) 7(4) [unfolded memory_broker_simps]]
  have "\<exists>opt. rres = Inr opt" by (rule spec)
  then show ?case by (intro conjI allI impI disjI1 spec) auto
next
  case (8 s r t l opt s' i t')
  have i: "\<forall>rsv. (Inr opt :: reservation option result) = Inr (Some rsv) \<longrightarrow> env_id (rsv_envelope rsv) \<noteq> i"
    using 8(5) by simp
  from mem_reserve_spec(4) [OF 8(1,2,3) 8(4) [unfolded memory_broker_simps] i 8(6)] show ?case .
next
  case (9 s r t l rsv s')
  from mem_reserve_view [OF 9(1,2,3) 9(4) [unfolded memory_broker_simps]] show ?case .
next
  case (10 s t r opn d e ures s')
  from mem_resolve_stale [OF 10(1,3) 10(4) [unfolded memory_broker_simps] 10(5)] show ?case by blast
next
  case (11 s t i r opn d e ures s')
  from mem_resolve_current [OF 11(1,3) 11(4) [unfolded memory_broker_simps] 11(5)] show ?case by blast
next
  case (12 s t i r s' t')
  then show ?case using mem_drop_view(1) [of s t i r "Inr ()" s' t'] by simp
next
  case (13 s t i r e s' t')
  then show ?case using mem_drop_view(2) [of s t i r cfg e "Inr ()" s' t'] by simp
next
  case (14 s t i r v d s' t')
  then show ?case using mem_retry_view [of s t i r v d "Inr ()" s' t'] by simp
next
  case (15 s t i r v d s' t')
  then show ?case using mem_defer_view [of s t i r v d "Inr ()" s' t'] by simp
next
  case (16 s t i r v s' t')
  then show ?case using mem_extend_view [of s t i r v cfg "Inr ()" s' t'] by simp
next
  case (17 s i t)
  then show ?case using mem_classify_live [of i s t] by simp
next
  case (18 s)
  show ?case by simp
qed

end
