(* ===== verification/Memory_Props.thy ===== *)
theory Memory_Props
  imports Memory_Laws "HOL-Library.Code_Target_Nat"
begin

text \<open>
  What the in-memory broker guarantees beyond the shared contract: every reachable state keeps
  the invariant, a reservation hands out the best job, the delivery bound and its sweep, the
  retention bounds, the requeue of a dead letter, batches, and schedule claims.
\<close>

section \<open>Reachable states\<close>

text \<open>Every method that changes the store, in any order, under any clock.\<close>

inductive mem_reach :: "mem_config \<Rightarrow> inner \<Rightarrow> bool" for cfg where
  init: "mem_reach cfg mem_with_clock"
| call: "mem_reach cfg s \<Longrightarrow> admissible mem_fresh mem_horizon t c s \<Longrightarrow>
    call_step (memory_broker cfg) t c s = (out, s') \<Longrightarrow> mem_reach cfg s'"
| batch: "mem_reach cfg s \<Longrightarrow> mem_enqueue_batch t js s = (ids, s') \<Longrightarrow> mem_reach cfg s'"
| requeue: "mem_reach cfg s \<Longrightarrow> mem_requeue t i s = (res, s') \<Longrightarrow> mem_reach cfg s'"
| purge: "mem_reach cfg s \<Longrightarrow> mem_purge_dead_letters l s = (n, s') \<Longrightarrow> mem_reach cfg s'"
| scheduled: "mem_reach cfg s \<Longrightarrow> mem_enqueue_scheduled t sid occ nj s = (won, s') \<Longrightarrow> mem_reach cfg s'"
| unschedule: "mem_reach cfg s \<Longrightarrow> mem_remove_schedule sid s = (res, s') \<Longrightarrow> mem_reach cfg s'"

lemma mem_inv_cong:
  "in_jobs s' = in_jobs s \<Longrightarrow> in_unique s' = in_unique s \<Longrightarrow> mem_inv s' \<longleftrightarrow> mem_inv s"
  by (simp add: mem_inv_def)

lemma mem_inv_insert_all: "mem_inv s \<Longrightarrow> mem_inv (snd (insert_all js t s))"
proof (induction js arbitrary: s)
  case (Cons j js)
  obtain i s1 where ins: "insert_one j t s = (i, s1)" by (cases "insert_one j t s")
  from Cons.IH [OF insert_one_law(1) [OF Cons.prems ins]] ins show ?case
    by (cases "insert_all js t s1") simp
qed simp

lemma mem_requeue_cases:
  obtains (none) e where "mem_requeue t i s = (Inl (Broker e), s)" "\<forall>d \<in> set (in_dead s). de_id d \<noteq> i"
  | (conflict) e where "mem_requeue t i s = (Inl (LiveJobIdConflict e), s)" "jobs_by_id (in_jobs s) i \<noteq> None"
  | (held) e k where "mem_requeue t i s = (Inl (UniqueKeyHeld e), s)" "in_unique s k \<noteq> None"
  | (revived) pos s' b where "mem_requeue t i s = (Inr (), s')"
      "position (\<lambda>d. de_id d = i) (in_dead s) = Some pos" "jobs_by_id (in_jobs s) i = None"
      "\<And>k. de_unique_key (in_dead s ! pos) = Some k \<Longrightarrow> in_unique s k = None"
      "in_dead s' = remove_at pos (in_dead s)" "in_jobs s' = in_jobs s @ [b]"
      "in_unique s' = (case de_unique_key (in_dead s ! pos) of Some k \<Rightarrow> (in_unique s)(k \<mapsto> i) | None \<Rightarrow> in_unique s)"
      "sj_envelope b = dl_envelope (de_letter (in_dead s ! pos))" "sj_available_at b = t"
      "sj_leased_until b = None" "sj_receipt b = None" "sj_unique_key b = de_unique_key (in_dead s ! pos)"
      "sj_deliveries b = 0"
proof (cases "position (\<lambda>d. de_id d = i) (in_dead s)")
  case None
  then have "\<forall>d \<in> set (in_dead s). de_id d \<noteq> i" by (simp add: position_None_iff)
  with None show ?thesis by (intro none) (simp_all add: mem_requeue_def)
next
  case (Some pos)
  let ?d = "in_dead s ! pos"
  have live: "list_ex (\<lambda>j. sj_id j = i) (in_jobs s) \<longleftrightarrow> jobs_by_id (in_jobs s) i \<noteq> None"
    unfolding lookup_by_None_iff by (auto simp: list_ex_iff)
  show ?thesis
  proof (cases "list_ex (\<lambda>j. sj_id j = i) (in_jobs s)")
    case True
    with Some live show ?thesis by (intro conflict) (simp_all add: mem_requeue_def Let_def)
  next
    case free: False
    show ?thesis
    proof (cases "Option.bind (de_unique_key ?d) (\<lambda>uk. if in_unique s uk \<noteq> None then Some uk else None)")
      case None
      then have "\<And>k. de_unique_key ?d = Some k \<Longrightarrow> in_unique s k = None" by (simp split: if_splits)
      with Some free None live show ?thesis
        by (intro revived [of "snd (mem_requeue t i s)" pos "last (in_jobs (snd (mem_requeue t i s)))"])
          (simp_all add: mem_requeue_def Let_def)
    next
      case held': (Some k)
      then have "in_unique s k \<noteq> None" by (cases "de_unique_key ?d") (auto split: if_splits)
      with Some free held' show ?thesis by (intro held) (simp_all add: mem_requeue_def Let_def)
    qed
  qed
qed

lemma mem_requeue_law:
  assumes inv: "mem_inv s" and run: "mem_requeue t i s = (Inr (), s')"
  obtains pos b where "position (\<lambda>d. de_id d = i) (in_dead s) = Some pos" "mem_inv s'"
    "in_dead s' = remove_at pos (in_dead s)" "jobs_by_id (in_jobs s) i = None"
    "jobs_by_id (in_jobs s') = (jobs_by_id (in_jobs s))(i \<mapsto> b)"
    "sj_envelope b = dl_envelope (de_letter (in_dead s ! pos))" "sj_available_at b = t"
    "sj_leased_until b = None" "sj_receipt b = None" "sj_unique_key b = de_unique_key (in_dead s ! pos)"
proof (cases rule: mem_requeue_cases [of t i s, case_names none conflict held revived])
  case (revived pos s1 b)
  with run have s1: "s1 = s'" by simp
  have id: "sj_id b = i" using position_SomeD(2) [OF revived(2)] revived(8) by simp
  have "sj_id b \<notin> (\<lambda>j. sj_id j) ` set (in_jobs s)" using revived(3) id by (simp add: lookup_by_None_iff)
  moreover have "in_unique s' = (case sj_unique_key b of Some k \<Rightarrow> (in_unique s)(k \<mapsto> sj_id b) | None \<Rightarrow> in_unique s)"
    using revived(7,12) id s1 by (cases "de_unique_key (in_dead s ! pos)") simp_all
  ultimately have "mem_inv s'" "jobs_by_id (in_jobs s') = (jobs_by_id (in_jobs s))(i \<mapsto> b)"
    using mem_inv_append [OF inv, of b s'] revived(4,6,10,11,12) id s1 by simp_all
  with revived s1 that show ?thesis by blast
qed (use run in simp_all)

lemma mem_reach_inv: "mem_reach cfg s \<Longrightarrow> mem_inv s"
proof (induction rule: mem_reach.induct)
  case init
  show ?case by (rule mem_inv_init)
next
  case (call s t c out s')
  then show ?case using mem.step_keeps by blast
next
  case (batch s t js ids s')
  then show ?case using mem_inv_insert_all [of s js t]
    by (auto simp: mem_enqueue_batch_def split: sum.splits prod.splits)
next
  case (requeue s t i res s')
  then show ?case
  proof (cases rule: mem_requeue_cases [of t i s, case_names none conflict held revived])
    case (revived pos s1 b)
    with requeue have "mem_requeue t i s = (Inr (), s')" by simp
    then show ?thesis by (rule mem_requeue_law [OF requeue.IH])
  qed simp_all
next
  case (purge s l n s')
  then show ?case by (auto simp: mem_purge_dead_letters_def Let_def mem_inv_def)
next
  case (scheduled s t sid occ nj won s')
  have inv: "mem_inv (s\<lparr> in_schedules := u \<rparr>)" for u
    using scheduled.IH by (simp add: mem_inv_def)
  show ?case
  proof (cases "won = Inr True")
    case True
    then obtain u where "s' = snd (insert_one nj t (s\<lparr> in_schedules := u \<rparr>))"
      using scheduled.hyps by (auto simp: mem_enqueue_scheduled_def Let_def split: if_splits)
    with insert_one_law(1) [OF inv] show ?thesis by (metis prod.collapse)
  next
    case False
    with scheduled show ?thesis by (auto simp: mem_enqueue_scheduled_def Let_def split: if_splits)
  qed
next
  case (unschedule s sid res s')
  then show ?case by (auto simp: mem_remove_schedule_def mem_inv_def)
qed

section \<open>Retention\<close>

text \<open>The reference: of one lane's records, oldest first, those young enough, and of these the
  most recent as many as the bound allows.\<close>

definition retained :: "retention_policy \<Rightarrow> duration \<Rightarrow> dead_entry list \<Rightarrow> dead_entry list" where
  "retained p now ds =
     (let young = (case max_age p of
                     Some age \<Rightarrow> filter (\<lambda>d. now - age \<le> de_dead_at d) ds | None \<Rightarrow> ds)
      in case max_count p of
           Some count \<Rightarrow> drop (length young - unat count) young
         | None \<Rightarrow> young)"

lemma drop_oldest_lane: "filter (\<lambda>d. de_lane d = l) (drop_oldest l n ds) = drop n (filter (\<lambda>d. de_lane d = l) ds)"
proof (induction l n ds rule: drop_oldest.induct)
  case (2 l n d ds)
  then show ?case by (cases n) auto
qed simp

lemma drop_oldest_other: "filter (\<lambda>d. de_lane d \<noteq> l) (drop_oldest l n ds) = filter (\<lambda>d. de_lane d \<noteq> l) ds"
  by (induction l n ds rule: drop_oldest.induct) auto

lemma prune_dead_retained:
  "filter (\<lambda>d. de_lane d = l) (in_dead (prune_dead l p now inn)) =
     retained p now (filter (\<lambda>d. de_lane d = l) (in_dead inn))"
proof -
  have age: "filter (\<lambda>d. de_lane d = l) (filter (\<lambda>d. de_lane d = l \<longrightarrow> c \<le> de_dead_at d) ds) =
      filter (\<lambda>d. c \<le> de_dead_at d) (filter (\<lambda>d. de_lane d = l) ds)" for c ds
    by (induction ds) auto
  show ?thesis
    by (auto simp: prune_dead_def retained_def is_unbounded_def Let_def drop_oldest_lane age
          dur_saturating_sub_def not_less simp del: filter_filter split: option.splits)
qed

lemma prune_dead_other:
  "filter (\<lambda>d. de_lane d \<noteq> l) (in_dead (prune_dead l p now inn)) = filter (\<lambda>d. de_lane d \<noteq> l) (in_dead inn)"
proof -
  have age: "filter (\<lambda>d. de_lane d \<noteq> l) (filter (\<lambda>d. de_lane d = l \<longrightarrow> c \<le> de_dead_at d) ds) =
      filter (\<lambda>d. de_lane d \<noteq> l) ds" for c ds
    by (induction ds) auto
  show ?thesis
    by (auto simp: prune_dead_def Let_def drop_oldest_other age simp del: filter_filter split: option.splits)
qed

lemma prune_dead_unbounded: "is_unbounded p \<Longrightarrow> prune_dead l p now inn = inn"
  by (simp add: prune_dead_def)

lemma length_retained: "max_count p = Some n \<Longrightarrow> length (retained p now ds) \<le> unat n"
  by (auto simp: retained_def Let_def)

section \<open>The choice and the bound of a reservation\<close>

lemma mem_remove_at: "x \<in> set xs \<Longrightarrow> i < length xs \<Longrightarrow> x \<noteq> xs ! i \<Longrightarrow> x \<in> set (remove_at i xs)"
  by (metis Un_iff list.set_cases remove_at_def remove_at_split set_ConsD set_append)

text \<open>What the loop decides at its head: no visible job, a job within its bound, or one to
  dead-letter.\<close>

lemma reserve_loop_head:
  obtains (empty) "reserve_loop cfg now lu r l swept inn = (None, inn)" "\<forall>j \<in> set (in_jobs inn). \<not> mem_visible l now j"
  | (found) idx where "idx < length (in_jobs inn)" "pick_best (in_jobs inn) l now = Some idx"
      "over_delivered cfg (in_jobs inn ! idx) = None"
      "reserve_loop cfg now lu r l swept inn =
         (Some (reservation_new (sj_envelope (in_jobs inn ! idx)) r (mc_lease cfg)),
          inn\<lparr> in_jobs := update_at idx (hand_out r lu) (in_jobs inn) \<rparr>)"
  | (sweep) idx m where "idx < length (in_jobs inn)" "pick_best (in_jobs inn) l now = Some idx"
      "over_delivered cfg (in_jobs inn ! idx) = Some m"
      "reserve_loop cfg now lu r l swept inn =
         (if swept + 1 \<ge> MAX_DEAD_LETTER_SWEEP
          then (None, dead_letter_at idx (exceeded_text m) now (mc_retention cfg) inn)
          else reserve_loop cfg now lu r l (swept + 1)
                 (dead_letter_at idx (exceeded_text m) now (mc_retention cfg) inn))"
proof (cases "pick_best (in_jobs inn) l now")
  case None
  then show ?thesis
    by (intro empty) (simp_all add: reserve_loop.simps [of cfg now lu r l swept inn] pick_best_NoneD)
next
  case (Some idx)
  show ?thesis
  proof (cases "over_delivered cfg (in_jobs inn ! idx)")
    case None
    with Some pick_best_SomeD(1) [OF Some] show ?thesis
      by (intro found) (simp_all add: reserve_loop.simps [of cfg now lu r l swept inn])
  next
    case over: (Some m)
    with Some pick_best_SomeD(1) [OF Some] show ?thesis
      by (intro sweep) (simp_all add: reserve_loop.simps [of cfg now lu r l swept inn] Let_def)
  qed
qed

lemma pick_best_best:
  assumes "pick_best jobs l now = Some i" and "j \<in> set jobs" and "mem_visible l now j"
  shows "\<not> mem_better j (jobs ! i)"
  using pick_best_best_below [of jobs l now] assms by (auto simp: best_below_def in_set_conv_nth)

lemma reserve_loop_best:
  assumes "reserve_loop cfg now lu r l swept inn = (Some rsv, inn')"
  shows "\<exists>a \<in> set (in_jobs inn). mem_visible l now a \<and> over_delivered cfg a = None \<and>
      rsv_envelope rsv = sj_envelope a \<and>
      (\<forall>j \<in> set (in_jobs inn). mem_visible l now j \<and> over_delivered cfg j = None \<longrightarrow> \<not> mem_better j a)"
  using assms
proof (induction cfg now lu r l swept inn rule: reserve_loop.induct)
  case (1 cfg now lu r l swept inn)
  show ?case
  proof (cases rule: reserve_loop_head [of cfg now lu r l swept inn, case_names empty found sweep])
    case empty
    with "1.prems" show ?thesis by simp
  next
    case (found idx)
    with "1.prems" have "rsv_envelope rsv = sj_envelope (in_jobs inn ! idx)" by auto
    with found pick_best_SomeD(2) [OF found(2)] pick_best_best [OF found(2)] show ?thesis
      by (intro bexI [of _ "in_jobs inn ! idx"]) auto
  next
    case (sweep idx m)
    let ?inn = "dead_letter_at idx (exceeded_text m) now (mc_retention cfg) inn"
    from sweep(4) "1.prems" have more: "\<not> MAX_DEAD_LETTER_SWEEP \<le> swept + 1"
      and rest: "reserve_loop cfg now lu r l (swept + 1) ?inn = (Some rsv, inn')"
      by (auto split: if_splits)
    from "1.IH" [OF sweep(2,3) refl more rest] obtain a where
      a: "a \<in> set (in_jobs ?inn)" "mem_visible l now a" "over_delivered cfg a = None" "rsv_envelope rsv = sj_envelope a"
        "\<forall>j \<in> set (in_jobs ?inn). mem_visible l now j \<and> over_delivered cfg j = None \<longrightarrow> \<not> mem_better j a" by blast
    have "a \<in> set (in_jobs inn)" using a(1) set_remove_at_subset [of idx "in_jobs inn"] by auto
    moreover have "\<not> mem_better j a" if "j \<in> set (in_jobs inn)" "mem_visible l now j" "over_delivered cfg j = None" for j
    proof -
      have "j \<noteq> in_jobs inn ! idx" using that(3) sweep(3) by auto
      then have "j \<in> set (in_jobs ?inn)" using mem_remove_at [OF that(1) sweep(1)] by simp
      with a(5) that(2,3) show ?thesis by blast
    qed
    ultimately show ?thesis using a by blast
  qed
qed

lemma reserve_loop_none:
  assumes "reserve_loop cfg now lu r l swept inn = (None, inn')" and "swept < MAX_DEAD_LETTER_SWEEP"
  shows "(\<forall>j \<in> set (in_jobs inn). mem_visible l now j \<longrightarrow> over_delivered cfg j \<noteq> None) \<or>
    length (in_jobs inn') + (MAX_DEAD_LETTER_SWEEP - swept) = length (in_jobs inn)"
  using assms
proof (induction cfg now lu r l swept inn rule: reserve_loop.induct)
  case (1 cfg now lu r l swept inn)
  show ?case
  proof (cases rule: reserve_loop_head [of cfg now lu r l swept inn, case_names empty found sweep])
    case empty
    then show ?thesis by blast
  next
    case (found idx)
    with "1.prems" show ?thesis by simp
  next
    case (sweep idx m)
    let ?inn = "dead_letter_at idx (exceeded_text m) now (mc_retention cfg) inn"
    have len: "length (in_jobs ?inn) + 1 = length (in_jobs inn)"
      using sweep(1) by (simp add: length_remove_at)
    show ?thesis
    proof (cases "MAX_DEAD_LETTER_SWEEP \<le> swept + 1")
      case True
      with sweep(4) "1.prems" have "inn' = ?inn" "MAX_DEAD_LETTER_SWEEP - swept = 1" by auto
      with len show ?thesis by simp
    next
      case False
      with sweep(4) "1.prems"(1) have rest: "reserve_loop cfg now lu r l (swept + 1) ?inn = (None, inn')" by simp
      from False have lt: "swept + 1 < MAX_DEAD_LETTER_SWEEP" by simp
      from "1.IH" [OF sweep(2,3) refl False rest lt] show ?thesis
      proof
        assume H: "\<forall>j \<in> set (in_jobs ?inn). mem_visible l now j \<longrightarrow> over_delivered cfg j \<noteq> None"
        have "over_delivered cfg j \<noteq> None" if "j \<in> set (in_jobs inn)" "mem_visible l now j" for j
        proof (cases "j = in_jobs inn ! idx")
          case False
          then have "j \<in> set (in_jobs ?inn)" using mem_remove_at [OF that(1) sweep(1)] by simp
          with H that(2) show ?thesis by blast
        qed (use sweep(3) in simp)
        then show ?thesis by blast
      next
        assume "length (in_jobs inn') + (MAX_DEAD_LETTER_SWEEP - (swept + 1)) = length (in_jobs ?inn)"
        with len lt show ?thesis by linarith
      qed
    qed
  qed
qed

lemma reserve_loop_sweep_bound:
  assumes "reserve_loop cfg now lu r l swept inn = (opt, inn')" and "swept < MAX_DEAD_LETTER_SWEEP"
  shows "length (in_jobs inn) \<le> length (in_jobs inn') + (MAX_DEAD_LETTER_SWEEP - swept)"
  using assms
proof (induction cfg now lu r l swept inn rule: reserve_loop.induct)
  case (1 cfg now lu r l swept inn)
  show ?case
  proof (cases rule: reserve_loop_head [of cfg now lu r l swept inn, case_names empty found sweep])
    case (sweep idx m)
    let ?inn = "dead_letter_at idx (exceeded_text m) now (mc_retention cfg) inn"
    have len: "length (in_jobs ?inn) + 1 = length (in_jobs inn)"
      using sweep(1) by (simp add: length_remove_at)
    show ?thesis
    proof (cases "MAX_DEAD_LETTER_SWEEP \<le> swept + 1")
      case True
      with sweep(4) "1.prems" len show ?thesis by simp
    next
      case False
      with sweep(4) "1.prems"(1) have rest: "reserve_loop cfg now lu r l (swept + 1) ?inn = (opt, inn')" by simp
      from False have lt: "swept + 1 < MAX_DEAD_LETTER_SWEEP" by simp
      from "1.IH" [OF sweep(2,3) refl False rest lt] len lt show ?thesis by linarith
    qed
  qed (use "1.prems" in auto)
qed

lemma reserve_loop_unbounded:
  assumes "mc_max_deliveries cfg = None" and "reserve_loop cfg now lu r l swept inn = (opt, inn')"
  shows "length (in_jobs inn') = length (in_jobs inn)"
proof (cases rule: reserve_loop_head [of cfg now lu r l swept inn, case_names empty found sweep])
  case (sweep idx m)
  with assms(1) show ?thesis by (simp add: over_delivered_def)
qed (use assms(2) in auto)

lemma over_delivered_cong:
  "sj_deliveries a = sj_deliveries b \<Longrightarrow> over_delivered cfg a = over_delivered cfg b"
  by (simp add: over_delivered_def split: option.split)

lemma mem_reserve_gone:
  assumes inv: "mem_inv s" and run: "mem_reserve cfg t r l s = (res, s')" and fr: "mem_fresh r s"
    and a: "jobs_by_id (in_jobs s) i = Some a" and gone: "jobs_by_id (in_jobs s') i = None"
  shows "over_delivered cfg a \<noteq> None"
proof -
  let ?s = "release_expired t s" and ?lu = "dur_saturating_add t (mc_lease cfg)"
  obtain opt s1 where loop: "reserve_loop cfg t ?lu r l 0 ?s = (opt, s1)"
    by (cases "reserve_loop cfg t ?lu r l 0 ?s")
  with run have "s1 = s'" by (simp add: mem_reserve_def Let_def)
  note rel = release_expired_map [OF inv, of t]
  note facts = reserve_loop_facts [OF rel(1) mem_fresh_release_expired [OF inv fr] loop]
  let ?b = "if lease_expired t a then release_lease a else a"
  have b: "jobs_by_id (in_jobs ?s) i = Some ?b" using rel(2) [of i] a by simp
  have ne: "\<forall>rsv. opt = Some rsv \<longrightarrow> env_id (rsv_envelope rsv) \<noteq> i"
  proof (intro allI impI notI)
    fix rsv
    assume "opt = Some rsv" "env_id (rsv_envelope rsv) = i"
    with facts(4) gone \<open>s1 = s'\<close> show False by fastforce
  qed
  from facts(3) [OF ne] b gone \<open>s1 = s'\<close> have "over_delivered cfg ?b \<noteq> None" by auto
  moreover have "sj_deliveries ?b = sj_deliveries a" by (simp add: release_lease_def)
  ultimately show ?thesis using over_delivered_cong [of ?b a cfg] by simp
qed

section \<open>Small concrete stores\<close>

definition demo_lane :: lane where "demo_lane = Lane ''q''"

definition demo_job :: "uuid \<Rightarrow> new_job" where
  "demo_job n = new_job_new (JobId n) demo_lane ''k'' [7] 3"

definition demo_store :: inner where
  "demo_store = snd (mem_enqueue 0 (demo_job 1) mem_with_clock)"

definition demo_leased :: inner where
  "demo_leased = snd (mem_reserve mem_config_default 0 (Receipt 7) demo_lane demo_store)"

lemma demo_store_reach: "mem_reach cfg demo_store"
  unfolding demo_store_def
  by (rule mem_reach.call [OF mem_reach.init, where t = 0 and c = "CEnqueue (demo_job 1)"])
    (auto simp: admissible_def prod_eq_iff)

lemma demo_store_fresh: "mem_fresh r demo_store"
  by (simp add: demo_store_def mem_fresh_def mem_enqueue_def insert_one_def check_payload_size_def
      demo_job_def new_job_new_def mem_with_clock_def stored_of_def MAX_ENVELOPE_BYTES_def)

lemma demo_reserve:
  "mem_reserve mem_config_default 0 (Receipt 7) demo_lane demo_store =
     (Inr (Some (reservation_new (into_envelope (demo_job 1)) (Receipt 7) DEFAULT_LEASE)), demo_leased)"
proof -
  have "fst (mem_reserve mem_config_default 0 (Receipt 7) demo_lane demo_store) =
      Inr (Some (reservation_new (into_envelope (demo_job 1)) (Receipt 7) DEFAULT_LEASE))"
    by code_simp
  then show ?thesis by (simp add: demo_leased_def prod_eq_iff)
qed

lemma demo_leased_reach: "mem_reach mem_config_default demo_leased"
  by (rule mem_reach.call [OF demo_store_reach, where t = 0 and c = "CReserve (Receipt 7) demo_lane"])
    (auto simp: admissible_def demo_store_fresh demo_reserve)

lemma demo_leased_fresh: "r \<noteq> Receipt 7 \<Longrightarrow> mem_fresh r demo_leased"
  using mem_reserve_spec(3) [OF mem_reach_inv [OF demo_store_reach] demo_store_fresh _ demo_reserve demo_store_fresh]
  by simp

lemma demo_leased_held: "holds (mem_view 1 demo_leased) (JobId 1) (Receipt 7)"
proof -
  have "jv_held (the (mem_view 1 demo_leased (JobId 1))) = Some (Receipt 7)" by code_simp
  moreover have "mem_view 1 demo_leased (JobId 1) \<noteq> None" by code_simp
  ultimately show ?thesis by (auto simp: holds_def)
qed

section \<open>Properties\<close>

text \<open>C1: exclusive delivery.  From any state the in-memory broker can reach, once a reservation
  has handed a job out, no call of any client before the lease runs out hands the same job out
  again, as long as nobody presents its receipt; heartbeats with the receipt are allowed.\<close>

theorem mem_exclusive_delivery:
  assumes "mem_reach cfg s" and "mem_fresh r s" and "t0 \<le> mem_horizon"
    and "mem_reserve cfg t0 r l s = (Inr (Some rsv), s1)"
    and "fair_calls mem_fresh mem_horizon cs s1"
    and "calls_run (memory_broker cfg) cs s1 = (outs, s2)"
    and "\<forall>(t, c) \<in> set cs. t0 \<le> t \<and> t < t0 + mc_lease cfg \<and> presents c \<noteq> Some r"
  shows "\<forall>out \<in> set outs. \<forall>e. handed_out out = Some e \<longrightarrow> env_id e \<noteq> env_id (rsv_envelope rsv)"
  using assms(4) mem.exclusive_delivery [OF mem_reach_inv [OF assms(1)] assms(2,3) _ assms(5,6,7)] by simp

theorem mem_exclusive_delivery_witness:
  "JobId 1 \<notin> set (List.map_filter (\<lambda>out. map_option (\<lambda>e. env_id e) (handed_out out))
     (fst (calls_run (memory_broker mem_config_default)
       [(1, CExtend (Receipt 7)), (2, CReserve (Receipt 8) demo_lane)] demo_leased)))"
proof -
  let ?cs = "[(1, CExtend (Receipt 7)), (2, CReserve (Receipt 8) demo_lane)]"
  have "fair_calls mem_fresh mem_horizon ?cs demo_leased"
    using demo_leased_fresh [of "Receipt 8"]
    by (simp add: fair_calls_def map_filter_simps DURATION_MAX_def)
  moreover have "\<forall>(t, c) \<in> set ?cs. 0 \<le> t \<and> t < 0 + mc_lease mem_config_default \<and> presents c \<noteq> Some (Receipt 7)"
    by (simp add: mem_config_default_def DEFAULT_LEASE_def from_secs_def)
  ultimately have "\<forall>out \<in> set (fst (calls_run (memory_broker mem_config_default) ?cs demo_leased)).
      \<forall>e. handed_out out = Some e \<longrightarrow> env_id e \<noteq> JobId 1"
    using mem_exclusive_delivery [OF demo_store_reach demo_store_fresh _ demo_reserve, of ?cs]
    by (cases "calls_run (memory_broker mem_config_default) ?cs demo_leased")
      (simp add: demo_job_def new_job_new_def)
  then show ?thesis by (auto simp: map_filter_def)
qed

text \<open>C2: no job is lost.  A call removes a live job only in two ways: its holder acks or fails
  it with a current receipt, or a reservation dead-letters it because, unleased, it has used up
  its delivery bound.\<close>

theorem mem_no_loss:
  assumes "mem_reach cfg s" and "admissible mem_fresh mem_horizon t c s"
    and "call_step (memory_broker cfg) t c s = (out, s')"
    and "jobs_by_id (in_jobs s) i = Some a" and "jobs_by_id (in_jobs s') i = None"
  shows "(\<exists>r. sj_receipt a = Some r \<and> \<not> lease_expired t a \<and> out = OResolved (Inr ()) \<and>
            (c = CAck r \<or> (\<exists>e. c = CFail r e))) \<or>
    (\<exists>r l. c = CReserve r l \<and> (sj_leased_until a = None \<or> lease_expired t a) \<and> over_delivered cfg a \<noteq> None)"
proof -
  note inv = mem_reach_inv [OF assms(1)]
  have "mem_view t s i = Some (jview_of t a)" "mem_view t s' i = None"
    using assms(4,5) by (simp_all add: mem_view_def)
  from mem.no_loss [OF inv assms(2,3) this] show ?thesis
  proof
    assume "jv_held (jview_of t a) = None \<and> (\<exists>r l. c = CReserve r l)"
    then obtain r l where c: "c = CReserve r l" and un: "sj_leased_until a = None \<or> lease_expired t a"
      using jobs_okD(2) [OF mem_inv_ok [OF inv] assms(4)] by (auto split: if_splits)
    from assms(3) c have "mem_reserve cfg t r l s = (fst (mem_reserve cfg t r l s), s')"
      by (cases "mem_reserve cfg t r l s") simp
    moreover have "mem_fresh r s" using assms(2) c by (simp add: admissible_def)
    ultimately have "over_delivered cfg a \<noteq> None"
      using mem_reserve_gone [OF inv _ _ assms(4,5)] by blast
    with c un show ?thesis by blast
  qed (use assms(4) in \<open>auto simp: holds_mem_view\<close>)
qed

theorem mem_no_loss_witness:
  "\<exists>r. sj_receipt (the (jobs_by_id (in_jobs demo_leased) (JobId 1))) = Some r \<and>
     fst (call_step (memory_broker mem_config_default) 1 (CAck (Receipt 7)) demo_leased) = OResolved (Inr ()) \<and>
     CAck (Receipt 7) = CAck r"
proof -
  let ?s' = "snd (call_step (memory_broker mem_config_default) 1 (CAck (Receipt 7)) demo_leased)"
  have "list_ex (\<lambda>j. sj_id j = JobId 1) (in_jobs demo_leased)" by code_simp
  then obtain a where a: "jobs_by_id (in_jobs demo_leased) (JobId 1) = Some a"
    by (metis (mono_tags, lifting) image_eqI list_ex_iff lookup_by_None_iff not_None_eq)
  have "in_jobs ?s' = []" by code_simp
  then have gone: "jobs_by_id (in_jobs ?s') (JobId 1) = None" by simp
  from mem_no_loss [OF demo_leased_reach _ surjective_pairing a gone]
  show ?thesis using a by (auto simp: admissible_def DURATION_MAX_def)
qed

text \<open>C3: at-least-once.  A job handed out and not resolved is available again once its lease
  has run out: with no delivery bound, a reservation on its lane at that time or later returns a
  job, of at least the same priority.\<close>

theorem mem_redelivery:
  assumes "mem_reach cfg s" and "mem_fresh r s" and "mc_max_deliveries cfg = None"
    and "mem_reserve cfg t0 r l s = (Inr (Some rsv), s1)" and "t0 + mc_lease cfg \<le> t" and "t \<le> mem_horizon"
  shows "\<exists>rsv' s2. mem_reserve cfg t r' l s1 = (Inr (Some rsv'), s2) \<and>
    env_priority (rsv_envelope rsv) \<le> env_priority (rsv_envelope rsv')"
proof -
  note inv = mem_reach_inv [OF assms(1)]
  have t0: "t0 \<le> mem_horizon" using assms(5,6) by simp
  note run = assms(4)
  from mem_reserve_view [OF inv assms(2) t0 run] obtain v0 :: jview where
    v0: "rsv_envelope rsv = jv_envelope v0" "env_lane (jv_envelope v0) = l" and
    later: "\<forall>t'. t0 \<le> t' \<and> t' \<le> mem_horizon \<longrightarrow>
      (\<exists>v'. mem_view t' s1 (env_id (rsv_envelope rsv)) = Some v' \<and> jv_envelope v' = jv_envelope v0 \<and>
         jv_key v' = jv_key v0 \<and> jv_ready v' \<and> jv_held v' = (if t' < t0 + mc_lease cfg then Some r else None))"
    by blast
  from later [rule_format, of t] assms(5,6) v0
  obtain v where "mem_view t s1 (env_id (rsv_envelope rsv)) = Some v" "jv_envelope v = rsv_envelope rsv"
    "env_lane (rsv_envelope rsv) = l" "jv_ready v" "jv_held v = None" by auto
  then obtain a where a: "a \<in> set (in_jobs s1)" "sj_envelope a = rsv_envelope rsv" "sj_lane a = l"
    "sj_available_at a \<le> t" "lease_expired t a \<or> sj_receipt a = None"
    by (auto simp: mem_view_def dest!: lookup_by_SomeD split: if_splits)
  have inv1: "mem_inv s1" using mem_reserve_spec(2) [OF inv assms(2) t0 run] .
  have "sj_leased_until a = None \<or> lease_expired t a"
    using a(1,5) jobs_okD(2) [OF mem_inv_ok [OF inv1], of "sj_id a" a]
    by (auto simp: lookup_by_Some_iff mem_inv_distinct [OF inv1])
  then have vis: "mem_visible l t (if lease_expired t a then release_lease a else a)"
    using a(3,4) by (auto simp: mem_visible_def release_lease_def)
  let ?b = "if lease_expired t a then release_lease a else a"
  have b: "?b \<in> set (in_jobs (release_expired t s1))" using a(1) by (auto simp: release_expired_def)
  have bound: "over_delivered cfg j = None" for j using assms(3) by (simp add: over_delivered_def)
  obtain opt s2 where loop: "reserve_loop cfg t (dur_saturating_add t (mc_lease cfg)) r' l 0 (release_expired t s1) = (opt, s2)"
    by (cases "reserve_loop cfg t (dur_saturating_add t (mc_lease cfg)) r' l 0 (release_expired t s1)")
  show ?thesis
  proof (cases opt)
    case None
    from reserve_loop_none [OF loop [unfolded None]] b vis bound
      reserve_loop_unbounded [OF assms(3) loop [unfolded None]] show ?thesis
      by (auto simp: MAX_DEAD_LETTER_SWEEP_def)
  next
    case (Some rsv')
    from reserve_loop_best [OF loop [unfolded Some]] obtain c where
      "rsv_envelope rsv' = sj_envelope c" "\<not> mem_better ?b c" using b vis bound by blast
    moreover have "sj_envelope ?b = rsv_envelope rsv" using a(2) by (simp add: release_lease_def)
    ultimately have "env_priority (rsv_envelope rsv) \<le> env_priority (rsv_envelope rsv')"
      by (simp add: mem_better_def not_less)
    with loop Some show ?thesis by (simp add: mem_reserve_def Let_def)
  qed
qed

theorem mem_redelivery_witness:
  "\<exists>rsv' s2. mem_reserve mem_config_default (from_secs 31) (Receipt 8) demo_lane demo_leased = (Inr (Some rsv'), s2) \<and>
    env_priority (into_envelope (demo_job 1)) \<le> env_priority (rsv_envelope rsv')"
  using mem_redelivery [OF demo_store_reach demo_store_fresh _ demo_reserve, of "from_secs 31" "Receipt 8"]
  by (simp add: mem_config_default_def DEFAULT_LEASE_def from_secs_def DURATION_MAX_def)

text \<open>C5: in every reachable state no two live jobs share an id, a receipt, or a uniqueness
  key, a job is leased exactly when it has a receipt, and the uniqueness index maps a key to the
  live job that holds it.\<close>

theorem mem_reachable_wellformed:
  assumes "mem_reach cfg s"
  shows "distinct (map (\<lambda>j. sj_id j) (in_jobs s)) \<and>
    (\<forall>j \<in> set (in_jobs s). sj_leased_until j = None \<longleftrightarrow> sj_receipt j = None) \<and>
    (\<forall>j \<in> set (in_jobs s). \<forall>k \<in> set (in_jobs s).
       (sj_receipt j \<noteq> None \<and> sj_receipt j = sj_receipt k) \<or>
       (sj_unique_key j \<noteq> None \<and> sj_unique_key j = sj_unique_key k) \<longrightarrow> j = k) \<and>
    (\<forall>k i. in_unique s k = Some i \<longleftrightarrow> (\<exists>j \<in> set (in_jobs s). sj_unique_key j = Some k \<and> sj_id j = i))"
proof -
  note inv = mem_reach_inv [OF assms]
  note ok = mem_inv_ok [OF inv] and iff = lookup_by_Some_iff [OF mem_inv_distinct [OF inv]]
  have same: "j = k" if "j \<in> set (in_jobs s)" "k \<in> set (in_jobs s)" "sj_id j = sj_id k" for j k
    using that mem_inv_distinct [OF inv] by (auto simp: distinct_map inj_on_def)
  have unique: "in_unique s k = Some i \<longleftrightarrow> (\<exists>j \<in> set (in_jobs s). sj_unique_key j = Some k \<and> sj_id j = i)" for k i
    unfolding jobs_ok_key [OF ok] iff by blast
  have "sj_leased_until j = None \<longleftrightarrow> sj_receipt j = None" if "j \<in> set (in_jobs s)" for j
    using jobs_okD(2) [OF ok, of "sj_id j" j] that iff by blast
  moreover have "j = k" if mem: "j \<in> set (in_jobs s)" "k \<in> set (in_jobs s)"
    and eq: "(sj_receipt j \<noteq> None \<and> sj_receipt j = sj_receipt k) \<or>
       (sj_unique_key j \<noteq> None \<and> sj_unique_key j = sj_unique_key k)" for j k
  proof (rule same [OF mem])
    from eq consider r where "sj_receipt j = Some r" "sj_receipt k = Some r"
      | q where "sj_unique_key j = Some q" "sj_unique_key k = Some q" by (metis not_None_eq)
    then show "sj_id j = sj_id k"
    proof cases
      case (1 r)
      show ?thesis by (rule jobs_ok_receipt [OF ok _ _ 1]) (simp_all add: iff mem)
    next
      case (2 q)
      then have "in_unique s q = Some (sj_id j)" "in_unique s q = Some (sj_id k)"
        using mem unique by blast+
      then show ?thesis by simp
    qed
  qed
  ultimately show ?thesis using mem_inv_distinct [OF inv] unique by (intro conjI ballI allI impI) blast+
qed

theorem mem_reachable_wellformed_witness:
  "mem_reach mem_config_default demo_leased \<and> distinct (map (\<lambda>j. sj_id j) (in_jobs demo_leased)) \<and>
   length (in_jobs demo_leased) = 1"
proof -
  have "length (in_jobs demo_leased) = 1" by code_simp
  with mem_reachable_wellformed [OF demo_leased_reach] demo_leased_reach show ?thesis by blast
qed

text \<open>C4: a resolution with a receipt that is unknown, superseded or expired is rejected as
  stale and changes nothing a later call can observe: every job looks the same from then on, and
  the dead letters, the uniqueness index and the schedules are untouched.\<close>

theorem mem_stale_rejected:
  assumes "mem_reach cfg s"
    and "\<forall>j \<in> set (in_jobs s). sj_receipt j = Some r \<longrightarrow> lease_expired t j"
    and "opn \<in> {mem_ack t r, mem_retry t r d, mem_defer t r d, mem_extend cfg t r, mem_fail cfg t r e}"
    and "opn s = (res, s')"
  shows "res = Inl (stale r) \<and> (\<forall>t' i. t \<le> t' \<longrightarrow> mem_view t' s' i = mem_view t' s i) \<and>
    in_dead s' = in_dead s \<and> in_unique s' = in_unique s \<and> in_schedules s' = in_schedules s"
proof -
  note inv = mem_reach_inv [OF assms(1)]
  have none: "\<forall>i. \<not> holds (mem_view t s) i r"
    using assms(2) by (auto simp: holds_mem_view dest: lookup_by_SomeD)
  from assms(3,4) obtain f where "with_receipt r t f s = (res, s')" by (auto simp: mem_resolve_defs)
  from with_receipt_stale [OF inv none this] show ?thesis by simp
qed

theorem mem_stale_rejected_witness:
  "fst (mem_ack (from_secs 30) (Receipt 7) demo_leased) = Inl (stale (Receipt 7))"
proof -
  have "\<forall>j \<in> set (in_jobs demo_leased). sj_receipt j = Some (Receipt 7) \<longrightarrow> lease_expired (from_secs 30) j"
    by code_simp
  from mem_stale_rejected [OF demo_leased_reach this, of "mem_ack (from_secs 30) (Receipt 7)"] show ?thesis
    by (cases "mem_ack (from_secs 30) (Receipt 7) demo_leased") simp
qed

text \<open>C7: a reservation returns the best job.  Of the visible jobs of the lane that are within
  the delivery bound, none has a higher priority than the one handed out, and none of equal
  priority became available earlier; when nothing is handed out, every visible job is over its
  bound or the sweep of one call was used up.\<close>

theorem mem_reserve_best:
  assumes "mem_reserve cfg t r l s = (Inr opt, s')"
  shows "(\<forall>rsv. opt = Some rsv \<longrightarrow> (\<exists>a \<in> set (in_jobs (release_expired t s)).
       rsv_envelope rsv = sj_envelope a \<and> mem_visible l t a \<and>
       (\<forall>j \<in> set (in_jobs (release_expired t s)). mem_visible l t j \<and> over_delivered cfg j = None \<longrightarrow>
          env_priority (sj_envelope j) \<le> env_priority (sj_envelope a) \<and>
          (env_priority (sj_envelope j) = env_priority (sj_envelope a) \<longrightarrow> sj_available_at a \<le> sj_available_at j)))) \<and>
    (opt = None \<longrightarrow>
       (\<forall>j \<in> set (in_jobs (release_expired t s)). mem_visible l t j \<longrightarrow> over_delivered cfg j \<noteq> None) \<or>
       length (in_jobs s') + MAX_DEAD_LETTER_SWEEP = length (in_jobs s))"
proof -
  let ?s = "release_expired t s"
  from assms have loop: "reserve_loop cfg t (dur_saturating_add t (mc_lease cfg)) r l 0 ?s = (opt, s')"
    by (auto simp: mem_reserve_def Let_def split: prod.splits)
  have better: "\<not> mem_better j a \<Longrightarrow> env_priority (sj_envelope j) \<le> env_priority (sj_envelope a) \<and>
      (env_priority (sj_envelope j) = env_priority (sj_envelope a) \<longrightarrow> sj_available_at a \<le> sj_available_at j)" for j a
    by (auto simp: mem_better_def not_less)
  have len: "length (in_jobs ?s) = length (in_jobs s)" by (simp add: release_expired_def)
  show ?thesis
  proof (cases opt)
    case None
    from reserve_loop_none [OF loop [unfolded None]] len None show ?thesis by (auto simp: MAX_DEAD_LETTER_SWEEP_def)
  next
    case (Some rsv)
    from reserve_loop_best [OF loop [unfolded Some]] obtain a where
      "a \<in> set (in_jobs ?s)" "mem_visible l t a" "rsv_envelope rsv = sj_envelope a"
      "\<forall>j \<in> set (in_jobs ?s). mem_visible l t j \<and> over_delivered cfg j = None \<longrightarrow> \<not> mem_better j a" by blast
    with better Some show ?thesis by auto
  qed
qed

theorem mem_reserve_best_witness:
  "\<exists>a \<in> set (in_jobs (release_expired 0 demo_store)). into_envelope (demo_job 1) = sj_envelope a \<and>
     mem_visible demo_lane 0 a"
  using mem_reserve_best [OF demo_reserve] by auto

text \<open>C8: the delivery bound.  A job that is handed out has been delivered at most as often as
  the bound, this time included, and its delivery count goes up by exactly one; one call sweeps
  at most 128 jobs to the dead letters.\<close>

theorem mem_delivery_bound:
  assumes "mem_reach cfg s" and "mem_fresh r s" and "t \<le> mem_horizon" and "mc_max_deliveries cfg = Some m"
    and "mem_reserve cfg t r l s = (Inr opt, s')"
  shows "length (in_jobs s) \<le> length (in_jobs s') + MAX_DEAD_LETTER_SWEEP \<and>
    (\<forall>rsv. opt = Some rsv \<longrightarrow>
       (\<exists>a \<in> set (in_jobs s). \<exists>b \<in> set (in_jobs s'). sj_envelope a = rsv_envelope rsv \<and> sj_envelope b = rsv_envelope rsv \<and>
          sj_receipt b = Some r \<and> sj_deliveries b \<le> m \<and>
          unat (sj_deliveries b) = min (unat (sj_deliveries a) + 1) U32_MAX))"
proof -
  from assms(5) have loop: "reserve_loop cfg t (dur_saturating_add t (mc_lease cfg)) r l 0 (release_expired t s) = (opt, s')"
    by (auto simp: mem_reserve_def Let_def split: prod.splits)
  have "length (in_jobs s) \<le> length (in_jobs s') + MAX_DEAD_LETTER_SWEEP"
    using reserve_loop_sweep_bound [OF loop] by (simp add: MAX_DEAD_LETTER_SWEEP_def release_expired_def)
  moreover have "\<exists>a \<in> set (in_jobs s). \<exists>b \<in> set (in_jobs s'). sj_envelope a = rsv_envelope rsv \<and> sj_envelope b = rsv_envelope rsv \<and>
      sj_receipt b = Some r \<and> sj_deliveries b \<le> m \<and> unat (sj_deliveries b) = min (unat (sj_deliveries a) + 1) U32_MAX"
    if "opt = Some rsv" for rsv
  proof -
    from mem_reserve_spec(5) [OF mem_reach_inv [OF assms(1)] assms(2,3,5)] that obtain a b where
      a: "jobs_by_id (in_jobs s) (sj_id a) = Some a" "rsv = reservation_new (sj_envelope a) r (mc_lease cfg)"
        "over_delivered cfg a = None"
      and b: "jobs_by_id (in_jobs s') (sj_id a) = Some b" "sj_envelope b = sj_envelope a" "sj_receipt b = Some r"
        "sj_deliveries b = u32_saturating_add (sj_deliveries a) 1" by blast
    have "sj_deliveries b \<le> m" using a(3) assms(4) b(4) by (auto simp: over_delivered_def not_less split: if_splits)
    moreover have "unat (sj_deliveries b) = min (unat (sj_deliveries a) + 1) U32_MAX"
      by (simp add: b(4) unat_u32_saturating_add)
    moreover have "a \<in> set (in_jobs s)" "b \<in> set (in_jobs s')" using a(1) b(1) by (auto dest: lookup_by_SomeD)
    ultimately show ?thesis using a(2) b(2,3) by auto
  qed
  ultimately show ?thesis by blast
qed

theorem mem_delivery_bound_witness:
  "\<exists>b \<in> set (in_jobs (snd (mem_reserve (mem_with_max_deliveries 2 mem_config_default) 0 (Receipt 7) demo_lane demo_store))).
     sj_deliveries b \<le> 2"
proof -
  let ?cfg = "mem_with_max_deliveries 2 mem_config_default"
  have m: "mc_max_deliveries ?cfg = Some 2" by (simp add: mem_with_max_deliveries_def)
  have "fst (mem_reserve ?cfg 0 (Receipt 7) demo_lane demo_store) =
      Inr (Some (reservation_new (into_envelope (demo_job 1)) (Receipt 7) DEFAULT_LEASE))" by code_simp
  then obtain s' where "mem_reserve ?cfg 0 (Receipt 7) demo_lane demo_store =
      (Inr (Some (reservation_new (into_envelope (demo_job 1)) (Receipt 7) DEFAULT_LEASE)), s')"
    by (cases "mem_reserve ?cfg 0 (Receipt 7) demo_lane demo_store") simp
  with mem_delivery_bound [OF demo_store_reach demo_store_fresh _ m this] show ?thesis by auto
qed

text \<open>C10: dead-letter retention.  Dead-lettering a job under a policy leaves the records of
  other lanes alone and keeps, of the job's lane, exactly the most recent records that are young
  enough, as many as the policy allows.\<close>

theorem mem_retention:
  assumes "i < length (in_jobs s)" and "l = sj_lane (in_jobs s ! i)"
  shows "filter (\<lambda>d. de_lane d \<noteq> l) (in_dead (dead_letter_at i err now p s)) =
      filter (\<lambda>d. de_lane d \<noteq> l) (in_dead s) \<and>
    filter (\<lambda>d. de_lane d = l) (in_dead (dead_letter_at i err now p s)) =
      retained p now (filter (\<lambda>d. de_lane d = l) (in_dead s) @
        [\<lparr> de_letter = dead_letter_new (sj_envelope (in_jobs s ! i)) err,
           de_unique_key = sj_unique_key (in_jobs s ! i), de_dead_at = now \<rparr>]) \<and>
    (\<forall>n. max_count p = Some n \<longrightarrow>
       length (filter (\<lambda>d. de_lane d = l) (in_dead (dead_letter_at i err now p s))) \<le> unat n)"
  using assms length_retained
  by (auto simp: dead_letter_at_def Let_def prune_dead_other prune_dead_retained)

theorem mem_retention_witness:
  "length (filter (\<lambda>d. de_lane d = demo_lane)
     (in_dead (dead_letter_at 0 ''boom'' 5 (with_max_count 1 retention_new) demo_store))) \<le> 1"
proof -
  have "0 < length (in_jobs demo_store)" "demo_lane = sj_lane (in_jobs demo_store ! 0)" by code_simp+
  note law = mem_retention [OF this, of "''boom''" 5 "with_max_count 1 retention_new",
      THEN conjunct2, THEN conjunct2, rule_format, of 1]
  show ?thesis using law by (simp add: with_max_count_def)
qed

text \<open>C9: requeue undoes fail.  A held job that is failed under an unbounded policy, with no earlier
  dead letter of its id, and then requeued is live again with every field of its envelope and its uniqueness key, available from
  the time of the requeue, and the dead letters are as before.\<close>

theorem mem_fail_requeue:
  assumes "mem_reach cfg s" and "holds (mem_view t s) i r" and "mem_view t s i = Some v"
    and "is_unbounded (mc_retention cfg)" and "\<forall>d \<in> set (in_dead s). de_id d \<noteq> i"
    and "mem_fail cfg t r err s = (res, s1)"
  shows "\<exists>s2. mem_requeue u i s1 = (Inr (), s2) \<and> in_dead s2 = in_dead s \<and>
    (\<forall>t'. mem_view t' s2 i = Some (v\<lparr> jv_ready := (u \<le> t'), jv_held := None \<rparr>)) \<and>
    (\<forall>t' j. j \<noteq> i \<longrightarrow> mem_view t' s2 j = mem_view t' s j)"
proof -
  note inv = mem_reach_inv [OF assms(1)]
  from with_receipt_current [OF inv assms(2)] obtain pos where
    pos: "pos < length (in_jobs s)" "sj_id (in_jobs s ! pos) = i" "\<And>f. with_receipt r t f s = (Inr (), f pos s)"
      "jobs_by_id (in_jobs s) i = Some (in_jobs s ! pos)" by blast
  let ?j = "in_jobs s ! pos"
  let ?d = "\<lparr> de_letter = dead_letter_new (sj_envelope ?j) err, de_unique_key = sj_unique_key ?j, de_dead_at = t \<rparr>"
  have s1: "in_dead s1 = in_dead s @ [?d]"
    using assms(4,6) pos(3) by (auto simp: mem_fail_def dead_letter_at_def Let_def prune_dead_unbounded)
  have drop: "mem_inv s1" "jobs_by_id (in_jobs s1) = (jobs_by_id (in_jobs s))(i := None)"
    using with_receipt_drops [OF inv assms(2) mem_fail_drops assms(6) [unfolded mem_fail_def]] by blast+
  have p: "position (\<lambda>d. de_id d = i) (in_dead s1) = Some (length (in_dead s))"
    using assms(5) pos(2) by (simp add: s1 position_append_None)
  have last: "in_dead s1 ! length (in_dead s) = ?d" by (simp add: s1)
  have free: "in_unique s1 k = None" if "sj_unique_key ?j = Some k" for k
  proof (rule ccontr)
    assume "in_unique s1 k \<noteq> None"
    then obtain j b where "jobs_by_id (in_jobs s1) j = Some b" "sj_unique_key b = Some k"
      using jobs_ok_key [OF mem_inv_ok [OF drop(1)]] by blast
    with drop(2) have "j \<noteq> i" "jobs_by_id (in_jobs s) j = Some b" by (auto split: if_splits)
    with jobs_ok_key [OF mem_inv_ok [OF inv], of k j] jobs_ok_key [OF mem_inv_ok [OF inv], of k i]
      \<open>sj_unique_key b = Some k\<close> pos(4) that show False by auto
  qed
  obtain s2 where s2: "mem_requeue u i s1 = (Inr (), s2)"
  proof (cases rule: mem_requeue_cases [of u i s1, case_names none conflict held revived])
    case (none e)
    with pos(2) show ?thesis by (simp add: s1)
  next
    case (conflict e)
    with drop(2) show ?thesis by simp
  next
    case (held e k)
    then show ?thesis using p last free by (auto simp: mem_requeue_def Let_def split: if_splits option.splits bind_splits)
  next
    case (revived pos' s2 b)
    then show ?thesis using that by blast
  qed
  from mem_requeue_law [OF drop(1) s2] obtain pos' b where
    b: "position (\<lambda>d. de_id d = i) (in_dead s1) = Some pos'" "in_dead s2 = remove_at pos' (in_dead s1)"
      "jobs_by_id (in_jobs s2) = (jobs_by_id (in_jobs s1))(i \<mapsto> b)"
      "sj_envelope b = dl_envelope (de_letter (in_dead s1 ! pos'))" "sj_available_at b = u"
      "sj_leased_until b = None" "sj_receipt b = None" "sj_unique_key b = de_unique_key (in_dead s1 ! pos')" by blast
  from b(1) p have pos': "pos' = length (in_dead s)" by simp
  have "in_dead s2 = in_dead s" by (simp add: b(2) pos' s1 remove_at_def)
  moreover have "mem_view t' s2 i = Some (v\<lparr> jv_ready := (u \<le> t'), jv_held := None \<rparr>)" for t'
    using b(3-8) last pos' assms(3) pos(4) by (auto simp: mem_view_def jview_of_def lease_expired_def)
  moreover have "mem_view t' s2 j = mem_view t' s j" if "j \<noteq> i" for t' j
    using b(3) drop(2) that by (simp add: mem_view_def)
  ultimately show ?thesis using s2 by blast
qed

theorem mem_fail_requeue_witness:
  "\<exists>s2. mem_requeue 9 (JobId 1) (snd (mem_fail mem_config_default 1 (Receipt 7) ''boom'' demo_leased)) = (Inr (), s2) \<and>
     in_dead s2 = in_dead demo_leased"
proof -
  obtain v where v: "mem_view 1 demo_leased (JobId 1) = Some v" using demo_leased_held by (auto simp: holds_def)
  have un: "is_unbounded (mc_retention mem_config_default)" by code_simp
  have dead: "\<forall>d \<in> set (in_dead demo_leased). de_id d \<noteq> JobId 1" by code_simp
  from mem_fail_requeue [OF demo_leased_reach demo_leased_held v un dead surjective_pairing, where err = "''boom''" and u = 9]
  show ?thesis by blast
qed

text \<open>C12: a batch is all or nothing.  One job over the size cap rejects the whole batch and
  leaves the store as it was; otherwise the batch does what enqueueing its jobs in order does.\<close>

theorem mem_batch_atomic:
  "((\<exists>j \<in> set js. length (nj_payload j) > MAX_ENVELOPE_BYTES) \<longrightarrow>
      (\<exists>m. mem_enqueue_batch t js s = (Inl (Serialization m), s))) \<and>
   ((\<forall>j \<in> set js. length (nj_payload j) \<le> MAX_ENVELOPE_BYTES) \<longrightarrow>
      mem_enqueue_batch t js s = (Inr (fst (insert_all js t s)), fold (\<lambda>j s. snd (mem_enqueue t j s)) js s) \<and>
      length (fst (insert_all js t s)) = length js)"
proof -
  have over: "\<exists>m. check_all js = Inl (Serialization m)" if "\<exists>j \<in> set js. length (nj_payload j) > MAX_ENVELOPE_BYTES" for js
    using that by (induction js) (auto simp: check_payload_size_def)
  have fits: "check_all js = Inr ()" if "\<forall>j \<in> set js. length (nj_payload j) \<le> MAX_ENVELOPE_BYTES" for js
    using that by (induction js) (auto simp: check_payload_size_def)
  have ins: "snd (insert_all js t s) = fold (\<lambda>j s. snd (mem_enqueue t j s)) js s"
    if "\<forall>j \<in> set js. length (nj_payload j) \<le> MAX_ENVELOPE_BYTES" for s
    using that
  proof (induction js arbitrary: s)
    case (Cons j js)
    obtain i s1 where i: "insert_one j t s = (i, s1)" by (cases "insert_one j t s")
    with Cons.prems have "snd (mem_enqueue t j s) = s1" by (simp add: mem_enqueue_def check_payload_size_def)
    with Cons i show ?case by (simp add: case_prod_beta)
  qed simp
  have len: "length (fst (insert_all js t s)) = length js" for s
    by (induction js arbitrary: s) (auto simp: case_prod_beta Let_def)
  show ?thesis
  proof (intro conjI impI)
    assume "\<exists>j \<in> set js. length (nj_payload j) > MAX_ENVELOPE_BYTES"
    with over [of js] show "\<exists>m. mem_enqueue_batch t js s = (Inl (Serialization m), s)"
      by (auto simp: mem_enqueue_batch_def)
  next
    assume "\<forall>j \<in> set js. length (nj_payload j) \<le> MAX_ENVELOPE_BYTES"
    with fits [of js] ins [of s] show "mem_enqueue_batch t js s =
        (Inr (fst (insert_all js t s)), fold (\<lambda>j s. snd (mem_enqueue t j s)) js s)"
      by (simp add: mem_enqueue_batch_def case_prod_beta)
  qed (rule len)
qed

theorem mem_batch_atomic_witness:
  "mem_enqueue_batch 3 [demo_job 2, demo_job 3] demo_store =
     (Inr (fst (insert_all [demo_job 2, demo_job 3] 3 demo_store)),
      fold (\<lambda>j s. snd (mem_enqueue 3 j s)) [demo_job 2, demo_job 3] demo_store) \<and>
   fst (insert_all [demo_job 2, demo_job 3] 3 demo_store) = [JobId 2, JobId 3]"
proof -
  have "\<forall>j \<in> set [demo_job 2, demo_job 3]. length (nj_payload j) \<le> MAX_ENVELOPE_BYTES" by code_simp
  moreover have "fst (insert_all [demo_job 2, demo_job 3] 3 demo_store) = [JobId 2, JobId 3]" by code_simp
  ultimately show ?thesis using mem_batch_atomic [of "[demo_job 2, demo_job 3]" 3 demo_store] by blast
qed

text \<open>A sequence of claims on schedules by any schedulers, and the occurrences of one schedule
  that won.\<close>

fun claim_wins :: "string \<Rightarrow> (duration \<times> string \<times> int \<times> new_job) list \<Rightarrow> inner \<Rightarrow> int list" where
  "claim_wins sid [] s = []"
| "claim_wins sid ((t, sid', occ, nj) # cs) s =
     (let (won, s') = mem_enqueue_scheduled t sid' occ nj s
      in (if won = Inr True \<and> sid' = sid then [occ] else []) @ claim_wins sid cs s')"

lemma mem_enqueue_scheduled_watermark:
  assumes "mem_enqueue_scheduled t sid' occ nj s = (won, s')"
  shows "in_schedules s' sid = (if won = Inr True \<and> sid' = sid then Some occ else in_schedules s sid)"
    and "won = Inr True \<Longrightarrow> \<forall>prev. in_schedules s sid' = Some prev \<longrightarrow> prev < occ"
proof -
  have keep: "in_schedules (snd (insert_one nj t u)) = in_schedules u" for u
    by (cases rule: insert_one_cases [of u nj t, case_names live key new]) auto
  from assms show "in_schedules s' sid = (if won = Inr True \<and> sid' = sid then Some occ else in_schedules s sid)"
    and "won = Inr True \<Longrightarrow> \<forall>prev. in_schedules s sid' = Some prev \<longrightarrow> prev < occ"
    by (auto simp: mem_enqueue_scheduled_def Let_def keep split: if_splits option.splits)
qed

text \<open>C11: no occurrence of a schedule fires twice.  Over any sequence of claims, whatever
  schedulers they come from and in whatever order, the occurrences of a schedule that win are
  strictly increasing and above the recorded one.\<close>

theorem mem_schedule_claims_increase:
  "sorted_wrt (<) (claim_wins sid cs s) \<and>
   (\<forall>occ \<in> set (claim_wins sid cs s). \<forall>prev. in_schedules s sid = Some prev \<longrightarrow> prev < occ)"
proof (induction cs arbitrary: s)
  case Nil
  then show ?case by simp
next
  case (Cons c cs)
  obtain t sid' occ nj where c: "c = (t, sid', occ, nj)" by (cases c)
  obtain won s' where run: "mem_enqueue_scheduled t sid' occ nj s = (won, s')"
    by (cases "mem_enqueue_scheduled t sid' occ nj s")
  note mark = mem_enqueue_scheduled_watermark [OF run]
  show ?case
  proof (cases "won = Inr True \<and> sid' = sid")
    case True
    then have "\<forall>w \<in> set (claim_wins sid cs s'). occ < w" using Cons.IH [of s'] mark(1) [of sid] by auto
    moreover from True run c have "claim_wins sid (c # cs) s = occ # claim_wins sid cs s'" by auto
    moreover have "\<forall>prev. in_schedules s sid = Some prev \<longrightarrow> prev < occ" using mark(2) True by blast
    ultimately show ?thesis using Cons.IH [of s'] by (auto intro: less_trans)
  next
    case False
    with run c have "claim_wins sid (c # cs) s = claim_wins sid cs s'" by auto
    with Cons.IH [of s'] mark(1) [of sid] False show ?thesis by simp
  qed
qed

theorem mem_schedule_claims_increase_witness:
  "claim_wins ''d'' [(0, ''d'', 5, demo_job 1), (1, ''d'', 5, demo_job 2), (2, ''d'', 9, demo_job 3)] mem_with_clock = [5, 9] \<and>
   sorted_wrt (<) (claim_wins ''d'' [(0, ''d'', 5, demo_job 1), (1, ''d'', 5, demo_job 2), (2, ''d'', 9, demo_job 3)] mem_with_clock)"
proof -
  have "claim_wins ''d'' [(0, ''d'', 5, demo_job 1), (1, ''d'', 5, demo_job 2), (2, ''d'', 9, demo_job 3)] mem_with_clock = [5, 9]"
    by code_simp
  with mem_schedule_claims_increase show ?thesis by blast
qed

text \<open>C6: what a resolution does.  With a current receipt, ack removes the job, retry counts one
  attempt (never wrapping) and hides the job for the delay, defer hides it without counting, and
  extend renews the lease; every other job is left as it is.\<close>

theorem mem_resolution_effects:
  assumes "mem_reach cfg s" and "holds (mem_view t s) i r" and "mem_view t s i = Some v" and "t \<le> t'" and "t' \<le> mem_horizon"
  shows "mem_view t' (snd (mem_ack t r s)) i = None \<and>
    mem_view t' (snd (mem_retry t r d s)) i = Some (v\<lparr> jv_envelope := bump_attempts (jv_envelope v),
        jv_ready := (t + d \<le> t'), jv_held := None \<rparr>) \<and>
    unat (env_attempts (bump_attempts (jv_envelope v))) = min (unat (env_attempts (jv_envelope v)) + 1) U32_MAX \<and>
    mem_view t' (snd (mem_defer t r d s)) i = Some (v\<lparr> jv_ready := (t + d \<le> t'), jv_held := None \<rparr>) \<and>
    holds (mem_view t' (snd (mem_extend cfg t r s))) i r = (t' < t + mc_lease cfg) \<and>
    (\<forall>j. j \<noteq> i \<longrightarrow> mem_view t' (snd (mem_ack t r s)) j = mem_view t' s j \<and>
       mem_view t' (snd (mem_retry t r d s)) j = mem_view t' s j \<and>
       mem_view t' (snd (mem_defer t r d s)) j = mem_view t' s j \<and>
       mem_view t' (snd (mem_extend cfg t r s)) j = mem_view t' s j \<and>
       mem_view t' (snd (mem_fail cfg t r e s)) j = mem_view t' s j)"
proof -
  note inv = mem_reach_inv [OF assms(1)] and cur = assms(2)
  have frame: "mem_view t' (snd (opn s)) j = mem_view t' s j" if "j \<noteq> i"
    and "opn \<in> {mem_ack t r, mem_retry t r d, mem_defer t r d, mem_extend cfg t r, mem_fail cfg t r e}" for opn j
    using mem_resolve_current [OF inv cur that(2) surjective_pairing] that(1) by blast
  obtain v' where "mem_view t' (snd (mem_extend cfg t r s)) i = Some v'"
    "jv_held v' = (if t' < t + mc_lease cfg then Some r else None)"
    using mem_extend_view [OF inv cur assms(3) surjective_pairing assms(4,5)] by blast
  then have ext: "holds (mem_view t' (snd (mem_extend cfg t r s))) i r = (t' < t + mc_lease cfg)"
    by (simp add: holds_def)
  have att: "unat (env_attempts (bump_attempts (jv_envelope v))) = min (unat (env_attempts (jv_envelope v)) + 1) U32_MAX"
    by (simp add: bump_attempts_def unat_u32_saturating_add)
  show ?thesis
    using mem_drop_view(1) [OF inv cur surjective_pairing, of t'] mem_retry_view [OF inv cur assms(3) surjective_pairing assms(5), of d]
      mem_defer_view [OF inv cur assms(3) surjective_pairing assms(5), of d] ext att frame by simp
qed

theorem mem_resolution_effects_witness:
  "mem_view 2 (snd (mem_ack 1 (Receipt 7) demo_leased)) (JobId 1) = None \<and>
   holds (mem_view 2 (snd (mem_extend mem_config_default 1 (Receipt 7) demo_leased))) (JobId 1) (Receipt 7)"
proof -
  obtain v where v: "mem_view 1 demo_leased (JobId 1) = Some v" using demo_leased_held by (auto simp: holds_def)
  from mem_resolution_effects [OF demo_leased_reach demo_leased_held v, of 2 0] show ?thesis
    by (simp add: DURATION_MAX_def mem_config_default_def DEFAULT_LEASE_def from_secs_def)
qed

end
