(* ===== verification/Clocks.thy ===== *)
theory Clocks
  imports Prelude
begin

text \<open>
  The wall clock of \<^verbatim>\<open>worklane-core/src/clock.rs\<close>.  The reading of \<^verbatim>\<open>SystemTime\<close> since the
  epoch is an argument (\<open>None\<close> when the system time is before the epoch); \<^verbatim>\<open>fetch_max\<close> on the
  atomic floor is one atomic step, so a reading is a function of the state it finds.
\<close>

definition MIN_FORWARD_JUMP_THRESHOLD :: duration where
  "MIN_FORWARD_JUMP_THRESHOLD = from_millis 1"

record wall_clock =
  floor_nanos :: nat
  jump_threshold_nanos :: "nat option"
  forward_jumps :: u64

definition wall_clock_new :: wall_clock where
  "wall_clock_new = \<lparr> floor_nanos = 0, jump_threshold_nanos = None, forward_jumps = 0 \<rparr>"

definition u64_of_nat_sat :: "nat \<Rightarrow> nat" where
  "u64_of_nat_sat n = (if n \<le> U64_MAX then n else U64_MAX)"

definition with_jump_threshold :: "duration \<Rightarrow> wall_clock \<Rightarrow> wall_clock" where
  "with_jump_threshold t c =
     c\<lparr> jump_threshold_nanos := Some (u64_of_nat_sat (max t MIN_FORWARD_JUMP_THRESHOLD)) \<rparr>"

definition raw_nanos :: "duration option \<Rightarrow> nat" where
  "raw_nanos since_epoch = u64_of_nat_sat (case since_epoch of Some d \<Rightarrow> d | None \<Rightarrow> 0)"

definition observe_forward_jump :: "nat \<Rightarrow> nat \<Rightarrow> wall_clock \<Rightarrow> wall_clock" where
  "observe_forward_jump prev raw c =
     (case jump_threshold_nanos c of
        None \<Rightarrow> c
      | Some threshold \<Rightarrow>
          if prev = 0 \<or> raw \<le> prev then c
          else if raw - prev > threshold then c\<lparr> forward_jumps := forward_jumps c + 1 \<rparr>
          else c)"

definition wall_now :: "duration option \<Rightarrow> wall_clock \<Rightarrow> duration \<times> wall_clock" where
  "wall_now since_epoch c =
     (let raw = raw_nanos since_epoch; prev = floor_nanos c;
          c' = c\<lparr> floor_nanos := max prev raw \<rparr>
      in (max raw prev, observe_forward_jump prev raw c'))"

text \<open>A sequence of readings.\<close>

fun wall_readings :: "duration option list \<Rightarrow> wall_clock \<Rightarrow> duration list" where
  "wall_readings [] c = []"
| "wall_readings (t # ts) c = (let (d, c') = wall_now t c in d # wall_readings ts c')"

lemma observe_forward_jump_floor [simp]: "floor_nanos (observe_forward_jump p r c) = floor_nanos c"
  by (simp add: observe_forward_jump_def split: option.split)

lemma wall_now_floor: "wall_now t c = (d, c') \<Longrightarrow> floor_nanos c' = d \<and> floor_nanos c \<le> d \<and> raw_nanos t \<le> d"
  by (auto simp: wall_now_def Let_def max.commute)

lemma wall_readings_above: "d \<in> set (wall_readings ts c) \<Longrightarrow> floor_nanos c \<le> d"
proof (induction ts arbitrary: c)
  case (Cons t ts)
  obtain x c' where x: "wall_now t c = (x, c')" by (cases "wall_now t c")
  with Cons wall_now_floor [OF x] show ?case by (auto intro: le_trans)
qed simp

lemma wall_readings_sorted: "sorted (wall_readings ts c)"
proof (induction ts arbitrary: c)
  case (Cons t ts)
  obtain x c' where x: "wall_now t c = (x, c')" by (cases "wall_now t c")
  with Cons wall_now_floor [OF x] show ?case by (auto dest: wall_readings_above)
qed simp

text \<open>C38: the wall clock never goes backward, whatever the system time does: a sequence of
  readings is sorted, and each is at least the time the system reports at that moment.\<close>

theorem wall_clock_monotonic:
  "sorted (wall_readings ts c) \<and>
   list_all2 (\<lambda>t d. raw_nanos t \<le> d) ts (wall_readings ts c)"
proof -
  have "list_all2 (\<lambda>t d. raw_nanos t \<le> d) ts (wall_readings ts c)" for c
  proof (induction ts arbitrary: c)
    case (Cons t ts)
    obtain x c' where x: "wall_now t c = (x, c')" by (cases "wall_now t c")
    with Cons wall_now_floor [OF x] show ?case by simp
  qed simp
  with wall_readings_sorted show ?thesis by blast
qed

end
