(* ===== verification/Float64.thy ===== *)
theory Float64
  imports Complex_Main Prelude
begin

text \<open>
  The part of IEEE double precision that the retry jitter uses.  A finite \<^verbatim>\<open>f64\<close> is the rational
  it denotes (the sign of a zero plays no part in the code modelled).  Every operation rounds the
  exact rational to the nearest multiple of the unit in the last place, ties to even, with the
  gradual underflow below \<open>2\<close> to the power \<open>-1022\<close>; no value of the code comes near overflow.
\<close>

datatype f64 = NaN | Infinity bool | Finite rat

fun f64_is_finite :: "f64 \<Rightarrow> bool" where
  "f64_is_finite (Finite x) = True"
| "f64_is_finite _ = False"

fun ilog2 :: "nat \<Rightarrow> nat" where
  "ilog2 n = (if n < 2 then 0 else Suc (ilog2 (n div 2)))"

declare ilog2.simps [simp del]

lemma ilog2_bounds: "0 < n \<Longrightarrow> 2 ^ ilog2 n \<le> n \<and> n < 2 ^ Suc (ilog2 n)"
proof (induction n rule: ilog2.induct)
  case (1 n)
  show ?case
  proof (cases "n < 2")
    case True
    with "1.prems" show ?thesis by (simp add: ilog2.simps [of n])
  next
    case False
    with "1.IH" have "2 ^ ilog2 (n div 2) \<le> n div 2 \<and> n div 2 < 2 ^ Suc (ilog2 (n div 2))" by simp
    with False show ?thesis by (auto simp: ilog2.simps [of n])
  qed
qed

lemma ilog2_of_int:
  assumes "0 < n"
  shows "(2 :: rat) ^ ilog2 (nat n) \<le> of_int n" and "of_int n < (2 :: rat) ^ Suc (ilog2 (nat n))"
proof -
  have eq: "(of_nat (nat n) :: rat) = of_int n" using assms by simp
  from assms have b: "2 ^ ilog2 (nat n) \<le> nat n" "nat n < 2 ^ Suc (ilog2 (nat n))"
    using ilog2_bounds [of "nat n"] by auto
  have "(of_nat (2 ^ ilog2 (nat n)) :: rat) \<le> of_nat (nat n)" by (rule of_nat_mono) (rule b(1))
  then show "(2 :: rat) ^ ilog2 (nat n) \<le> of_int n" unfolding eq by (simp only: of_nat_power of_nat_numeral)
  have "(of_nat (nat n) :: rat) < of_nat (2 ^ Suc (ilog2 (nat n)))" using b(2) by (simp only: of_nat_less_iff)
  then show "of_int n < (2 :: rat) ^ Suc (ilog2 (nat n))" unfolding eq by (simp only: of_nat_power of_nat_numeral)
qed

text \<open>The binary exponent of a positive rational, from its numerator and denominator.\<close>

definition bin_exp :: "rat \<Rightarrow> int" where
  "bin_exp x =
     (let (n, d) = quotient_of x; e = int (ilog2 (nat n)) - int (ilog2 (nat d))
      in if 2 powi e \<le> x then e else e - 1)"

lemma bin_exp_bounds:
  assumes "0 < x"
  shows "2 powi bin_exp x \<le> x" and "x < 2 powi (bin_exp x + 1)"
proof -
  obtain n d where q: "quotient_of x = (n, d)" by (cases "quotient_of x")
  have d: "0 < d" and x: "x = of_int n / of_int d"
    using quotient_of_denom_pos [OF q] quotient_of_div [OF q] by auto
  with assms have n: "0 < n" by (simp add: zero_less_divide_iff)
  define a b where "a = ilog2 (nat n)" and "b = ilog2 (nat d)"
  from ilog2_of_int [OF n] have na: "(2 :: rat) ^ a \<le> of_int n" "of_int n < (2 :: rat) ^ (a + 1)"
    by (simp_all add: a_def)
  from ilog2_of_int [OF d] have db: "(2 :: rat) ^ b \<le> of_int d" "of_int d < (2 :: rat) ^ (b + 1)"
    by (simp_all add: b_def)
  define e where "e = int a - int b"
  have pe: "(2 :: rat) powi e = 2 ^ a / 2 ^ b"
    by (simp add: e_def power_int_diff)
  have up: "x < 2 powi (e + 1)"
  proof -
    have "x < 2 ^ (a + 1) / of_int d" unfolding x using na(2) d by (simp add: divide_strict_right_mono)
    also have "\<dots> \<le> 2 ^ (a + 1) / 2 ^ b" using db(1) d by (intro divide_left_mono) auto
    also have "\<dots> = 2 powi (e + 1)" using pe by (simp add: power_int_add)
    finally show ?thesis .
  qed
  have low: "2 powi (e - 1) \<le> x"
  proof -
    have "2 powi (e - 1) = (2 :: rat) ^ a / 2 ^ (b + 1)" using pe by (simp add: power_int_diff)
    also have "\<dots> \<le> 2 ^ a / of_int d" using db(2) d by (intro divide_left_mono) auto
    also have "\<dots> \<le> x" unfolding x using na(1) d by (intro divide_right_mono) auto
    finally show ?thesis .
  qed
  have be: "bin_exp x = (if 2 powi e \<le> x then e else e - 1)"
    by (simp add: bin_exp_def q a_def b_def e_def Let_def)
  show "2 powi bin_exp x \<le> x" "x < 2 powi (bin_exp x + 1)"
    using up low by (auto simp: be)
qed

definition ulp_exp :: "rat \<Rightarrow> int" where
  "ulp_exp x = (if x = 0 then - 1022 else max (bin_exp x) (- 1022)) - 52"

definition ulp :: "rat \<Rightarrow> rat" where
  "ulp x = 2 powi ulp_exp x"

definition round_even :: "rat \<Rightarrow> int" where
  "round_even y =
     (let f = \<lfloor>y\<rfloor>; r = y - of_int f
      in if r < 1 / 2 then f else if 1 / 2 < r then f + 1 else if even f then f else f + 1)"

definition round_f64 :: "rat \<Rightarrow> rat" where
  "round_f64 x = of_int (round_even (x / ulp x)) * ulp x"

definition f64_mul :: "rat \<Rightarrow> rat \<Rightarrow> rat" where "f64_mul x y = round_f64 (x * y)"
definition f64_sub :: "rat \<Rightarrow> rat \<Rightarrow> rat" where "f64_sub x y = round_f64 (x - y)"
definition f64_div :: "rat \<Rightarrow> rat \<Rightarrow> rat" where "f64_div x y = round_f64 (x / y)"
definition f64_of_nat :: "nat \<Rightarrow> rat" where "f64_of_nat n = round_f64 (of_nat n)"

text \<open>\<^verbatim>\<open>x as u64\<close>: towards zero, saturating.\<close>

definition f64_as_u64 :: "rat \<Rightarrow> nat" where
  "f64_as_u64 x = min (nat \<lfloor>x\<rfloor>) U64_MAX"

text \<open>A rational is an \<^verbatim>\<open>f64\<close> when it is a multiple of its unit in the last place and the
  multiplier fits the significand.\<close>

definition is_f64 :: "rat \<Rightarrow> bool" where
  "is_f64 x \<longleftrightarrow> x / ulp x = of_int \<lfloor>x / ulp x\<rfloor>"

lemma ulp_pos [simp]: "0 < ulp x"
  by (simp add: ulp_def)

lemma round_even_le_iff: "y \<le> of_int m \<Longrightarrow> round_even y \<le> m"
proof -
  assume y: "y \<le> of_int m"
  show ?thesis
  proof (cases "y = of_int m")
    case True
    then show ?thesis by (simp add: round_even_def)
  next
    case False
    with y have "\<lfloor>y\<rfloor> < m" by (simp add: floor_less_iff)
    then show ?thesis by (auto simp: round_even_def Let_def)
  qed
qed

lemma round_even_nonneg: "0 \<le> y \<Longrightarrow> 0 \<le> round_even y"
  by (auto simp: round_even_def Let_def)

lemma round_even_error: "\<bar>of_int (round_even y) - y\<bar> \<le> 1 / 2"
proof -
  define f where "f = \<lfloor>y\<rfloor>"
  have "of_int f \<le> y" "y < of_int f + 1" by (simp_all add: f_def) linarith
  then show ?thesis unfolding round_even_def f_def [symmetric] Let_def abs_le_iff by auto
qed

lemma round_even_of_int [simp]: "round_even (of_int m) = m"
  by (simp add: round_even_def)

lemma round_f64_nonneg: "0 \<le> x \<Longrightarrow> 0 \<le> round_f64 x"
  by (simp add: round_f64_def round_even_nonneg less_imp_le)

lemma round_f64_error: "\<bar>round_f64 x - x\<bar> \<le> ulp x / 2"
proof -
  have "round_f64 x - x = (of_int (round_even (x / ulp x)) - x / ulp x) * ulp x"
    by (simp add: round_f64_def left_diff_distrib less_imp_neq [OF ulp_pos, symmetric])
  then have "\<bar>round_f64 x - x\<bar> = \<bar>of_int (round_even (x / ulp x)) - x / ulp x\<bar> * ulp x"
    by (simp add: abs_mult less_imp_le)
  also have "\<dots> \<le> 1 / 2 * ulp x"
    using round_even_error [of "x / ulp x"] by (intro mult_right_mono) (auto simp: less_imp_le)
  finally show ?thesis by simp
qed

lemma round_f64_id: "is_f64 x \<Longrightarrow> round_f64 x = x"
proof -
  assume f: "is_f64 x"
  define m where "m = \<lfloor>x / ulp x\<rfloor>"
  from f have "x / ulp x = of_int m" by (simp add: is_f64_def m_def)
  then have "round_f64 x = of_int m * ulp x" by (simp only: round_f64_def round_even_of_int)
  moreover from \<open>x / ulp x = of_int m\<close> have "x = of_int m * ulp x"
    using ulp_pos [of x] by (simp add: divide_eq_eq)
  ultimately show ?thesis by simp
qed

lemma bin_exp_mono:
  assumes "0 < x" and "x \<le> y"
  shows "bin_exp x \<le> bin_exp y"
proof (rule ccontr)
  assume "\<not> ?thesis"
  then have "(2 :: rat) powi (bin_exp y + 1) \<le> 2 powi bin_exp x" by (intro power_int_increasing) auto
  with bin_exp_bounds(1) [OF assms(1)] bin_exp_bounds(2) [of y] assms show False by auto
qed

text \<open>Rounding does not pass a double that bounds the exact value from above.\<close>

lemma round_f64_le:
  assumes "0 \<le> x" and "x \<le> r" and "is_f64 r"
  shows "round_f64 x \<le> r"
proof (cases "x = 0")
  case True
  then show ?thesis using assms by (simp add: round_f64_def round_even_def)
next
  case False
  with assms have x: "0 < x" and r: "0 < r" by auto
  show ?thesis
  proof (cases "ulp_exp x = ulp_exp r")
    case True
    then have u: "ulp x = ulp r" by (simp add: ulp_def)
    define m where "m = \<lfloor>r / ulp r\<rfloor>"
    from assms(3) have m: "r / ulp r = of_int m" by (simp add: is_f64_def m_def)
    have "x / ulp x \<le> of_int m" unfolding m [symmetric] u using assms(2) by (intro divide_right_mono) (auto simp: less_imp_le)
    then have "round_even (x / ulp x) \<le> m" by (rule round_even_le_iff)
    then have "round_f64 x \<le> of_int m * ulp x"
      unfolding round_f64_def by (intro mult_right_mono) (auto simp: less_imp_le)
    also have "of_int m * ulp x = r" using m u by (simp add: divide_eq_eq less_imp_neq [OF ulp_pos, symmetric])
    finally show ?thesis .
  next
    case False
    define e where "e = max (bin_exp x) (- 1022)"
    from bin_exp_mono [OF x assms(2)] False x r have be: "bin_exp x < bin_exp r" "e + 1 \<le> bin_exp r"
      by (auto simp: ulp_exp_def e_def max_def split: if_splits)
    have "x < 2 powi (bin_exp x + 1)" by (rule bin_exp_bounds(2) [OF x])
    also have "\<dots> \<le> 2 powi (e + 1)" by (intro power_int_increasing) (auto simp: e_def)
    finally have up: "x \<le> 2 powi (e + 1)" by simp
    have ux: "ulp x = 2 powi (e - 52)" using x by (simp add: ulp_def ulp_exp_def e_def)
    have big: "(2 :: rat) powi (e + 1) = of_int (2 ^ 53) * ulp x"
      unfolding ux by (simp add: power_int_add power_int_diff)
    from up have "x / ulp x \<le> of_int (2 ^ 53)" unfolding big by (simp add: pos_divide_le_eq)
    then have "round_even (x / ulp x) \<le> 2 ^ 53" by (rule round_even_le_iff)
    then have "(of_int (round_even (x / ulp x)) :: rat) \<le> of_int (2 ^ 53)" by (simp only: of_int_le_iff)
    then have "round_f64 x \<le> 2 powi (e + 1)" unfolding big round_f64_def
      by (intro mult_right_mono) (auto simp: less_imp_le)
    also have "\<dots> \<le> 2 powi bin_exp r" using be by (intro power_int_increasing) auto
    also have "\<dots> \<le> r" by (rule bin_exp_bounds(1) [OF r])
    finally show ?thesis .
  qed
qed

lemma is_f64I: "x / ulp x = of_int m \<Longrightarrow> is_f64 x"
  by (simp only: is_f64_def floor_of_int)

lemma of_nat_power_leD: "(2 :: rat) ^ k \<le> of_nat n \<Longrightarrow> 2 ^ k \<le> n"
proof -
  assume "(2 :: rat) ^ k \<le> of_nat n"
  then have "of_nat (2 ^ k) \<le> (of_nat n :: rat)" by (simp only: of_nat_power of_nat_numeral)
  then show ?thesis by (simp only: of_nat_le_iff)
qed

text \<open>The whole numbers up to \<open>2 ^ 53\<close> are exact.\<close>

lemma is_f64_of_nat:
  assumes "n \<le> 2 ^ 53"
  shows "is_f64 (of_nat n)"
proof (cases "n = 0")
  case True
  then show ?thesis by (simp add: is_f64_def)
next
  case False
  define e where "e = bin_exp (of_nat n)"
  have pos: "(0 :: rat) < of_nat n" using False by simp
  have e0: "0 \<le> e"
  proof (rule ccontr)
    assume "\<not> 0 \<le> e"
    then have "(2 :: rat) powi (e + 1) \<le> 2 powi 0" by (intro power_int_increasing) auto
    with bin_exp_bounds(2) [OF pos] False show False by (simp add: e_def)
  qed
  have e53: "e \<le> 53"
  proof (rule ccontr)
    assume "\<not> e \<le> 53"
    then have "(2 :: rat) powi 54 \<le> 2 powi e" by (intro power_int_increasing) auto
    also have "\<dots> \<le> of_nat n" unfolding e_def by (rule bin_exp_bounds(1) [OF pos])
    finally have "(2 :: rat) ^ 54 \<le> of_nat n" by (simp only: power_int_numeral)
    then have "(2 :: nat) ^ 54 \<le> n" by (rule of_nat_power_leD)
    with assms show False by simp
  qed
  have u: "ulp (of_nat n) = 2 powi (e - 52)" using e0 False by (simp add: ulp_def ulp_exp_def e_def)
  show ?thesis
  proof (cases "e = 53")
    case True
    with bin_exp_bounds(1) [OF pos] have "(2 :: rat) powi 53 \<le> of_nat n" by (simp only: e_def)
    then have "(2 :: rat) ^ 53 \<le> of_nat n" by (simp only: power_int_numeral)
    then have "2 ^ 53 \<le> n" by (rule of_nat_power_leD)
    with assms have "n = 2 ^ 53" by (rule le_antisym)
    moreover from True u have "ulp (of_nat n) = 2" by simp
    ultimately have "of_nat n / ulp (of_nat n) = (of_int (2 ^ 52) :: rat)" by (simp only: of_nat_power) simp
    then show ?thesis by (rule is_f64I)
  next
    case False
    with e53 have "e - 52 = - int (nat (52 - e))" by simp
    then have "ulp (of_nat n) = 2 powi (- int (nat (52 - e)))" using u by presburger
    then have "ulp (of_nat n) = 1 / 2 ^ nat (52 - e)" by (simp only: power_int_minus divide_inverse power_int_of_nat mult_1)
    then have "of_nat n / ulp (of_nat n) = (of_int (int n * 2 ^ nat (52 - e)) :: rat)" by simp
    then show ?thesis by (rule is_f64I)
  qed
qed

lemma f64_of_nat_exact: "n \<le> 2 ^ 53 \<Longrightarrow> f64_of_nat n = of_nat n"
  unfolding f64_of_nat_def by (rule round_f64_id) (rule is_f64_of_nat)

lemma ulp_mono:
  assumes "0 \<le> x" and "x \<le> y"
  shows "ulp x \<le> ulp y"
proof -
  have "ulp_exp x \<le> ulp_exp y"
  proof (cases "x = 0")
    case True
    then show ?thesis by (auto simp: ulp_exp_def max_def)
  next
    case False
    with assms have "0 < x" "y \<noteq> 0" by auto
    with bin_exp_mono [OF \<open>0 < x\<close> assms(2)] show ?thesis by (auto simp: ulp_exp_def)
  qed
  then show ?thesis unfolding ulp_def by (intro power_int_increasing) auto
qed

lemma ulp_upper:
  assumes "0 \<le> x" and "x \<le> 2 ^ k"
  shows "ulp x \<le> 2 powi (int k - 52)"
proof -
  have "bin_exp (2 ^ k) \<le> int k"
  proof (rule ccontr)
    assume "\<not> ?thesis"
    then have "(2 :: rat) powi (int k + 1) \<le> 2 powi bin_exp (2 ^ k)" by (intro power_int_increasing) auto
    also have "\<dots> \<le> 2 ^ k" by (rule bin_exp_bounds(1)) simp
    finally show False by (simp add: power_int_add)
  qed
  then have "ulp_exp (2 ^ k) \<le> int k - 52" by (simp add: ulp_exp_def)
  then have "ulp (2 ^ k) \<le> 2 powi (int k - 52)" unfolding ulp_def by (intro power_int_increasing) auto
  with ulp_mono [OF assms] show ?thesis by (rule order_trans)
qed

end
