(* ===== verification/Retry.thy ===== *)
theory Retry
  imports Float64
begin

text \<open>
  The capped exponential backoff of \<^verbatim>\<open>worklane-core/src/retry.rs\<close>.  The growth is computed in
  \<^verbatim>\<open>u128\<close> nanoseconds with a checked power and a saturating product.  The jittered variant hashes
  the seed and the attempt to a fraction (\<open>jitter_hash\<close>, in wrapping 64-bit arithmetic) and scales
  the delay in double precision, with the rounding of theory \<open>Float64\<close>.
\<close>

record retry_policy =
  rp_base :: duration
  rp_factor :: u32
  rp_cap :: duration
  rp_jitter :: f64

definition retry_policy_default :: retry_policy where
  "retry_policy_default = \<lparr> rp_base = from_secs 1, rp_factor = 2, rp_cap = from_secs 60,
       rp_jitter = Finite 0 \<rparr>"

text \<open>\<^verbatim>\<open>u128::checked_pow\<close> and \<^verbatim>\<open>u128::saturating_mul\<close>.\<close>

definition u128_checked_pow :: "nat \<Rightarrow> nat \<Rightarrow> nat option" where
  "u128_checked_pow b e = (if b ^ e \<le> U128_MAX then Some (b ^ e) else None)"

definition u128_saturating_mul :: "nat \<Rightarrow> nat \<Rightarrow> nat" where
  "u128_saturating_mul a b = min (a * b) U128_MAX"

definition delay_for :: "retry_policy \<Rightarrow> u32 \<Rightarrow> duration" where
  "delay_for p attempts =
     (let multiplier = (case u128_checked_pow (unat (rp_factor p)) (unat attempts) of
                          Some m \<Rightarrow> m | None \<Rightarrow> U128_MAX);
          scaled = u128_saturating_mul (rp_base p) multiplier;
          capped = min scaled (rp_cap p)
      in min (min capped U64_MAX) (rp_cap p))"

definition jitter_hash :: "u32 \<Rightarrow> u64 \<Rightarrow> u64" where
  "jitter_hash attempts seed =
     (let z0 = xor seed (ucast attempts * 0x9E3779B97F4A7C15);
          z1 = xor z0 (drop_bit 30 z0) * 0xBF58476D1CE4E5B9;
          z2 = xor z1 (drop_bit 27 z1) * 0x94D049BB133111EB
      in xor z2 (drop_bit 31 z2))"

definition jitter_frac :: "u32 \<Rightarrow> u64 \<Rightarrow> rat" where
  "jitter_frac attempts seed =
     f64_div (f64_of_nat (unat (drop_bit 11 (jitter_hash attempts seed)))) (f64_of_nat (2 ^ 53))"

definition delay_for_seeded :: "retry_policy \<Rightarrow> u32 \<Rightarrow> u64 \<Rightarrow> duration" where
  "delay_for_seeded p attempts seed =
     (let base = delay_for p attempts
      in case rp_jitter p of
           Finite j \<Rightarrow>
             if 0 < j then
               let jitter = min (max j 0) 1;
                   scaled = f64_mul (f64_of_nat base) (f64_sub 1 (f64_mul jitter (jitter_frac attempts seed)))
               in min (f64_as_u64 scaled) (rp_cap p)
             else base
         | _ \<Rightarrow> base)"

lemma U64_le_U128: "U64_MAX \<le> U128_MAX"
  by (simp add: U64_MAX_def U128_MAX_def)

lemma delay_for_eq:
  "delay_for p a = min (min (rp_base p * unat (rp_factor p) ^ unat a) U64_MAX) (rp_cap p)"
proof (cases "unat (rp_factor p) ^ unat a \<le> U128_MAX")
  case True
  then show ?thesis using U64_le_U128
    by (auto simp: delay_for_def u128_checked_pow_def u128_saturating_mul_def Let_def)
next
  case False
  show ?thesis
  proof (cases "rp_base p = 0")
    case True
    then show ?thesis by (simp add: delay_for_def u128_saturating_mul_def Let_def)
  next
    case base: False
    then have "U128_MAX \<le> rp_base p * U128_MAX" by simp
    moreover have "U128_MAX \<le> rp_base p * unat (rp_factor p) ^ unat a"
      using False base
      by (metis (no_types, lifting) le_trans linear mult.commute mult_le_mono1 nat_mult_1 less_one not_le)
    ultimately have "min (rp_base p * unat (rp_factor p) ^ unat a) U64_MAX = U64_MAX"
      and "u128_saturating_mul (rp_base p) U128_MAX = U128_MAX"
      using U64_le_U128 by (simp_all add: u128_saturating_mul_def)
    with False U64_le_U128 show ?thesis
      by (simp add: delay_for_def u128_checked_pow_def delay_for_def Let_def min.assoc min.left_commute)
  qed
qed

text \<open>C35: the retry delay is the capped exponential the documentation gives, with no
  wrap-around anywhere on the way, for every policy whose cap fits 64-bit nanoseconds; it never
  decreases from one attempt to the next when the factor is positive.\<close>

theorem delay_for_capped_exponential:
  assumes "rp_cap p \<le> U64_MAX"
  shows "delay_for p a = min (rp_base p * unat (rp_factor p) ^ unat a) (rp_cap p) \<and>
    (rp_factor p \<noteq> 0 \<and> a \<le> b \<longrightarrow> delay_for p a \<le> delay_for p b)"
proof
  show eq: "delay_for p a = min (rp_base p * unat (rp_factor p) ^ unat a) (rp_cap p)"
    using assms by (simp add: delay_for_eq min_def)
  show "rp_factor p \<noteq> 0 \<and> a \<le> b \<longrightarrow> delay_for p a \<le> delay_for p b"
  proof
    assume H: "rp_factor p \<noteq> 0 \<and> a \<le> b"
    then have "unat (rp_factor p) \<noteq> 0" by (simp add: unat_eq_zero)
    then have "1 \<le> unat (rp_factor p)" by simp
    moreover from H have "unat a \<le> unat b" by (simp add: word_le_nat_alt)
    ultimately have "unat (rp_factor p) ^ unat a \<le> unat (rp_factor p) ^ unat b"
      by (intro power_increasing) auto
    then have "rp_base p * unat (rp_factor p) ^ unat a \<le> rp_base p * unat (rp_factor p) ^ unat b" by simp
    then show "delay_for p a \<le> delay_for p b"
      unfolding delay_for_eq by (intro min.mono order.refl)
  qed
qed

theorem delay_for_capped_exponential_witness:
  "rp_cap retry_policy_default \<le> U64_MAX \<and>
   delay_for retry_policy_default 5 = from_secs 32 \<and> delay_for retry_policy_default 1000 = from_secs 60 \<and>
   delay_for retry_policy_default 5 \<le> delay_for retry_policy_default 6"
proof -
  have cap: "rp_cap retry_policy_default \<le> U64_MAX"
    by (simp add: retry_policy_default_def from_secs_def U64_MAX_def)
  have "delay_for retry_policy_default 5 = from_secs 32"
    using delay_for_capped_exponential [OF cap, of 5 5]
    by (simp add: retry_policy_default_def from_secs_def)
  moreover have "(60 :: nat) \<le> 2 ^ 6 * 2 ^ 994" by simp
  then have "delay_for retry_policy_default 1000 = from_secs 60"
    using delay_for_capped_exponential [OF cap, of 1000 1000]
    by (simp add: retry_policy_default_def from_secs_def min_def)
  moreover have "delay_for retry_policy_default 5 \<le> delay_for retry_policy_default 6"
    using delay_for_capped_exponential [OF cap, of 5 6] by (simp add: retry_policy_default_def)
  ultimately show ?thesis using cap by blast
qed

section \<open>The jittered delay\<close>

lemma delay_for_le_cap: "delay_for p a \<le> rp_cap p"
  by (simp add: delay_for_eq)

lemma jitter_frac_bounds: "0 \<le> jitter_frac a seed" "jitter_frac a seed \<le> 1"
proof -
  define k where "k = unat (drop_bit 11 (jitter_hash a seed))"
  have "unat (jitter_hash a seed) < 2 ^ 64" using unsigned_less [of "jitter_hash a seed"] by simp
  then have "unat (jitter_hash a seed) div 2 ^ 11 < 2 ^ 53"
    by (intro less_mult_imp_div_less) simp
  then have k: "k \<le> 2 ^ 53" by (simp add: k_def unsigned_drop_bit_eq drop_bit_eq_div unat_div)
  have one: "f64_of_nat (2 ^ 53) = 2 ^ 53" by (subst f64_of_nat_exact) auto
  have eq: "jitter_frac a seed = round_f64 (of_nat k / 2 ^ 53)"
    unfolding jitter_frac_def f64_div_def k_def [symmetric] one f64_of_nat_exact [OF k] ..
  show "0 \<le> jitter_frac a seed" unfolding eq by (intro round_f64_nonneg) simp
  from k have "(of_nat k :: rat) \<le> of_nat (2 ^ 53)" by (simp only: of_nat_le_iff)
  then have "of_nat k / 2 ^ 53 \<le> (1 :: rat)" by simp
  then show "jitter_frac a seed \<le> 1" unfolding eq
    using is_f64_of_nat [of 1] by (intro round_f64_le) auto
qed

text \<open>The three roundings of the scaling, for a delay that a double holds exactly.\<close>

lemma scaled_bounds:
  assumes d: "d \<le> 2 ^ 53" and j: "0 \<le> j" "j \<le> 1" "is_f64 j" and f: "0 \<le> f" "f \<le> 1"
  defines "z \<equiv> f64_mul (f64_of_nat d) (f64_sub 1 (f64_mul j f))"
  shows "0 \<le> z" and "z \<le> of_nat d" and "of_nat d * (1 - j) - 2 \<le> z"
proof -
  define x y where "x = f64_mul j f" and "y = f64_sub 1 x"
  have z: "z = round_f64 (of_nat d * y)"
    by (simp add: z_def y_def x_def f64_mul_def f64_of_nat_exact [OF d])
  have "j * f \<le> j" using j f by (simp add: mult_left_le)
  then have x: "0 \<le> x" "x \<le> j" unfolding x_def f64_mul_def using j f
    by (auto intro: round_f64_nonneg round_f64_le)
  with j have y: "0 \<le> y" "y \<le> 1" unfolding y_def f64_sub_def
    using is_f64_of_nat [of 1] by (auto intro!: round_f64_nonneg round_f64_le)
  have "ulp (1 - x) \<le> 2 powi (int 0 - 52)" using x j by (intro ulp_upper) auto
  moreover have "\<bar>y - (1 - x)\<bar> \<le> ulp (1 - x) / 2" unfolding y_def f64_sub_def by (rule round_f64_error)
  ultimately have "\<bar>y - (1 - x)\<bar> \<le> 1 / 2 ^ 53" by (simp add: power_int_minus)
  with x have y_low: "1 - j - 1 / 2 ^ 53 \<le> y" by linarith
  have dr: "(of_nat d :: rat) \<le> of_nat (2 ^ 53)" using d by (simp only: of_nat_le_iff)
  have dy: "0 \<le> of_nat d * y" "of_nat d * y \<le> of_nat d" using y by (auto simp: mult_left_le)
  show "0 \<le> z" unfolding z by (rule round_f64_nonneg [OF dy(1)])
  show "z \<le> of_nat d" unfolding z by (rule round_f64_le [OF dy is_f64_of_nat [OF d]])
  from dy dr have "of_nat d * y \<le> 2 ^ 53" by simp
  from ulp_upper [OF dy(1) this] have "ulp (of_nat d * y) \<le> 2" by simp
  moreover have "\<bar>z - of_nat d * y\<bar> \<le> ulp (of_nat d * y) / 2" unfolding z by (rule round_f64_error)
  ultimately have "of_nat d * y - 1 \<le> z" by linarith
  moreover have "of_nat d * (1 - j - 1 / 2 ^ 53) \<le> of_nat d * y" using y_low by (intro mult_left_mono) auto
  then have "of_nat d * (1 - j) - of_nat d / 2 ^ 53 \<le> of_nat d * y" by (simp add: right_diff_distrib)
  moreover have "of_nat d / 2 ^ 53 \<le> (1 :: rat)" using dr by simp
  ultimately show "of_nat d * (1 - j) - 2 \<le> z" by linarith
qed

text \<open>C36: the jittered delay.  Without jitter, or with one that is not a positive finite number, it
  is the plain delay.  With a jitter \<open>j\<close> it is shortened by at most that fraction, up to three
  nanoseconds of rounding, and it never exceeds the plain delay, so never the cap, provided the
  plain delay is below \<open>2 ^ 53\<close> nanoseconds (104 days).\<close>

theorem delay_for_seeded_band:
  assumes d: "delay_for p a \<le> 2 ^ 53"
  shows "case rp_jitter p of
      Finite j \<Rightarrow> (j \<le> 0 \<longrightarrow> delay_for_seeded p a seed = delay_for p a) \<and>
        (0 < j \<and> is_f64 j \<longrightarrow> delay_for_seeded p a seed \<le> delay_for p a \<and>
           of_nat (delay_for p a) * (1 - min j 1) - 3 \<le> (of_nat (delay_for_seeded p a seed) :: rat))
    | _ \<Rightarrow> delay_for_seeded p a seed = delay_for p a"
proof (cases "rp_jitter p")
  case (Finite j)
  have "delay_for_seeded p a seed \<le> delay_for p a \<and>
      of_nat (delay_for p a) * (1 - min j 1) - 3 \<le> (of_nat (delay_for_seeded p a seed) :: rat)"
    if j: "0 < j" "is_f64 j"
  proof -
    define z where "z = f64_mul (f64_of_nat (delay_for p a)) (f64_sub 1 (f64_mul (min j 1) (jitter_frac a seed)))"
    have "is_f64 (min j 1)" using j is_f64_of_nat [of 1] by (simp add: min_def)
    then have z: "0 \<le> z" "z \<le> of_nat (delay_for p a)" "of_nat (delay_for p a) * (1 - min j 1) - 2 \<le> z"
      using scaled_bounds [OF d, of "min j 1" "jitter_frac a seed"] j jitter_frac_bounds unfolding z_def by auto
    define n where "n = nat \<lfloor>z\<rfloor>"
    have n: "(of_nat n :: rat) \<le> z" "z < of_nat n + 1"
      using z(1) by (simp_all add: n_def) linarith
    with z(2) have "(of_nat n :: rat) \<le> of_nat (delay_for p a)" by linarith
    then have le: "n \<le> delay_for p a" by (simp only: of_nat_le_iff)
    moreover have "(2 :: nat) ^ 53 \<le> U64_MAX" by (simp add: U64_MAX_def)
    ultimately have "delay_for_seeded p a seed = n"
      using j Finite d delay_for_le_cap [of p a]
      by (simp add: delay_for_seeded_def Let_def f64_as_u64_def max_def flip: z_def n_def)
    with le n z(3) show ?thesis by linarith
  qed
  then show ?thesis using Finite by (simp add: delay_for_seeded_def Let_def)
qed (simp_all add: delay_for_seeded_def)

theorem delay_for_seeded_band_witness:
  "let p = retry_policy_default\<lparr> rp_jitter := Finite (1 / 2) \<rparr>
   in delay_for p 3 = from_secs 8 \<and> delay_for_seeded p 3 42 \<le> from_secs 8 \<and>
      from_secs 4 - 3 \<le> delay_for_seeded p 3 42"
proof -
  define p where "p = retry_policy_default\<lparr> rp_jitter := Finite (1 / 2) \<rparr>"
  have d: "delay_for p 3 = from_secs 8"
    by (simp add: p_def delay_for_eq retry_policy_default_def from_secs_def U64_MAX_def)
  have "is_f64 (1 / 2)" by code_simp
  then have "delay_for_seeded p 3 42 \<le> from_secs 8"
    "of_nat (from_secs 8) * (1 / 2) - 3 \<le> (of_nat (delay_for_seeded p 3 42) :: rat)"
    using delay_for_seeded_band [of p 3 42] d by (simp_all add: p_def from_secs_def)
  moreover from this(2) have "of_nat (from_secs 4 - 3) \<le> (of_nat (delay_for_seeded p 3 42) :: rat)"
    by (simp add: from_secs_def)
  then have "from_secs 4 - 3 \<le> delay_for_seeded p 3 42" by (simp only: of_nat_le_iff)
  ultimately show ?thesis using d by (simp add: p_def Let_def)
qed

end
