(* ===== verification/Claim_Check.thy ===== *)
theory Claim_Check
  imports Spi
begin

text \<open>
  The claim check: the reference codec and store interface of
  \<^verbatim>\<open>worklane-core/src/payload_store.rs\<close>, and the file store and \<^verbatim>\<open>ClaimCheck\<close> helper of
  \<^verbatim>\<open>worklane/src/claim_check.rs\<close>.  A \<^verbatim>\<open>dyn PayloadStore\<close> is the record of its methods; the
  locale \<open>payload_laws\<close> states what they promise, and the file store interprets it.  The text form
  of a UUID belongs to the \<^verbatim>\<open>uuid\<close> crate and is a parameter; what is relied on is \<open>uuid_codec_ok\<close>.
\<close>

section \<open>The text of a UUID\<close>

record uuid_codec =
  uc_show :: "uuid \<Rightarrow> string"
  uc_parse :: "string \<Rightarrow> string + uuid"

text \<open>The characters of the formats the crate documents: simple, hyphenated, urn and braced.\<close>

definition uuid_char :: "char \<Rightarrow> bool" where
  "uuid_char c \<longleftrightarrow> c \<in> set ''0123456789abcdefABCDEF-{}urnid:''"

definition uuid_codec_ok :: "uuid_codec \<Rightarrow> bool" where
  "uuid_codec_ok U \<longleftrightarrow>
     (\<forall>u. uc_parse U (uc_show U u) = Inr u) \<and>
     (\<forall>s u. uc_parse U s = Inr u \<longrightarrow> s \<noteq> [] \<and> list_all uuid_char s)"

section \<open>References\<close>

definition MAGIC :: bytes where
  "MAGIC = [0, 87, 76, 67, 67, 1]"

definition make_reference :: "string \<Rightarrow> bytes" where
  "make_reference key = MAGIC @ as_bytes key"

text \<open>\<^verbatim>\<open><[u8]>::strip_prefix\<close>.\<close>

definition strip_prefix :: "'a list \<Rightarrow> 'a list \<Rightarrow> 'a list option" where
  "strip_prefix pre xs = (if take (length pre) xs = pre then Some (drop (length pre) xs) else None)"

definition reference_key :: "bytes \<Rightarrow> string option" where
  "reference_key payload = Option.bind (strip_prefix MAGIC payload) from_utf8"

definition is_reference :: "bytes \<Rightarrow> bool" where
  "is_reference payload \<longleftrightarrow> take (length MAGIC) payload = MAGIC"

section \<open>The store interface\<close>

text \<open>\<open>ps_put\<close> takes the random UUID that the implementation mints a key from.\<close>

record 'p payload_store =
  ps_put :: "uuid \<Rightarrow> bytes \<Rightarrow> 'p \<Rightarrow> string result \<times> 'p"
  ps_get :: "string \<Rightarrow> 'p \<Rightarrow> bytes option result \<times> 'p"
  ps_delete :: "string \<Rightarrow> 'p \<Rightarrow> unit result \<times> 'p"

section \<open>The claim-check helper\<close>

definition DEFAULT_OFFLOAD_THRESHOLD :: nat where
  "DEFAULT_OFFLOAD_THRESHOLD = 64 * 1024"

record 'p claim_check =
  cc_store :: "'p payload_store"
  cc_threshold :: nat

definition claim_check_new :: "'p payload_store \<Rightarrow> 'p claim_check" where
  "claim_check_new P = \<lparr> cc_store = P, cc_threshold = DEFAULT_OFFLOAD_THRESHOLD \<rparr>"

definition with_threshold :: "nat \<Rightarrow> 'p claim_check \<Rightarrow> 'p claim_check" where
  "with_threshold n C = C\<lparr> cc_threshold := n \<rparr>"

definition offload :: "'p claim_check \<Rightarrow> uuid \<Rightarrow> bytes \<Rightarrow> 'p \<Rightarrow> bytes result \<times> 'p" where
  "offload C u payload p =
     (if length payload \<le> cc_threshold C then (Inr payload, p)
      else case ps_put (cc_store C) u payload p of
             (Inl e, p') \<Rightarrow> (Inl e, p')
           | (Inr key, p') \<Rightarrow> (Inr (make_reference key), p'))"

text \<open>The error of a dangling reference, also raised by the worker.\<close>

definition missing_payload :: "string \<Rightarrow> error" where
  "missing_payload key =
     Handler [Lit ''claim-check payload '', Lit key, Lit '' is missing from the store'']"

definition fetch :: "'p claim_check \<Rightarrow> bytes \<Rightarrow> 'p \<Rightarrow> bytes result \<times> 'p" where
  "fetch C payload p =
     (case reference_key payload of
        None \<Rightarrow> (Inr payload, p)
      | Some key \<Rightarrow>
          (case ps_get (cc_store C) key p of
             (Inl e, p') \<Rightarrow> (Inl e, p')
           | (Inr None, p') \<Rightarrow> (Inl (missing_payload key), p')
           | (Inr (Some b), p') \<Rightarrow> (Inr b, p')))"

definition claim_delete :: "'p claim_check \<Rightarrow> bytes \<Rightarrow> 'p \<Rightarrow> unit result \<times> 'p" where
  "claim_delete C payload p =
     (case reference_key payload of
        None \<Rightarrow> (Inr (), p)
      | Some key \<Rightarrow> ps_delete (cc_store C) key p)"

section \<open>The file store\<close>

text \<open>
  The file system is a map from paths to contents together with the faults the operating system
  is going to report, one entry per call (\<open>None\<close>, or no entry left: the call goes through).  A
  write that fails may leave the file with other contents; \<open>JoinFault\<close> is the error of the
  blocking pool.
\<close>

datatype os_fault = JoinFault string | IoFault string "bytes option"

record file_system =
  fs_files :: "string \<rightharpoonup> bytes"
  fs_faults :: "os_fault option list"

definition next_fault :: "file_system \<Rightarrow> os_fault option \<times> file_system" where
  "next_fault fs =
     (case fs_faults fs of [] \<Rightarrow> (None, fs) | f # fl \<Rightarrow> (f, fs\<lparr> fs_faults := fl \<rparr>))"

text \<open>\<^verbatim>\<open>Path::join\<close>: an absolute second path replaces the first.\<close>

definition path_join :: "string \<Rightarrow> string \<Rightarrow> string" where
  "path_join dir key =
     (if key \<noteq> [] \<and> hd key = CHR ''/'' then key
      else if dir = [] \<or> last dir = CHR ''/'' then dir @ key
      else dir @ CHR ''/'' # key)"

definition file_store_open :: "string \<Rightarrow> file_system \<Rightarrow> string result \<times> file_system" where
  "file_store_open dir fs =
     (case next_fault fs of
        (Some (IoFault e lft), fs') \<Rightarrow>
          (Inl (Broker [Lit ''payload store dir '', FDebugStr dir, Lit '': '', Lit e]), fs')
      | (_, fs') \<Rightarrow> (Inr dir, fs'))"

definition safe_path :: "uuid_codec \<Rightarrow> string \<Rightarrow> string \<Rightarrow> string result" where
  "safe_path U dir key =
     (case job_id_from_str (uc_parse U) key of
        Inl e \<Rightarrow> Inl (Broker [Lit ''claim-check key '', FDebugStr key,
          Lit '' is not a valid store key (expected a UUID); refusing to map it to a filesystem path''])
      | Inr i \<Rightarrow> Inr (path_join dir key))"

definition join_fault :: "string \<Rightarrow> error" where
  "join_fault e = Broker [Lit ''payload store join: '', Lit e]"

definition file_put ::
  "uuid_codec \<Rightarrow> string \<Rightarrow> uuid \<Rightarrow> bytes \<Rightarrow> file_system \<Rightarrow> string result \<times> file_system" where
  "file_put U dir u payload fs =
     (let key = uc_show U u in
      case safe_path U dir key of
        Inl e \<Rightarrow> (Inl e, fs)
      | Inr path \<Rightarrow>
          (case next_fault fs of
             (None, fs') \<Rightarrow> (Inr key, fs'\<lparr> fs_files := (fs_files fs')(path \<mapsto> payload) \<rparr>)
           | (Some (JoinFault e), fs') \<Rightarrow> (Inl (join_fault e), fs')
           | (Some (IoFault e lft), fs') \<Rightarrow>
               (Inl (Broker [Lit ''payload store write: '', Lit e]),
                (case lft of None \<Rightarrow> fs'
                 | Some b \<Rightarrow> fs'\<lparr> fs_files := (fs_files fs')(path \<mapsto> b) \<rparr>))))"

definition file_get ::
  "uuid_codec \<Rightarrow> string \<Rightarrow> string \<Rightarrow> file_system \<Rightarrow> bytes option result \<times> file_system" where
  "file_get U dir key fs =
     (case safe_path U dir key of
        Inl e \<Rightarrow> (Inl e, fs)
      | Inr path \<Rightarrow>
          (case next_fault fs of
             (None, fs') \<Rightarrow> (Inr (fs_files fs' path), fs')
           | (Some (JoinFault e), fs') \<Rightarrow> (Inl (join_fault e), fs')
           | (Some (IoFault e lft), fs') \<Rightarrow> (Inl (Broker [Lit ''payload store read: '', Lit e]), fs')))"

definition file_delete ::
  "uuid_codec \<Rightarrow> string \<Rightarrow> string \<Rightarrow> file_system \<Rightarrow> unit result \<times> file_system" where
  "file_delete U dir key fs =
     (case safe_path U dir key of
        Inl e \<Rightarrow> (Inl e, fs)
      | Inr path \<Rightarrow>
          (case next_fault fs of
             (None, fs') \<Rightarrow> (Inr (), fs'\<lparr> fs_files := (fs_files fs')(path := None) \<rparr>)
           | (Some (JoinFault e), fs') \<Rightarrow> (Inl (join_fault e), fs')
           | (Some (IoFault e lft), fs') \<Rightarrow> (Inl (Broker [Lit ''payload store delete: '', Lit e]), fs')))"

definition file_payload_store :: "uuid_codec \<Rightarrow> string \<Rightarrow> file_system payload_store" where
  "file_payload_store U dir =
     \<lparr> ps_put = file_put U dir, ps_get = file_get U dir, ps_delete = file_delete U dir \<rparr>"

section \<open>What a store promises\<close>

locale payload_laws =
  fixes P :: "'p payload_store"
    and inv :: "'p \<Rightarrow> bool"
    and content :: "'p \<Rightarrow> string \<rightharpoonup> bytes"
  assumes put_law: "inv p \<Longrightarrow> ps_put P u b p = (Inr k, p') \<Longrightarrow>
      inv p' \<and> content p' = (content p)(k \<mapsto> b) \<and> valid_str k"
    and get_law: "inv p \<Longrightarrow> ps_get P k p = (gres, p') \<Longrightarrow>
      inv p' \<and> content p' = content p \<and> (\<forall>r. gres = Inr r \<longrightarrow> r = content p k)"
    and delete_law: "inv p \<Longrightarrow> ps_delete P k p = (dres, p') \<Longrightarrow>
      inv p' \<and> content p' = (if dres = Inr () then (content p)(k := None) else content p)"
begin

text \<open>Whatever an offload returned, a later fetch that the store answers yields the payload, as long
  as the store still has the blob; the payload itself must not look like a reference.\<close>

lemma fetch_offload:
  assumes "inv p" and "reference_key payload = None"
    and "cc_store C = P"
    and "offload C u payload p = (Inr r, p1)" and "inv p2"
    and "\<forall>k. reference_key r = Some k \<longrightarrow> content p2 k = content p1 k"
    and "fetch C r p2 = (fres, p3)"
  shows "fres = Inr payload \<or> (\<exists>k e p'. reference_key r = Some k \<and> ps_get P k p2 = (Inl e, p') \<and> fres = Inl e)"
proof (cases "length payload \<le> cc_threshold C")
  case True
  with assms(2,4,7) show ?thesis by (simp add: offload_def fetch_def)
next
  case False
  with assms(3,4) obtain key where put: "ps_put P u payload p = (Inr key, p1)" and r: "r = make_reference key"
    by (auto simp: offload_def split: prod.splits sum.splits)
  from put_law [OF assms(1) put] have c: "content p1 key = Some payload" and v: "valid_str key" by auto
  from v have key: "reference_key r = Some key"
    by (simp add: r reference_key_def make_reference_def strip_prefix_def from_utf8_as_bytes)
  obtain g p' where g: "ps_get P key p2 = (g, p')" by (cases "ps_get P key p2")
  from get_law [OF assms(5) g] assms(6) key c have "\<forall>x. g = Inr x \<longrightarrow> x = Some payload" by auto
  with g key assms(3,7) show ?thesis by (cases g) (auto simp: fetch_def)
qed

text \<open>After the delete of a reference, the store has no blob under its key, and the other blobs
  stay.\<close>

lemma delete_reference:
  assumes "inv p" and "cc_store C = P" and "claim_delete C r p = (Inr (), p1)"
  shows "content p1 = (case reference_key r of None \<Rightarrow> content p | Some k \<Rightarrow> (content p)(k := None))"
  using assms delete_law [OF assms(1)] by (auto simp: claim_delete_def split: option.splits)

end

section \<open>The file store keeps the promises\<close>

lemma reference_key_make: "valid_str key \<Longrightarrow> reference_key (make_reference key) = Some key"
  by (simp add: reference_key_def make_reference_def strip_prefix_def from_utf8_as_bytes)

lemma is_reference_make [simp]: "is_reference (make_reference key)"
  by (simp add: is_reference_def make_reference_def)

lemma reference_key_None_hd:
  assumes "payload = [] \<or> hd payload \<noteq> 0"
  shows "reference_key payload = None"
  using assms by (cases payload) (auto simp: reference_key_def strip_prefix_def MAGIC_def)

lemma uuid_chars_plain:
  assumes "list_all uuid_char s"
  shows "CHR ''/'' \<notin> set s" and "CHR ''.'' \<notin> set s" and "valid_str s"
proof -
  from assms have all: "c \<in> set ''0123456789abcdefABCDEF-{}urnid:''" if "c \<in> set s" for c
    using that by (auto simp: list_all_iff uuid_char_def)
  show "CHR ''/'' \<notin> set s" using all [of "CHR ''/''"] by auto
  show "CHR ''.'' \<notin> set s" using all [of "CHR ''.''"] by auto
  have "(of_char c :: nat) < 128" if "c \<in> set s" for c
    using all [OF that] by auto
  then have "is_ascii_str s" by (auto simp: is_ascii_str_def list_all_iff)
  then show "valid_str s" by (rule valid_str_ascii)
qed

lemma safe_path_Inr:
  assumes "uuid_codec_ok U" and "safe_path U dir key = Inr path"
  shows "path = path_join dir key" and "key \<noteq> []" and "list_all uuid_char key"
proof -
  from assms(2) obtain u where u: "uc_parse U key = Inr u" and "path = path_join dir key"
    by (auto simp: safe_path_def job_id_from_str_def split: sum.splits)
  with assms(1) show "path = path_join dir key" "key \<noteq> []" "list_all uuid_char key"
    unfolding uuid_codec_ok_def by blast+
qed

lemma safe_path_show: "uuid_codec_ok U \<Longrightarrow> safe_path U dir (uc_show U u) = Inr (path_join dir (uc_show U u))"
  by (simp add: safe_path_def job_id_from_str_def uuid_codec_ok_def)

lemma next_fault_files: "next_fault fs = (f, fs') \<Longrightarrow> fs_files fs' = fs_files fs"
  by (auto simp: next_fault_def split: list.splits)

lemma file_ops_Inr:
  "file_put U dir u b fs = (Inr k, fs') \<Longrightarrow>
     \<exists>path fs1. safe_path U dir (uc_show U u) = Inr path \<and> next_fault fs = (None, fs1) \<and>
       k = uc_show U u \<and> fs' = fs1\<lparr> fs_files := (fs_files fs1)(path \<mapsto> b) \<rparr>"
  "file_get U dir key fs = (Inr r, fs') \<Longrightarrow>
     \<exists>path. safe_path U dir key = Inr path \<and> next_fault fs = (None, fs') \<and> r = fs_files fs' path"
  "file_delete U dir key fs = (Inr (), fs') \<Longrightarrow>
     \<exists>path fs1. safe_path U dir key = Inr path \<and> next_fault fs = (None, fs1) \<and>
       fs' = fs1\<lparr> fs_files := (fs_files fs1)(path := None) \<rparr>"
  by (auto simp: file_put_def file_get_def file_delete_def Let_def
      split: prod.splits option.splits os_fault.splits sum.splits)

lemma file_get_files: "file_get U dir key fs = (g, fs') \<Longrightarrow> fs_files fs' = fs_files fs"
  by (auto simp: file_get_def dest: next_fault_files split: prod.splits option.splits os_fault.splits sum.splits)

lemma file_delete_Inl_files: "file_delete U dir key fs = (Inl e, fs') \<Longrightarrow> fs_files fs' = fs_files fs"
  by (auto simp: file_delete_def dest: next_fault_files split: prod.splits option.splits os_fault.splits sum.splits)

lemma path_join_plain:
  "CHR ''/'' \<notin> set k \<Longrightarrow>
   path_join dir k = (if dir = [] \<or> last dir = CHR ''/'' then dir else dir @ ''/'') @ k"
  by (cases k) (auto simp: path_join_def)

lemma path_join_inject:
  assumes "CHR ''/'' \<notin> set k" "CHR ''/'' \<notin> set k'" "path_join dir k = path_join dir k'"
  shows "k = k'"
  using assms by (simp add: path_join_plain split: if_splits)

definition file_content :: "uuid_codec \<Rightarrow> string \<Rightarrow> file_system \<Rightarrow> string \<rightharpoonup> bytes" where
  "file_content U dir fs key = (if is_ok (safe_path U dir key) then fs_files fs (path_join dir key) else None)"

lemma file_content_upd:
  assumes "uuid_codec_ok U" and "safe_path U dir key = Inr path"
  shows "file_content U dir (fs\<lparr> fs_files := (fs_files fs)(path := x) \<rparr>) = (file_content U dir fs)(key := x)"
proof
  fix k
  have key: "CHR ''/'' \<notin> set key" and path: "path = path_join dir key"
    using safe_path_Inr [OF assms] uuid_chars_plain by auto
  show "file_content U dir (fs\<lparr> fs_files := (fs_files fs)(path := x) \<rparr>) k = ((file_content U dir fs)(key := x)) k"
  proof (cases "is_ok (safe_path U dir k)")
    case True
    then obtain p where p: "safe_path U dir k = Inr p" by (auto simp: is_ok_iff)
    from safe_path_Inr [OF assms(1) p] uuid_chars_plain have "CHR ''/'' \<notin> set k" by auto
    with key path path_join_inject [of k key dir] assms(2) True show ?thesis
      by (auto simp: file_content_def)
  next
    case False
    with assms(2) show ?thesis by (auto simp: file_content_def)
  qed
qed

lemma file_content_cong: "fs_files fs = fs_files fs' \<Longrightarrow> file_content U dir fs = file_content U dir fs'"
  by (simp add: file_content_def fun_eq_iff)

interpretation fstore: payload_laws "file_payload_store U dir" "\<lambda>fs. uuid_codec_ok U" "file_content U dir" for U dir
proof
  fix fs u b k fs'
  assume ok: "uuid_codec_ok U" and "ps_put (file_payload_store U dir) u b fs = (Inr k, fs')"
  then have "file_put U dir u b fs = (Inr k, fs')" by (simp add: file_payload_store_def)
  then obtain path fs1 where sp: "safe_path U dir (uc_show U u) = Inr path" and n: "next_fault fs = (None, fs1)"
    and k: "k = uc_show U u" and fs': "fs' = fs1\<lparr> fs_files := (fs_files fs1)(path \<mapsto> b) \<rparr>"
    using file_ops_Inr(1) by blast
  have "file_content U dir fs1 = file_content U dir fs" using next_fault_files [OF n] by (rule file_content_cong)
  then have "file_content U dir fs' = (file_content U dir fs)(k \<mapsto> b)"
    unfolding fs' k file_content_upd [OF ok sp] by simp
  moreover have "valid_str k" unfolding k
    using safe_path_Inr(3) [OF ok sp] by (rule uuid_chars_plain(3))
  ultimately show "uuid_codec_ok U \<and> file_content U dir fs' = (file_content U dir fs)(k \<mapsto> b) \<and> valid_str k"
    using ok by blast
next
  fix fs k g fs'
  assume ok: "uuid_codec_ok U" and "ps_get (file_payload_store U dir) k fs = (g, fs')"
  then have g: "file_get U dir k fs = (g, fs')" by (simp add: file_payload_store_def)
  have "file_content U dir fs' = file_content U dir fs"
    using file_get_files [OF g] by (rule file_content_cong)
  moreover have "r = file_content U dir fs k" if "g = Inr r" for r
  proof -
    from g that have "file_get U dir k fs = (Inr r, fs')" by simp
    then obtain path where "safe_path U dir k = Inr path" "r = fs_files fs' path"
      using file_ops_Inr(2) by blast
    then show ?thesis using safe_path_Inr(1) [OF ok] file_get_files [OF g] by (simp add: file_content_def)
  qed
  ultimately show "uuid_codec_ok U \<and> file_content U dir fs' = file_content U dir fs \<and>
      (\<forall>r. g = Inr r \<longrightarrow> r = file_content U dir fs k)" using ok by blast
next
  fix fs k d fs'
  assume ok: "uuid_codec_ok U" and "ps_delete (file_payload_store U dir) k fs = (d, fs')"
  then have d: "file_delete U dir k fs = (d, fs')" by (simp add: file_payload_store_def)
  have "file_content U dir fs' = (if d = Inr () then (file_content U dir fs)(k := None) else file_content U dir fs)"
  proof (cases d)
    case (Inl e)
    with d have "file_delete U dir k fs = (Inl e, fs')" by simp
    from file_content_cong [OF file_delete_Inl_files [OF this]] Inl show ?thesis by simp
  next
    case (Inr x)
    with d have "file_delete U dir k fs = (Inr (), fs')" by simp
    then obtain path fs1 where sp: "safe_path U dir k = Inr path" and n: "next_fault fs = (None, fs1)"
      and fs': "fs' = fs1\<lparr> fs_files := (fs_files fs1)(path := None) \<rparr>"
      using file_ops_Inr(3) by blast
    have "file_content U dir fs1 = file_content U dir fs" using next_fault_files [OF n] by (rule file_content_cong)
    with Inr show ?thesis unfolding fs' file_content_upd [OF ok sp] by simp
  qed
  with ok show "uuid_codec_ok U \<and> file_content U dir fs' =
      (if d = Inr () then (file_content U dir fs)(k := None) else file_content U dir fs)" by blast
qed

end
