(* ===== verification/Uuid_Text.thy ===== *)
theory Uuid_Text
  imports Claim_Check
begin

text \<open>
  The hyphenated text of a UUID as a concrete codec: an instance of the parameter \<open>uuid_codec\<close>
  that satisfies \<open>uuid_codec_ok\<close>, for the witnesses of the theorems that assume it.
\<close>

definition hex_char :: "nat \<Rightarrow> char" where
  "hex_char d = (if d < 10 then char_of (48 + d) else char_of (87 + d))"

definition unhex :: "char \<Rightarrow> nat" where
  "unhex c = (let n = of_char c in if n < 58 then n - 48 else n - 87)"

primrec hex_of :: "nat \<Rightarrow> nat \<Rightarrow> string" where
  "hex_of 0 n = []"
| "hex_of (Suc k) n = hex_of k (n div 16) @ [hex_char (n mod 16)]"

definition unhexs :: "string \<Rightarrow> nat" where
  "unhexs s = foldl (\<lambda>acc c. 16 * acc + unhex c) 0 s"

definition is_hex :: "char \<Rightarrow> bool" where
  "is_hex c \<longleftrightarrow> c \<in> set ''0123456789abcdef''"

definition hyphenate :: "string \<Rightarrow> string" where
  "hyphenate h = take 8 h @ ''-'' @ take 4 (drop 8 h) @ ''-'' @ take 4 (drop 12 h) @ ''-'' @
     take 4 (drop 16 h) @ ''-'' @ drop 20 h"

definition hyphenated :: uuid_codec where
  "hyphenated =
     \<lparr> uc_show = (\<lambda>u. hyphenate (hex_of 32 (unat u))),
       uc_parse = (\<lambda>s. let h = filter (\<lambda>c. c \<noteq> CHR ''-'') s
                        in if length h = 32 \<and> list_all is_hex h \<and> s = hyphenate h
                           then Inr (word_of_nat (unhexs h)) else Inl ''invalid UUID'') \<rparr>"

lemma unhex_hex_char: "d < 16 \<Longrightarrow> unhex (hex_char d) = d"
  by (auto simp: unhex_def hex_char_def Let_def)

lemma is_hex_hex_char:
  assumes "d < 16"
  shows "is_hex (hex_char d)"
proof -
  have "list_all (\<lambda>d. is_hex (hex_char d)) [0..<16]" by code_simp
  with assms show ?thesis by (simp add: list_all_iff)
qed

lemma length_hex_of [simp]: "length (hex_of k n) = k"
  by (induction k arbitrary: n) auto

lemma hex_of_is_hex: "list_all is_hex (hex_of k n)"
  by (induction k arbitrary: n) (auto simp: is_hex_hex_char)

lemma unhexs_hex_of: "n < 16 ^ k \<Longrightarrow> unhexs (hex_of k n) = n"
proof (induction k arbitrary: n)
  case 0
  then show ?case by (simp add: unhexs_def)
next
  case (Suc k)
  then have "n div 16 < 16 ^ k" by (intro less_mult_imp_div_less) (simp add: mult.commute)
  from Suc.IH [OF this] show ?case
    by (simp add: unhexs_def unhex_hex_char)
qed

lemma is_hex_plain: "is_hex c \<Longrightarrow> c \<noteq> CHR ''-'' \<and> uuid_char c"
  by (auto simp: is_hex_def uuid_char_def)

lemma hex_no_hyphen: "list_all is_hex h \<Longrightarrow> filter (\<lambda>c. c \<noteq> CHR ''-'') h = h"
  by (intro filter_True) (simp add: list_all_iff is_hex_plain)

lemma filter_hyphenate:
  assumes "list_all is_hex h"
  shows "filter (\<lambda>c. c \<noteq> CHR ''-'') (hyphenate h) = h"
proof -
  have t: "filter (\<lambda>c. c \<noteq> CHR ''-'') (take i (drop j h)) = take i (drop j h)" for i j
    using assms by (intro hex_no_hyphen) (auto simp: list_all_iff dest: in_set_takeD in_set_dropD)
  have d: "filter (\<lambda>c. c \<noteq> CHR ''-'') (drop 20 h) = drop 20 h"
    using assms by (intro hex_no_hyphen) (auto simp: list_all_iff dest: in_set_dropD)
  have j: "take i (drop a h) @ drop (a + i) h = drop a h" for i a
    using append_take_drop_id [of i "drop a h"] by (simp only: drop_drop add.commute)
  have "filter (\<lambda>c. c \<noteq> CHR ''-'') (hyphenate h) =
      take 8 (drop 0 h) @ take 4 (drop 8 h) @ take 4 (drop 12 h) @ take 4 (drop 16 h) @ drop 20 h"
    unfolding hyphenate_def using t [of 8 0] by (simp add: t d)
  also have "\<dots> = h" using j [of 4 16] j [of 4 12] j [of 4 8] j [of 8 0] by simp
  finally show ?thesis .
qed

lemma hyphenated_ok: "uuid_codec_ok hyphenated"
  unfolding uuid_codec_ok_def
proof (intro conjI allI impI)
  fix u :: uuid
  have "unat u < 16 ^ 32" using unsigned_less [of u] by simp
  then show "uc_parse hyphenated (uc_show hyphenated u) = Inr u"
    by (simp add: hyphenated_def Let_def filter_hyphenate hex_of_is_hex unhexs_hex_of)
next
  fix s u
  assume "uc_parse hyphenated s = Inr u"
  then obtain h where h: "length h = 32" "list_all is_hex h" "s = hyphenate h"
    by (auto simp: hyphenated_def Let_def split: if_splits)
  show "s \<noteq> []" using h(3) by (simp add: hyphenate_def)
  have h': "uuid_char c" if "c \<in> set h" for c
    using h(2) that by (simp add: list_all_iff is_hex_plain)
  have "uuid_char CHR ''-''" by (simp add: uuid_char_def)
  with h' show "list_all uuid_char s"
    unfolding h(3) hyphenate_def list_all_iff
    by (auto dest: in_set_takeD in_set_dropD)
qed

section \<open>The claim check on the file store\<close>

text \<open>C30: a payload that goes through the claim check comes back.  With no fault pending, an offload
  succeeds; what it returns is the payload itself when it is within the threshold, and otherwise a
  reference that fetches to the payload and, once deleted, is reported as dangling; the delete
  leaves the files as they were when the minted key was unused.\<close>

theorem claim_check_round_trip:
  assumes ok: "uuid_codec_ok U" and plain: "reference_key payload = None" and quiet: "fs_faults fs = []"
    and C: "C = with_threshold n (claim_check_new (file_payload_store U dir))"
    and run: "offload C u payload fs = (res, fs1)"
  shows "\<exists>r. res = Inr r \<and> fetch C r fs1 = (Inr payload, fs1) \<and>
    (length payload \<le> n \<longrightarrow> r = payload \<and> fs1 = fs) \<and>
    (n < length payload \<longrightarrow> is_reference r \<and>
       (let (d, fs2) = claim_delete C r fs1
        in d = Inr () \<and> fetch C r fs2 = (Inl (missing_payload (uc_show U u)), fs2) \<and>
           (fs_files fs (path_join dir (uc_show U u)) = None \<longrightarrow> fs2 = fs)))"
proof (cases "length payload \<le> n")
  case True
  with run plain C show ?thesis by (simp add: offload_def fetch_def with_threshold_def)
next
  case False
  define k where "k = uc_show U u"
  define path where "path = path_join dir k"
  have sp: "safe_path U dir k = Inr path" using safe_path_show [OF ok] by (simp add: k_def path_def)
  have key: "reference_key (make_reference k) = Some k"
    using safe_path_Inr(3) [OF ok sp] by (intro reference_key_make uuid_chars_plain(3))
  from False run C quiet sp have res: "res = Inr (make_reference k)"
    and fs1: "fs1 = fs\<lparr> fs_files := (fs_files fs)(path \<mapsto> payload) \<rparr>"
    by (auto simp: offload_def with_threshold_def claim_check_new_def file_payload_store_def file_put_def
        next_fault_def k_def)
  have get: "fetch C (make_reference k) fs1 = (Inr payload, fs1)"
    using C quiet sp key
    by (simp add: fetch_def with_threshold_def claim_check_new_def file_payload_store_def file_get_def
        next_fault_def fs1)
  define fs2 where "fs2 = fs\<lparr> fs_files := (fs_files fs)(path := None) \<rparr>"
  have del: "claim_delete C (make_reference k) fs1 = (Inr (), fs2)"
    using C quiet sp key
    by (simp add: claim_delete_def with_threshold_def claim_check_new_def file_payload_store_def file_delete_def
        next_fault_def fs1 fs2_def)
  have gone: "fetch C (make_reference k) fs2 = (Inl (missing_payload k), fs2)"
    using C quiet sp key
    by (simp add: fetch_def with_threshold_def claim_check_new_def file_payload_store_def file_get_def
        next_fault_def fs2_def)
  have "fs2 = fs" if "fs_files fs path = None"
    using that by (simp add: fs2_def fun_upd_idem)
  with False res get del gone show ?thesis by (simp add: k_def path_def)
qed

theorem claim_check_round_trip_witness:
  "let C = with_threshold 2 (claim_check_new (file_payload_store hyphenated ''/blobs''));
       fs = \<lparr> fs_files = Map.empty, fs_faults = [] \<rparr>
   in \<exists>r fs1. offload C 7 [123, 49, 125] fs = (Inr r, fs1) \<and> is_reference r \<and>
        fetch C r fs1 = (Inr [123, 49, 125], fs1) \<and> snd (claim_delete C r fs1) = fs"
proof -
  define C where "C = with_threshold 2 (claim_check_new (file_payload_store hyphenated ''/blobs''))"
  define fs where "fs = \<lparr> fs_files = Map.empty, fs_faults = [] \<rparr>"
  obtain res fs1 where run: "offload C 7 [123, 49, 125] fs = (res, fs1)" by fastforce
  have "reference_key [123, 49, 125] = None" by (rule reference_key_None_hd) simp
  from claim_check_round_trip [OF hyphenated_ok this _ C_def run]
  have "\<exists>r. res = Inr r \<and> is_reference r \<and> fetch C r fs1 = (Inr [123, 49, 125], fs1) \<and>
      snd (claim_delete C r fs1) = fs"
    by (auto simp: fs_def)
  with run show ?thesis unfolding Let_def C_def [symmetric] fs_def [symmetric] by auto
qed

text \<open>The files directly inside a directory, other than the dotted names.\<close>

definition inside_dir :: "string \<Rightarrow> string \<Rightarrow> bool" where
  "inside_dir dir path \<longleftrightarrow>
     (\<exists>name. path = path_join dir name \<and> name \<noteq> [] \<and> CHR ''/'' \<notin> set name \<and> CHR ''.'' \<notin> set name)"

text \<open>C31: the file store does not leave its directory, whatever key it is given.  A put or a delete
  changes only a file directly inside the directory, and what a get returns depends only on such
  files: a forged key such as a parent or an absolute path is refused.\<close>

theorem file_store_confined:
  assumes ok: "uuid_codec_ok U" and out: "\<not> inside_dir dir path"
  shows "fs_files (snd (file_put U dir u b fs)) path = fs_files fs path \<and>
    fs_files (snd (file_delete U dir key fs)) path = fs_files fs path \<and>
    fst (file_get U dir key (fs\<lparr> fs_files := (fs_files fs)(path := x) \<rparr>)) = fst (file_get U dir key fs)"
proof -
  have ne: "path \<noteq> p" if "safe_path U dir k = Inr p" for k p
    using safe_path_Inr [OF ok that] uuid_chars_plain [of k] out by (auto simp: inside_dir_def)
  have "fs_files (snd (file_put U dir u b fs)) path = fs_files fs path"
    by (auto simp: file_put_def Let_def next_fault_def dest: ne split: sum.splits prod.splits option.splits os_fault.splits list.splits)
  moreover have "fs_files (snd (file_delete U dir key fs)) path = fs_files fs path"
    by (auto simp: file_delete_def next_fault_def dest: ne split: sum.splits prod.splits option.splits os_fault.splits list.splits)
  moreover have "fst (file_get U dir key (fs\<lparr> fs_files := (fs_files fs)(path := x) \<rparr>)) = fst (file_get U dir key fs)"
    by (auto simp: file_get_def next_fault_def dest: ne split: sum.splits prod.splits option.splits os_fault.splits list.splits)
  ultimately show ?thesis by blast
qed

theorem file_store_confined_witness:
  "let fs = \<lparr> fs_files = [''/etc/passwd'' \<mapsto> [1]], fs_faults = [] \<rparr>
   in \<not> inside_dir ''/blobs'' ''/etc/passwd'' \<and>
      fs_files (snd (file_delete hyphenated ''/blobs'' ''/etc/passwd'' fs)) ''/etc/passwd'' = Some [1]"
proof -
  have out: "\<not> inside_dir ''/blobs'' ''/etc/passwd''"
  proof
    assume "inside_dir ''/blobs'' ''/etc/passwd''"
    then obtain name where n: "''/etc/passwd'' = path_join ''/blobs'' name" "CHR ''/'' \<notin> set name"
      unfolding inside_dir_def by blast
    from path_join_plain [OF n(2), of "''/blobs''"] n(1) show False by simp
  qed
  from file_store_confined [OF hyphenated_ok out, of 0 "[]" "\<lparr> fs_files = [''/etc/passwd'' \<mapsto> [1]], fs_faults = [] \<rparr>" "''/etc/passwd''"]
  show ?thesis using out by simp
qed

end
