(* ===== verification/Circuit_Breaker.thy ===== *)
theory Circuit_Breaker
  imports Prelude
begin

text \<open>
  The per-kind circuit breaker of \<^verbatim>\<open>worklane/src/worker/circuit_breaker.rs\<close>.  The transition rules
  of one breaker belong to the \<^verbatim>\<open>sigorta\<close> crate and are the parameter \<open>sigorta\<close>; this module keeps
  one core per job kind, created on first use, and feeds it the clock.
\<close>

datatype 'g decision = Admitted 'g | Probing 'g | Rejected 'g duration

datatype breaker_event = BreakerSuccess | BreakerFailure

record 'g sigorta =
  sg_new :: "u32 \<Rightarrow> duration \<Rightarrow> 'g"
  sg_admit :: "'g \<Rightarrow> duration \<Rightarrow> 'g decision"
  sg_record :: "'g \<Rightarrow> breaker_event \<Rightarrow> duration \<Rightarrow> 'g"

record breaker_policy =
  bp_failure_threshold :: u32
  bp_open_duration :: duration

definition breaker_policy_default :: breaker_policy where
  "breaker_policy_default = \<lparr> bp_failure_threshold = 5, bp_open_duration = from_secs 30 \<rparr>"

type_synonym 'g breaker_states = "string \<rightharpoonup> 'g"

definition breaker_new :: "'g breaker_states" where
  "breaker_new = Map.empty"

text \<open>\<^verbatim>\<open>entry(kind).or_insert_with(\<dots>)\<close>.\<close>

definition breaker_entry :: "'g sigorta \<Rightarrow> breaker_policy \<Rightarrow> string \<Rightarrow> 'g breaker_states \<Rightarrow> 'g" where
  "breaker_entry S pol kind st =
     (case st kind of Some g \<Rightarrow> g
      | None \<Rightarrow> sg_new S (bp_failure_threshold pol) (bp_open_duration pol))"

definition breaker_admit ::
  "'g sigorta \<Rightarrow> breaker_policy \<Rightarrow> duration \<Rightarrow> string \<Rightarrow> 'g breaker_states \<Rightarrow> duration option \<times> 'g breaker_states" where
  "breaker_admit S pol now kind st =
     (case sg_admit S (breaker_entry S pol kind st) now of
        Admitted g \<Rightarrow> (None, st(kind \<mapsto> g))
      | Probing g \<Rightarrow> (None, st(kind \<mapsto> g))
      | Rejected g retry_after \<Rightarrow> (Some retry_after, st(kind \<mapsto> g)))"

definition breaker_record ::
  "'g sigorta \<Rightarrow> breaker_policy \<Rightarrow> duration \<Rightarrow> string \<Rightarrow> bool \<Rightarrow> 'g breaker_states \<Rightarrow> 'g breaker_states" where
  "breaker_record S pol now kind success st =
     st(kind \<mapsto> sg_record S (breaker_entry S pol kind st)
          (if success then BreakerSuccess else BreakerFailure) now)"

section \<open>Kinds are independent\<close>

text \<open>A use of the breaker: a job asks to be admitted, or its outcome is recorded.\<close>

datatype breaker_op = OpAdmit | OpRecord bool

fun breaker_step ::
  "'g sigorta \<Rightarrow> breaker_policy \<Rightarrow> duration \<times> string \<times> breaker_op \<Rightarrow> 'g breaker_states \<Rightarrow>
   duration option \<times> 'g breaker_states" where
  "breaker_step S pol (now, kind, OpAdmit) st = breaker_admit S pol now kind st"
| "breaker_step S pol (now, kind, OpRecord ok) st = (None, breaker_record S pol now kind ok st)"

fun breaker_run ::
  "'g sigorta \<Rightarrow> breaker_policy \<Rightarrow> (duration \<times> string \<times> breaker_op) list \<Rightarrow> 'g breaker_states \<Rightarrow>
   (string \<times> duration option) list \<times> 'g breaker_states" where
  "breaker_run S pol [] st = ([], st)"
| "breaker_run S pol (x # xs) st =
     (let (d, st1) = breaker_step S pol x st; (ds, st2) = breaker_run S pol xs st1
      in ((fst (snd x), d) # ds, st2))"

text \<open>The reference: a single core, used by one kind alone.\<close>

fun core_step :: "'g sigorta \<Rightarrow> duration \<Rightarrow> breaker_op \<Rightarrow> 'g \<Rightarrow> duration option \<times> 'g" where
  "core_step S now OpAdmit g =
     (case sg_admit S g now of
        Admitted g' \<Rightarrow> (None, g') | Probing g' \<Rightarrow> (None, g') | Rejected g' d \<Rightarrow> (Some d, g'))"
| "core_step S now (OpRecord ok) g = (None, sg_record S g (if ok then BreakerSuccess else BreakerFailure) now)"

fun core_run :: "'g sigorta \<Rightarrow> (duration \<times> breaker_op) list \<Rightarrow> 'g \<Rightarrow> duration option list \<times> 'g" where
  "core_run S [] g = ([], g)"
| "core_run S ((now, opn) # xs) g =
     (let (d, g1) = core_step S now opn g; (ds, g2) = core_run S xs g1 in (d # ds, g2))"

lemma breaker_step_own:
  "breaker_step S pol (now, kind, opn) st =
     (let (d, g) = core_step S now opn (breaker_entry S pol kind st) in (d, st(kind \<mapsto> g)))"
  by (cases opn) (auto simp: breaker_admit_def breaker_record_def split: decision.split)

lemma breaker_entry_upd:
  "breaker_entry S pol k (st(kind \<mapsto> g)) = (if k = kind then g else breaker_entry S pol k st)"
  by (simp add: breaker_entry_def)

definition own_ops :: "string \<Rightarrow> (duration \<times> string \<times> breaker_op) list \<Rightarrow> (duration \<times> breaker_op) list" where
  "own_ops k xs = map (\<lambda>(now, kind, opn). (now, opn)) (filter (\<lambda>(now, kind, opn). kind = k) xs)"

text \<open>C22: the breakers of different kinds do not interfere.  Along any sequence of admissions and
  recorded outcomes, the decisions for one kind and its final state are those of a single core that
  sees only the operations of that kind.\<close>

theorem breaker_kinds_independent:
  "(let (ds, st') = breaker_run S pol xs st; (cs, g') = core_run S (own_ops k xs) (breaker_entry S pol k st)
    in map snd (filter (\<lambda>(kind, d). kind = k) ds) = cs \<and> breaker_entry S pol k st' = g')"
proof (induction xs arbitrary: st)
  case Nil
  then show ?case by (simp add: own_ops_def)
next
  case (Cons x xs)
  obtain now kind opn where x: "x = (now, kind, opn)" by (cases x)
  obtain d g where core: "core_step S now opn (breaker_entry S pol kind st) = (d, g)" by fastforce
  define st1 where "st1 = st(kind \<mapsto> g)"
  obtain ds st2 where run: "breaker_run S pol xs st1 = (ds, st2)" by fastforce
  have step: "breaker_step S pol x st = (d, st1)" using core by (simp add: x breaker_step_own st1_def)
  have entry: "breaker_entry S pol k st1 = (if k = kind then g else breaker_entry S pol k st)"
    unfolding st1_def by (rule breaker_entry_upd)
  show ?case
  proof (cases "k = kind")
    case True
    with Cons.IH [of st1] run step core entry show ?thesis
      by (simp add: x own_ops_def split: prod.splits)
  next
    case False
    with Cons.IH [of st1] run step entry show ?thesis
      by (auto simp: x own_ops_def split: prod.splits)
  qed
qed

end
