(* ===== verification/Worker_Exec.thy ===== *)
theory Worker_Exec
  imports Broker_Contract Claim_Check Circuit_Breaker Retry
begin

text \<open>
  The life of one reserved job in the worker, \<^verbatim>\<open>worklane/src/worker/execution.rs\<close> and
  \<^verbatim>\<open>middleware.rs\<close>, with the observer events of \<^verbatim>\<open>worklane-core/src/observer.rs\<close>.  The world is the
  state the worker shares with everybody else: the stores, the breaker, the clocks, the flags.  A
  handler (and a middleware) is user code: any transformer of the world, so that what other clients
  do while the handler runs, and the time it takes, is part of its run.  A job that is maintained
  runs beside its heartbeat and its deadline; the order in which they come due is the list of
  \<open>mevent\<close>s, an argument.
\<close>

section \<open>The observer\<close>

datatype job_outcome = OutcomeAcked | OutcomeRetried | OutcomeDeadLettered

datatype observer_event =
    JobStarted string string
  | JobStopped string string
  | JobFinished string string job_outcome duration

section \<open>The world\<close>

record 'r result_store =
  rs_store :: "job_id \<Rightarrow> bytes \<Rightarrow> 'r \<Rightarrow> unit result \<times> 'r"
  rs_get :: "job_id \<Rightarrow> 'r \<Rightarrow> bytes option result"

record ('s, 'r, 'p, 'g) world =
  w_broker :: 's
  w_results :: 'r
  w_payloads :: 'p
  w_breaker :: "'g breaker_states"
  w_events :: "observer_event list"
  w_flags :: flags
  w_next_flag :: nat
  w_now :: duration
  w_instant :: duration
  w_uuids :: nat

datatype panic_payload = PanicStr string | PanicString string | PanicOther

datatype handler_run = Returned "bytes result" | Panicked panic_payload

type_synonym 'w handler = "job_context \<Rightarrow> bytes \<Rightarrow> 'w \<Rightarrow> handler_run \<times> 'w"
type_synonym 'w middleware = "job_context \<Rightarrow> bytes \<Rightarrow> 'w handler \<Rightarrow> 'w \<Rightarrow> handler_run \<times> 'w"

text \<open>The typed handler behind a \<^verbatim>\<open>JobDispatcher\<close>: decode, run, encode.\<close>

datatype 'o job_run = JobOk 'o | JobErr string | JobPanic panic_payload

definition job_dispatch ::
  "(bytes \<Rightarrow> string + 'a) \<Rightarrow> ('o \<Rightarrow> string + bytes) \<Rightarrow>
   (job_context \<Rightarrow> 'a \<Rightarrow> 'w \<Rightarrow> 'o job_run \<times> 'w) \<Rightarrow> (message \<Rightarrow> string) \<Rightarrow> 'w handler" where
  "job_dispatch from_slice to_vec run show ctx payload w =
     (case from_payload from_slice payload of
        Inl e \<Rightarrow> (Returned (Inl e), w)
      | Inr x \<Rightarrow>
          (case run ctx x w of
             (JobPanic p, w') \<Rightarrow> (Panicked p, w')
           | (JobErr e, w') \<Rightarrow> (Returned (Inl (Handler [Lit e])), w')
           | (JobOk out, w') \<Rightarrow>
               (Returned (map_err (\<lambda>e. OutputEncode [Lit (show (display_error e))]) (to_payload to_vec out)), w')))"

text \<open>The middleware chain, outermost first.\<close>

fun next_run :: "'w middleware list \<Rightarrow> 'w handler \<Rightarrow> 'w handler" where
  "next_run [] h ctx payload w = h ctx payload w"
| "next_run (mw # rest) h ctx payload w = mw ctx payload (next_run rest h) w"

definition panic_message :: "panic_payload \<Rightarrow> message" where
  "panic_message p =
     [Lit ''handler panicked: '',
      Lit (case p of PanicStr s \<Rightarrow> s | PanicString s \<Rightarrow> s | PanicOther \<Rightarrow> ''handler panicked'')]"

fun run_result :: "handler_run \<Rightarrow> bytes result" where
  "run_result (Returned r) = r"
| "run_result (Panicked p) = Inl (Handler (panic_message p))"

datatype handler_outcome = Completed "bytes result" | TimedOut duration

section \<open>The context of a worker\<close>

text \<open>How a \<^verbatim>\<open>format!\<close> text prints, the hash of a job id that seeds the jitter (the \<^verbatim>\<open>uuid\<close> crate
  decides both for an id), the receipt minted for the n-th reservation and the n-th random UUID.\<close>

record host =
  hs_show :: "message \<Rightarrow> string"
  hs_seed :: "job_id \<Rightarrow> u64"
  hs_receipt :: "nat \<Rightarrow> receipt"
  hs_uuid :: "nat \<Rightarrow> uuid"

record ('s, 'r, 'p, 'g) process_ctx =
  pc_broker :: "'s broker"
  pc_result_store :: "'r result_store option"
  pc_payload_store :: "'p payload_store option"
  pc_observer :: bool
  pc_circuit_breaker :: "('g sigorta \<times> breaker_policy) option"
  pc_middleware :: "('s, 'r, 'p, 'g) world middleware list"
  pc_retry :: retry_policy
  pc_handler_timeout :: "duration option"
  pc_lease_keepalive :: bool

definition notify :: "('s, 'r, 'p, 'g) process_ctx \<Rightarrow> observer_event \<Rightarrow> ('s, 'r, 'p, 'g) world \<Rightarrow> ('s, 'r, 'p, 'g) world" where
  "notify pc ev w = (if pc_observer pc then w\<lparr> w_events := w_events w @ [ev] \<rparr> else w)"

text \<open>A call on the broker at the time its clock shows.\<close>

definition on_broker ::
  "(duration \<Rightarrow> 's \<Rightarrow> 'x \<times> 's) \<Rightarrow> ('s, 'r, 'p, 'g) world \<Rightarrow> 'x \<times> ('s, 'r, 'p, 'g) world" where
  "on_broker f w = (let (x, s) = f (w_now w) (w_broker w) in (x, w\<lparr> w_broker := s \<rparr>))"

definition record_breaker ::
  "('s, 'r, 'p, 'g) process_ctx \<Rightarrow> string \<Rightarrow> bool \<Rightarrow> ('s, 'r, 'p, 'g) world \<Rightarrow> ('s, 'r, 'p, 'g) world" where
  "record_breaker pc kind success w =
     (case pc_circuit_breaker pc of
        None \<Rightarrow> w
      | Some (S, pol) \<Rightarrow> w\<lparr> w_breaker := breaker_record S pol (w_instant w) kind success (w_breaker w) \<rparr>)"

definition resolve ::
  "('s, 'r, 'p, 'g) process_ctx \<Rightarrow> job_envelope \<Rightarrow> job_outcome \<Rightarrow> duration \<Rightarrow> unit result \<Rightarrow>
   ('s, 'r, 'p, 'g) world \<Rightarrow> unit result \<times> ('s, 'r, 'p, 'g) world" where
  "resolve pc env outcome started res w =
     (case res of
        Inr u \<Rightarrow> (Inr (), notify pc (JobFinished (lane_str (env_lane env)) (env_kind env) outcome
                              (dur_saturating_sub (w_instant w) started)) w)
      | Inl e \<Rightarrow> (if is_stale e then Inr () else Inl e, w))"

definition handle_failure ::
  "host \<Rightarrow> ('s, 'r, 'p, 'g) process_ctx \<Rightarrow> receipt \<Rightarrow> job_envelope \<Rightarrow> duration \<Rightarrow> error \<Rightarrow>
   ('s, 'r, 'p, 'g) world \<Rightarrow> unit result \<times> ('s, 'r, 'p, 'g) world" where
  "handle_failure H pc rcpt env started err w =
     (let completed = u32_saturating_add (env_attempts env) 1 in
      if completed < env_max_attempts env then
        let delay = delay_for_seeded (pc_retry pc) (env_attempts env) (hs_seed H (env_id env));
            (res, w1) = on_broker (\<lambda>now. bk_retry (pc_broker pc) now rcpt delay) w
        in resolve pc env OutcomeRetried started res w1
      else
        let reason = redact_credentials (hs_show H (display_error err));
            (res, w1) = on_broker (\<lambda>now. bk_fail (pc_broker pc) now rcpt reason) w
        in resolve pc env OutcomeDeadLettered started res w1)"

definition no_payload_store :: error where
  "no_payload_store = Handler [Lit (''job payload is a claim-check reference but the worker has no payload store '' @
     ''configured (call Worker::with_payload_store)'')]"

definition resolve_payload ::
  "('s, 'r, 'p, 'g) process_ctx \<Rightarrow> bytes \<Rightarrow> ('s, 'r, 'p, 'g) world \<Rightarrow> bytes result \<times> ('s, 'r, 'p, 'g) world" where
  "resolve_payload pc payload w =
     (case reference_key payload of
        None \<Rightarrow> (Inr payload, w)
      | Some key \<Rightarrow>
          (case pc_payload_store pc of
             None \<Rightarrow> (Inl no_payload_store, w)
           | Some P \<Rightarrow>
               (let (g, p) = ps_get P key (w_payloads w); w1 = w\<lparr> w_payloads := p \<rparr>
                in case g of
                     Inl e \<Rightarrow> (Inl e, w1)
                   | Inr None \<Rightarrow> (Inl (missing_payload key), w1)
                   | Inr (Some b) \<Rightarrow> (Inr b, w1))))"

definition delete_payload ::
  "('s, 'r, 'p, 'g) process_ctx \<Rightarrow> bytes \<Rightarrow> ('s, 'r, 'p, 'g) world \<Rightarrow> ('s, 'r, 'p, 'g) world" where
  "delete_payload pc payload w =
     (case reference_key payload of
        None \<Rightarrow> w
      | Some key \<Rightarrow>
          (case pc_payload_store pc of
             None \<Rightarrow> w
           | Some P \<Rightarrow> w\<lparr> w_payloads := snd (ps_delete P key (w_payloads w)) \<rparr>))"

section \<open>The maintained run\<close>

datatype 'w mevent =
    HeartbeatDue
  | DeadlineDue
  | HandlerDone
  | HandlerLost
  | Elapse "'w \<Rightarrow> 'w"

definition heartbeat_every :: "duration \<Rightarrow> duration" where
  "heartbeat_every lease = max (lease div 3) (from_millis 50)"

definition signal_cancel :: "cancellation \<Rightarrow> ('s, 'r, 'p, 'g) world \<Rightarrow> ('s, 'r, 'p, 'g) world" where
  "signal_cancel c w = w\<lparr> w_flags := cancel c (w_flags w) \<rparr>"

text \<open>One beat: a rejected or failed extension signals cancellation and stops the heartbeat.\<close>

definition heartbeat ::
  "('s, 'r, 'p, 'g) process_ctx \<Rightarrow> receipt \<Rightarrow> cancellation \<Rightarrow> ('s, 'r, 'p, 'g) world \<Rightarrow>
   bool \<times> ('s, 'r, 'p, 'g) world" where
  "heartbeat pc rcpt c w =
     (case on_broker (\<lambda>now. bk_extend (pc_broker pc) now rcpt) w of
        (Inr u, w1) \<Rightarrow> (True, w1)
      | (Inl e, w1) \<Rightarrow> (False, signal_cancel c w1))"

text \<open>The events in their order, until the handler or the deadline decides the outcome.  With no
  timeout the deadline never comes due.  If the events end first the whole future was dropped.\<close>

fun run_maintained ::
  "('s, 'r, 'p, 'g) process_ctx \<Rightarrow> (('s, 'r, 'p, 'g) world \<Rightarrow> handler_run \<times> ('s, 'r, 'p, 'g) world) \<Rightarrow> receipt \<Rightarrow>
   duration option \<Rightarrow> cancellation \<Rightarrow> ('s, 'r, 'p, 'g) world mevent list \<Rightarrow> bool \<Rightarrow> ('s, 'r, 'p, 'g) world \<Rightarrow>
   handler_outcome option \<times> ('s, 'r, 'p, 'g) world" where
  "run_maintained pc h rcpt timeout c [] beating w = (None, w)"
| "run_maintained pc h rcpt timeout c (Elapse f # evs) beating w =
     run_maintained pc h rcpt timeout c evs beating (f w)"
| "run_maintained pc h rcpt timeout c (HeartbeatDue # evs) beating w =
     (let (beating', w1) = (if beating then heartbeat pc rcpt c w else (False, w))
      in run_maintained pc h rcpt timeout c evs beating' w1)"
| "run_maintained pc h rcpt timeout c (HandlerDone # evs) beating w =
     (let (r, w1) = h w in (Some (Completed (run_result r)), w1))"
| "run_maintained pc h rcpt timeout c (HandlerLost # evs) beating w =
     (Some (Completed (Inl (Handler [Lit ''handler task ended without a result'']))), w)"
| "run_maintained pc h rcpt timeout c (DeadlineDue # evs) beating w =
     (case timeout of
        None \<Rightarrow> run_maintained pc h rcpt timeout c evs beating w
      | Some t \<Rightarrow> (Some (TimedOut t), signal_cancel c w))"

section \<open>Processing a reservation\<close>

text \<open>The handler chain on a payload: maintained when a timeout or the keepalive is configured,
  inline otherwise.\<close>

definition run_handler ::
  "('s, 'r, 'p, 'g) process_ctx \<Rightarrow> ('s, 'r, 'p, 'g) world handler \<Rightarrow> job_context \<Rightarrow> bytes \<Rightarrow> receipt \<Rightarrow>
   ('s, 'r, 'p, 'g) world mevent list \<Rightarrow> ('s, 'r, 'p, 'g) world \<Rightarrow> handler_outcome option \<times> ('s, 'r, 'p, 'g) world" where
  "run_handler pc h ctx payload rcpt evs w =
     (let chain = next_run (pc_middleware pc) h ctx payload in
      if pc_handler_timeout pc \<noteq> None \<or> pc_lease_keepalive pc
      then run_maintained pc chain rcpt (pc_handler_timeout pc) (ctx_cancellation ctx) evs True w
      else let (r, w1) = chain w in (Some (Completed (run_result r)), w1))"

text \<open>The handler returned its output: store the result, ack, and only then credit the breaker and
  drop the claim-check blob.\<close>

definition commit_success ::
  "('s, 'r, 'p, 'g) process_ctx \<Rightarrow> receipt \<Rightarrow> job_envelope \<Rightarrow> duration \<Rightarrow>
   ('s, 'r, 'p, 'g) world \<Rightarrow> unit result \<times> ('s, 'r, 'p, 'g) world" where
  "commit_success pc rcpt env started w =
     (let (acked, w1) = on_broker (\<lambda>now. bk_ack (pc_broker pc) now rcpt) w;
          w2 = (if is_ok acked then delete_payload pc (env_payload env) (record_breaker pc (env_kind env) True w1)
                else w1)
      in resolve pc env OutcomeAcked started acked w2)"

definition finish ::
  "host \<Rightarrow> ('s, 'r, 'p, 'g) process_ctx \<Rightarrow> receipt \<Rightarrow> job_envelope \<Rightarrow> duration \<Rightarrow> handler_outcome \<Rightarrow>
   ('s, 'r, 'p, 'g) world \<Rightarrow> unit result \<times> ('s, 'r, 'p, 'g) world" where
  "finish H pc rcpt env started outcome w =
     (case outcome of
        Completed (Inr output) \<Rightarrow>
          (case pc_result_store pc of
             None \<Rightarrow> commit_success pc rcpt env started w
           | Some R \<Rightarrow>
               (let (stored, rs) = rs_store R (env_id env) output (w_results w); w1 = w\<lparr> w_results := rs \<rparr>
                in case stored of
                     Inl e \<Rightarrow> handle_failure H pc rcpt env started e (record_breaker pc (env_kind env) False w1)
                   | Inr u \<Rightarrow> commit_success pc rcpt env started w1))
      | Completed (Inl (Serialization m)) \<Rightarrow>
          (let reason = redact_credentials (hs_show H (Lit ''serialization error: '' # m));
               (res, w1) = on_broker (\<lambda>now. bk_fail (pc_broker pc) now rcpt reason) w
           in resolve pc env OutcomeDeadLettered started res w1)
      | Completed (Inl err) \<Rightarrow>
          handle_failure H pc rcpt env started err (record_breaker pc (env_kind env) False w)
      | TimedOut t \<Rightarrow>
          handle_failure H pc rcpt env started (Handler [Lit ''handler timed out after '', FDebugDur t])
            (record_breaker pc (env_kind env) False w))"

definition admit_job ::
  "('s, 'r, 'p, 'g) process_ctx \<Rightarrow> string \<Rightarrow> ('s, 'r, 'p, 'g) world \<Rightarrow> duration option \<times> ('s, 'r, 'p, 'g) world" where
  "admit_job pc kind w =
     (case pc_circuit_breaker pc of
        None \<Rightarrow> (None, w)
      | Some (S, pol) \<Rightarrow>
          (let (d, st) = breaker_admit S pol (w_instant w) kind (w_breaker w) in (d, w\<lparr> w_breaker := st \<rparr>)))"

definition dispatch_job ::
  "host \<Rightarrow> ('s, 'r, 'p, 'g) process_ctx \<Rightarrow> ('s, 'r, 'p, 'g) world handler option \<Rightarrow> job_context \<Rightarrow> reservation \<Rightarrow>
   duration \<Rightarrow> ('s, 'r, 'p, 'g) world mevent list \<Rightarrow> ('s, 'r, 'p, 'g) world \<Rightarrow>
   unit result option \<times> ('s, 'r, 'p, 'g) world" where
  "dispatch_job H pc handler ctx rsv started evs w =
     (let rcpt = rsv_receipt rsv; env = rsv_envelope rsv in
      case handler of
        None \<Rightarrow>
          (let (res, w1) = on_broker (\<lambda>now. bk_fail (pc_broker pc) now rcpt (''unknown job kind: '' @ env_kind env)) w;
               (r, w2) = resolve pc env OutcomeDeadLettered started res w1
           in (Some r, w2))
      | Some h \<Rightarrow>
          (case admit_job pc (env_kind env) w of
             (Some delay, w1) \<Rightarrow>
               (let (res, w2) = on_broker (\<lambda>now. bk_defer (pc_broker pc) now rcpt delay) w1
                in (Some (case res of Inr u \<Rightarrow> Inr () | Inl e \<Rightarrow> if is_stale e then Inr () else Inl e), w2))
           | (None, w1) \<Rightarrow>
               (case resolve_payload pc (env_payload env) w1 of
                  (Inl e, w2) \<Rightarrow> map_prod Some id (handle_failure H pc rcpt env started e w2)
                | (Inr payload, w2) \<Rightarrow>
                    (case run_handler pc h ctx payload rcpt evs w2 of
                       (None, w3) \<Rightarrow> (None, w3)
                     | (Some outcome, w3) \<Rightarrow> map_prod Some id (finish H pc rcpt env started outcome w3)))))"

text \<open>\<^verbatim>\<open>ProcessCtx::process\<close>.  The in-flight guard reports the start on creation and the stop when it
  is dropped, however the run ends; \<open>None\<close> is a run whose future was dropped.\<close>

definition process ::
  "host \<Rightarrow> ('s, 'r, 'p, 'g) process_ctx \<Rightarrow> ('s, 'r, 'p, 'g) world handler option \<Rightarrow> reservation \<Rightarrow>
   ('s, 'r, 'p, 'g) world mevent list \<Rightarrow> ('s, 'r, 'p, 'g) world \<Rightarrow> unit result option \<times> ('s, 'r, 'p, 'g) world" where
  "process H pc handler rsv evs w =
     (let env = rsv_envelope rsv; started = w_instant w;
          c = Cancellation (w_next_flag w); c' = Cancellation (Suc (w_next_flag w));
          w1 = w\<lparr> w_flags := (w_flags w)(w_next_flag w := False, Suc (w_next_flag w) := False),
                  w_next_flag := w_next_flag w + 2 \<rparr>;
          ctx = with_cancellation c (job_context_of c' env);
          lane = lane_str (env_lane env); kind = env_kind env;
          (r, w2) = dispatch_job H pc handler ctx rsv started evs (notify pc (JobStarted lane kind) w1)
      in (r, notify pc (JobStopped lane kind) w2))"

end
