(* ===== verification/Worker_Laws.thy ===== *)
theory Worker_Laws
  imports Worker_Exec
begin

text \<open>
  What the worker does with a reserved job.  The specification is a \<open>verdict\<close> on the outcome of the
  handler; the worker's code performs the one broker call of the verdict and reports, records and
  cleans up accordingly, for every broker.  Over a broker that keeps the contract this gives the
  fate of the job.
\<close>

section \<open>The verdict\<close>

datatype verdict = VAck | VRetry duration | VDead string

definition failure_verdict :: "host \<Rightarrow> ('s, 'r, 'p, 'g) process_ctx \<Rightarrow> job_envelope \<Rightarrow> error \<Rightarrow> verdict" where
  "failure_verdict H pc env err =
     (if unat (env_attempts env) + 1 < unat (env_max_attempts env)
      then VRetry (delay_for_seeded (pc_retry pc) (env_attempts env) (hs_seed H (env_id env)))
      else VDead (redact_credentials (hs_show H (display_error err))))"

text \<open>Only a serialization error is final whatever attempts are left; an output that could not be
  stored counts as a failure of the job.\<close>

fun verdict_on :: "host \<Rightarrow> ('s, 'r, 'p, 'g) process_ctx \<Rightarrow> job_envelope \<Rightarrow> handler_outcome \<Rightarrow> unit result \<Rightarrow> verdict" where
  "verdict_on H pc env (Completed (Inr out)) (Inr u) = VAck"
| "verdict_on H pc env (Completed (Inr out)) (Inl e) = failure_verdict H pc env e"
| "verdict_on H pc env (Completed (Inl (Serialization m))) stored =
     VDead (redact_credentials (hs_show H (display_error (Serialization m))))"
| "verdict_on H pc env (Completed (Inl err)) stored = failure_verdict H pc env err"
| "verdict_on H pc env (TimedOut t) stored =
     failure_verdict H pc env (Handler [Lit ''handler timed out after '', FDebugDur t])"

fun verdict_call :: "'s broker \<Rightarrow> duration \<Rightarrow> receipt \<Rightarrow> verdict \<Rightarrow> 's \<Rightarrow> unit result \<times> 's" where
  "verdict_call B now rcpt VAck = bk_ack B now rcpt"
| "verdict_call B now rcpt (VRetry d) = bk_retry B now rcpt d"
| "verdict_call B now rcpt (VDead reason) = bk_fail B now rcpt reason"

fun verdict_outcome :: "verdict \<Rightarrow> job_outcome" where
  "verdict_outcome VAck = OutcomeAcked"
| "verdict_outcome (VRetry d) = OutcomeRetried"
| "verdict_outcome (VDead reason) = OutcomeDeadLettered"

text \<open>What is stored of the outcome, and with which result.\<close>

fun store_output :: "('s, 'r, 'p, 'g) process_ctx \<Rightarrow> job_id \<Rightarrow> handler_outcome \<Rightarrow> 'r \<Rightarrow> unit result \<times> 'r" where
  "store_output pc i (Completed (Inr out)) rs =
     (case pc_result_store pc of None \<Rightarrow> (Inr (), rs) | Some R \<Rightarrow> rs_store R i out rs)"
| "store_output pc i _ rs = (Inr (), rs)"

text \<open>The breaker hears of a success after a successful ack, of a failure for every failure but a
  payload that does not decode, and of nothing when an ack was refused.\<close>

definition breaker_vote :: "handler_outcome \<Rightarrow> unit result \<Rightarrow> bool \<Rightarrow> bool option" where
  "breaker_vote outcome stored called_ok =
     (case outcome of
        Completed (Inr out) \<Rightarrow> (if is_ok stored then (if called_ok then Some True else None) else Some False)
      | Completed (Inl (Serialization m)) \<Rightarrow> None
      | _ \<Rightarrow> Some False)"

definition vote :: "('s, 'r, 'p, 'g) process_ctx \<Rightarrow> duration \<Rightarrow> string \<Rightarrow> bool option \<Rightarrow> 'g breaker_states \<Rightarrow> 'g breaker_states" where
  "vote pc now kind v st =
     (case (v, pc_circuit_breaker pc) of
        (Some ok, Some (S, pol)) \<Rightarrow> breaker_record S pol now kind ok st
      | _ \<Rightarrow> st)"

definition swallow_stale :: "unit result \<Rightarrow> unit result" where
  "swallow_stale res = (case res of Inr u \<Rightarrow> Inr () | Inl e \<Rightarrow> if is_stale e then Inr () else Inl e)"

section \<open>The pieces\<close>

lemma u32_next_less:
  "u32_saturating_add a 1 < b \<longleftrightarrow> unat a + 1 < unat b"
proof -
  have "unat b \<le> U32_MAX" by (rule unat_u32_le)
  then show ?thesis unfolding word_less_nat_alt unat_u32_saturating_add by auto
qed

lemma on_broker_eq:
  "on_broker f w = (fst (f (w_now w) (w_broker w)), w\<lparr> w_broker := snd (f (w_now w) (w_broker w)) \<rparr>)"
  by (simp add: on_broker_def split: prod.split)

lemma notify_fields [simp]:
  "w_broker (notify pc ev w) = w_broker w" "w_results (notify pc ev w) = w_results w"
  "w_payloads (notify pc ev w) = w_payloads w" "w_breaker (notify pc ev w) = w_breaker w"
  "w_flags (notify pc ev w) = w_flags w" "w_next_flag (notify pc ev w) = w_next_flag w"
  "w_now (notify pc ev w) = w_now w" "w_instant (notify pc ev w) = w_instant w"
  "w_events (notify pc ev w) = w_events w @ (if pc_observer pc then [ev] else [])"
  by (simp_all add: notify_def)

lemma record_breaker_vote:
  "record_breaker pc kind ok w = w\<lparr> w_breaker := vote pc (w_instant w) kind (Some ok) (w_breaker w) \<rparr>"
  by (auto simp: record_breaker_def vote_def split: option.split)

lemma vote_None [simp]: "vote pc now kind None st = st"
  by (simp add: vote_def)

text \<open>The effects of a resolution call: one call on the broker, and an event when it took effect.\<close>

definition called ::
  "('s, 'r, 'p, 'g) process_ctx \<Rightarrow> receipt \<Rightarrow> job_envelope \<Rightarrow> duration \<Rightarrow> verdict \<Rightarrow>
   ('s, 'r, 'p, 'g) world \<Rightarrow> unit result \<times> ('s, 'r, 'p, 'g) world" where
  "called pc rcpt env started v w =
     (let (res, s) = verdict_call (pc_broker pc) (w_now w) rcpt v (w_broker w)
      in (swallow_stale res,
          w\<lparr> w_broker := s,
             w_events := w_events w @
               (if is_ok res \<and> pc_observer pc
                then [JobFinished (lane_str (env_lane env)) (env_kind env) (verdict_outcome v)
                        (dur_saturating_sub (w_instant w) started)] else []) \<rparr>))"

lemma resolve_called:
  assumes "on_broker (\<lambda>now. verdict_call (pc_broker pc) now rcpt v) w = (res, w1)"
  shows "resolve pc env (verdict_outcome v) started res w1 = called pc rcpt env started v w"
  using assms
  by (cases res)
    (auto simp: resolve_def called_def swallow_stale_def on_broker_def notify_def split: prod.splits)

lemma handle_failure_called:
  "handle_failure H pc rcpt env started err w = called pc rcpt env started (failure_verdict H pc env err) w"
proof (cases "u32_saturating_add (env_attempts env) 1 < env_max_attempts env")
  case True
  then have v: "failure_verdict H pc env err =
      VRetry (delay_for_seeded (pc_retry pc) (env_attempts env) (hs_seed H (env_id env)))"
    by (simp add: failure_verdict_def u32_next_less)
  obtain res w1 where ob: "on_broker (\<lambda>now. verdict_call (pc_broker pc) now rcpt (failure_verdict H pc env err)) w = (res, w1)"
    by fastforce
  from resolve_called [OF ob, of env started] ob True show ?thesis
    by (simp add: handle_failure_def v)
next
  case False
  then have v: "failure_verdict H pc env err = VDead (redact_credentials (hs_show H (display_error err)))"
    by (simp add: failure_verdict_def u32_next_less)
  obtain res w1 where ob: "on_broker (\<lambda>now. verdict_call (pc_broker pc) now rcpt (failure_verdict H pc env err)) w = (res, w1)"
    by fastforce
  from resolve_called [OF ob, of env started] ob False show ?thesis
    by (simp add: handle_failure_def v)
qed

lemma delete_payload_fields [simp]:
  "w_broker (delete_payload pc b w) = w_broker w" "w_results (delete_payload pc b w) = w_results w"
  "w_breaker (delete_payload pc b w) = w_breaker w" "w_events (delete_payload pc b w) = w_events w"
  "w_now (delete_payload pc b w) = w_now w" "w_instant (delete_payload pc b w) = w_instant w"
  "w_flags (delete_payload pc b w) = w_flags w" "w_next_flag (delete_payload pc b w) = w_next_flag w"
  by (simp_all add: delete_payload_def split: option.split)

lemma delete_payload_cong:
  "w_payloads w = w_payloads w' \<Longrightarrow> w_payloads (delete_payload pc b w) = w_payloads (delete_payload pc b w')"
  by (simp add: delete_payload_def split: option.split)

lemma commit_success_called:
  fixes pc :: "('s, 'r, 'p, 'g) process_ctx" and w :: "('s, 'r, 'p, 'g) world"
  assumes ack: "bk_ack (pc_broker pc) (w_now w) rcpt (w_broker w) = (res, s)"
    and run: "commit_success pc rcpt env started w = (r, w')"
  shows "r = swallow_stale res" and "w_broker w' = s" and "w_results w' = w_results w"
    and "w_events w' = w_events (snd (called pc rcpt env started VAck w))"
    and "w_payloads w' = (if is_ok res then w_payloads (delete_payload pc (env_payload env) w) else w_payloads w)"
    and "w_breaker w' = vote pc (w_instant w) (env_kind env) (if is_ok res then Some True else None) (w_breaker w)"
proof -
  have "r = swallow_stale res \<and> w_broker w' = s \<and> w_results w' = w_results w \<and>
      w_events w' = w_events (snd (called pc rcpt env started VAck w))"
    using ack run by (cases res) (auto simp: commit_success_def on_broker_def resolve_def called_def
        swallow_stale_def record_breaker_vote Let_def)
  then show "r = swallow_stale res" "w_broker w' = s" "w_results w' = w_results w"
    "w_events w' = w_events (snd (called pc rcpt env started VAck w))" by blast+
  show "w_payloads w' = (if is_ok res then w_payloads (delete_payload pc (env_payload env) w) else w_payloads w)"
    using ack run by (cases res) (auto simp: commit_success_def on_broker_def resolve_def
        record_breaker_vote Let_def intro!: delete_payload_cong)
  show "w_breaker w' = vote pc (w_instant w) (env_kind env) (if is_ok res then Some True else None) (w_breaker w)"
    using ack run by (cases res) (auto simp: commit_success_def on_broker_def resolve_def
        record_breaker_vote Let_def)
qed

lemma finish_verdict:
  fixes pc :: "('s, 'r, 'p, 'g) process_ctx" and w :: "('s, 'r, 'p, 'g) world"
  assumes st: "store_output pc (env_id env) outcome (w_results w) = (stored, rs)"
    and v_def: "v = verdict_on H pc env outcome stored"
    and call: "verdict_call (pc_broker pc) (w_now w) rcpt v (w_broker w) = (res, s)"
    and fin: "finish H pc rcpt env started outcome w = (r, w')"
  shows "r = swallow_stale res \<and> w_broker w' = s \<and> w_results w' = rs \<and>
      w_events w' = w_events w @
        (if is_ok res \<and> pc_observer pc
         then [JobFinished (lane_str (env_lane env)) (env_kind env) (verdict_outcome v)
                 (dur_saturating_sub (w_instant w) started)] else []) \<and>
      w_payloads w' = (if v = VAck \<and> is_ok res then w_payloads (delete_payload pc (env_payload env) w)
                       else w_payloads w) \<and>
      w_breaker w' = vote pc (w_instant w) (env_kind env) (breaker_vote outcome stored (is_ok res)) (w_breaker w)"
proof -
  note defs = called_def breaker_vote_def record_breaker_vote handle_failure_called
  have nack: "failure_verdict H pc env e \<noteq> VAck" for e by (simp add: failure_verdict_def)
  show ?thesis
  proof (cases outcome)
    case (TimedOut t)
    with fin st call nack show ?thesis by (auto simp: finish_def v_def defs split: prod.splits)
  next
    case C: (Completed hr)
    show ?thesis
    proof (cases hr)
      case (Inl err)
      show ?thesis
      proof (cases "\<exists>m. err = Serialization m")
        case True
        then obtain m where m: "err = Serialization m" by blast
        obtain res' w1 where ob: "on_broker (\<lambda>now. verdict_call (pc_broker pc) now rcpt v) w = (res', w1)" by fastforce
        from resolve_called [OF ob, of env started] ob fin C Inl m
        have "(r, w') = called pc rcpt env started v w" by (simp add: finish_def v_def)
        with C Inl m st call show ?thesis by (auto simp: v_def defs)
      next
        case False
        then have "finish H pc rcpt env started outcome w =
            handle_failure H pc rcpt env started err (record_breaker pc (env_kind env) False w)"
          and "v = failure_verdict H pc env err"
          and "breaker_vote outcome stored (is_ok res) = Some False"
          using C Inl by (cases err; auto simp: finish_def v_def breaker_vote_def)+
        with C Inl fin st call nack show ?thesis by (auto simp: defs split: prod.splits)
      qed
    next
      case (Inr out)
      show ?thesis
      proof (cases stored)
        case (Inl e)
        then obtain R where R: "pc_result_store pc = Some R" "rs_store R (env_id env) out (w_results w) = (Inl e, rs)"
          using st C Inr by (auto split: option.splits)
        with Inl C Inr fin call nack show ?thesis by (auto simp: finish_def v_def defs split: prod.splits)
      next
        case stored: (Inr u)
        have fin': "commit_success pc rcpt env started (w\<lparr> w_results := rs \<rparr>) = (r, w')"
          using st C Inr stored fin by (auto simp: finish_def split: option.splits)
        have v: "v = VAck" using C Inr stored by (simp add: v_def)
        have pay: "w_payloads (delete_payload pc (env_payload env) (w\<lparr> w_results := rs \<rparr>)) =
            w_payloads (delete_payload pc (env_payload env) w)" by (rule delete_payload_cong) simp
        have ack: "bk_ack (pc_broker pc) (w_now (w\<lparr> w_results := rs \<rparr>)) rcpt (w_broker (w\<lparr> w_results := rs \<rparr>)) = (res, s)"
          using call v by simp
        from commit_success_called [OF ack fin'] C Inr stored v call pay show ?thesis
          by (simp add: breaker_vote_def called_def)
      qed
    qed
  qed
qed

text \<open>C13: the worker resolves a job by exactly one broker call, the one the specification
  \<open>verdict_on\<close> prescribes: ack after a handler that succeeded and whose result is stored, retry with
  the policy's delay while attempts are left, dead-letter with a redacted reason otherwise or for a
  payload that never decodes.  The event is reported exactly when the call took effect, a stale
  rejection is swallowed and every other broker error is returned, the blob of a claim check is
  dropped only after a successful ack, and the breaker hears what \<open>breaker_vote\<close> says.  This holds
  for every broker and every store.\<close>

theorem finish_refines_verdict:
  fixes pc :: "('s, 'r, 'p, 'g) process_ctx" and w :: "('s, 'r, 'p, 'g) world"
  shows "(let (stored, rs) = store_output pc (env_id env) outcome (w_results w);
       v = verdict_on H pc env outcome stored;
       (res, s) = verdict_call (pc_broker pc) (w_now w) rcpt v (w_broker w);
       (r, w') = finish H pc rcpt env started outcome w
   in r = swallow_stale res \<and> w_broker w' = s \<and> w_results w' = rs \<and>
      w_events w' = w_events w @
        (if is_ok res \<and> pc_observer pc
         then [JobFinished (lane_str (env_lane env)) (env_kind env) (verdict_outcome v)
                 (dur_saturating_sub (w_instant w) started)] else []) \<and>
      w_payloads w' = (if v = VAck \<and> is_ok res then w_payloads (delete_payload pc (env_payload env) w)
                       else w_payloads w) \<and>
      w_breaker w' = vote pc (w_instant w) (env_kind env) (breaker_vote outcome stored (is_ok res)) (w_breaker w))"
proof -
  obtain stored rs where st: "store_output pc (env_id env) outcome (w_results w) = (stored, rs)" by fastforce
  obtain res s where call:
    "verdict_call (pc_broker pc) (w_now w) rcpt (verdict_on H pc env outcome stored) (w_broker w) = (res, s)" by fastforce
  obtain r w' where fin: "finish H pc rcpt env started outcome w = (r, w')" by fastforce
  show ?thesis using finish_verdict [OF st refl call fin]
    unfolding st call fin Let_def prod.case by (simp only: st call fin prod.case)
qed

section \<open>Over a broker that keeps the contract\<close>

text \<open>What becomes of a held job under a verdict passed at \<open>t\<close>, seen at \<open>t'\<close>.\<close>

fun fate :: "verdict \<Rightarrow> duration \<Rightarrow> duration \<Rightarrow> jview \<Rightarrow> jview option" where
  "fate VAck t t' v = None"
| "fate (VDead reason) t t' v = None"
| "fate (VRetry d) t t' v =
     Some (v\<lparr> jv_envelope := bump_attempts (jv_envelope v), jv_ready := (t + d \<le> t'), jv_held := None \<rparr>)"

locale worker_broker = broker_total
begin

lemma verdict_call_resolves:
  "\<exists>d e. verdict_call B t r v \<in> {bk_ack B t r, bk_retry B t r d, bk_defer B t r d, bk_extend B t r, bk_fail B t r e}"
  by (cases v) auto

lemma verdict_call_held:
  assumes inv: "inv s" and t: "t \<le> horizon" and held: "holds (view t s) i r" and v: "view t s i = Some jv"
    and call: "verdict_call B t r vd s = (res, s')"
  shows "res = Inr ()" and "inv s'" and "t' \<le> horizon \<Longrightarrow> view t' s' i = fate vd t t' jv"
    and "j \<noteq> i \<Longrightarrow> t \<le> t' \<Longrightarrow> t' \<le> horizon \<Longrightarrow> view t' s' j = view t' s j"
proof -
  obtain d e where mem: "verdict_call B t r vd \<in> {bk_ack B t r, bk_retry B t r d, bk_defer B t r d, bk_extend B t r, bk_fail B t r e}"
    using verdict_call_resolves by blast
  note cur = resolve_current [OF inv t held mem call]
  have ok: "res = Inr ()" by (rule current_accepted [OF inv t held mem call])
  then show "res = Inr ()" .
  from cur show "inv s'" by blast
  from cur show "j \<noteq> i \<Longrightarrow> t \<le> t' \<Longrightarrow> t' \<le> horizon \<Longrightarrow> view t' s' j = view t' s j" by blast
  show "view t' s' i = fate vd t t' jv" if "t' \<le> horizon"
  proof (cases vd)
    case VAck
    with ack_current [OF inv t held] call ok show ?thesis by simp
  next
    case (VRetry d)
    with retry_current [OF inv t held v _ that] call ok show ?thesis by simp
  next
    case (VDead e)
    with fail_current [OF inv t held] call ok show ?thesis by simp
  qed
qed

lemma verdict_call_stale:
  assumes inv: "inv s" and t: "t \<le> horizon" and lost: "\<forall>i. \<not> holds (view t s) i r"
    and call: "verdict_call B t r vd s = (res, s')"
  shows "res = Inl (stale r)" and "inv s'" and "t \<le> t' \<Longrightarrow> t' \<le> horizon \<Longrightarrow> view t' s' i = view t' s i"
proof -
  obtain d e where mem: "verdict_call B t r vd \<in> {bk_ack B t r, bk_retry B t r d, bk_defer B t r d, bk_extend B t r, bk_fail B t r e}"
    using verdict_call_resolves by blast
  show "res = Inl (stale r)" by (rule stale_refused [OF inv t lost mem call])
  from resolve_stale [OF inv t lost mem call] show "inv s'" "t \<le> t' \<Longrightarrow> t' \<le> horizon \<Longrightarrow> view t' s' i = view t' s i" by blast+
qed

lemma finish_held:
  assumes B: "pc_broker pc = B" and inv: "inv (w_broker w)" and t: "w_now w \<le> horizon"
    and held: "holds (view (w_now w) (w_broker w)) i rcpt" and v: "view (w_now w) (w_broker w) i = Some jv"
    and st: "store_output pc (env_id env) outcome (w_results w) = (stored, rs)"
    and fin: "finish H pc rcpt env started outcome w = (r, w')"
  shows "r = Inr ()" and "inv (w_broker w')" and "w_results w' = rs"
    and "t' \<le> horizon \<Longrightarrow> view t' (w_broker w') i = fate (verdict_on H pc env outcome stored) (w_now w) t' jv"
    and "j \<noteq> i \<Longrightarrow> w_now w \<le> t' \<Longrightarrow> t' \<le> horizon \<Longrightarrow> view t' (w_broker w') j = view t' (w_broker w) j"
proof -
  obtain res s where call: "verdict_call B (w_now w) rcpt (verdict_on H pc env outcome stored) (w_broker w) = (res, s)"
    by fastforce
  note fv = finish_verdict [OF st refl call [folded B] fin]
  note vh = verdict_call_held [OF inv t held v call]
  from fv have s: "w_broker w' = s" "r = swallow_stale res" and rs: "w_results w' = rs" by blast+
  with vh(1) show "r = Inr ()" by (simp add: swallow_stale_def)
  show "w_results w' = rs" by (rule rs)
  show "inv (w_broker w')" unfolding s by (rule vh(2))
  show "t' \<le> horizon \<Longrightarrow> view t' (w_broker w') i = fate (verdict_on H pc env outcome stored) (w_now w) t' jv"
    unfolding s by (rule vh(3))
  show "j \<noteq> i \<Longrightarrow> w_now w \<le> t' \<Longrightarrow> t' \<le> horizon \<Longrightarrow> view t' (w_broker w') j = view t' (w_broker w) j"
    unfolding s by (rule vh(4))
qed

lemma finish_stale:
  assumes B: "pc_broker pc = B" and inv: "inv (w_broker w)" and t: "w_now w \<le> horizon"
    and lost: "\<forall>i. \<not> holds (view (w_now w) (w_broker w)) i rcpt"
    and fin: "finish H pc rcpt env started outcome w = (r, w')"
  shows "r = Inr ()" and "inv (w_broker w')" and "w_events w' = w_events w" and "w_payloads w' = w_payloads w"
    and "w_now w \<le> t' \<Longrightarrow> t' \<le> horizon \<Longrightarrow> view t' (w_broker w') j = view t' (w_broker w) j"
proof -
  obtain stored rs where st: "store_output pc (env_id env) outcome (w_results w) = (stored, rs)" by fastforce
  obtain res s where call: "verdict_call B (w_now w) rcpt (verdict_on H pc env outcome stored) (w_broker w) = (res, s)"
    by fastforce
  note fv = finish_verdict [OF st refl call [folded B] fin]
  note vs = verdict_call_stale [OF inv t lost call]
  from fv have s: "w_broker w' = s" by blast
  show "r = Inr ()" using fv vs(1) by (simp add: swallow_stale_def)
  show "w_events w' = w_events w" "w_payloads w' = w_payloads w" using fv vs(1) by simp_all
  show "inv (w_broker w')" unfolding s by (rule vs(2))
  show "w_now w \<le> t' \<Longrightarrow> t' \<le> horizon \<Longrightarrow> view t' (w_broker w') j = view t' (w_broker w) j"
    unfolding s by (rule vs(3))
qed

end

text \<open>A maintained run as the broker sees it: beats, and in between whatever calls other clients make
  until a later time.\<close>

datatype keep_step = Beat | Others "(duration \<times> broker_call) list" duration

definition others :: "'s broker \<Rightarrow> (duration \<times> broker_call) list \<Rightarrow> duration \<Rightarrow> ('s, 'r, 'p, 'g) world \<Rightarrow> ('s, 'r, 'p, 'g) world" where
  "others B cs t w = w\<lparr> w_broker := snd (calls_run B cs (w_broker w)), w_now := t \<rparr>"

fun keep_event :: "'s broker \<Rightarrow> keep_step \<Rightarrow> ('s, 'r, 'p, 'g) world mevent" where
  "keep_event B Beat = HeartbeatDue"
| "keep_event B (Others cs t) = Elapse (others B cs t)"

text \<open>All calls of the run in order, the beats included; every step is over before the lease, last
  extended until \<open>D\<close>, runs out, and nobody else presents the receipt.\<close>

fun keep_calls :: "receipt \<Rightarrow> duration \<Rightarrow> keep_step list \<Rightarrow> (duration \<times> broker_call) list" where
  "keep_calls r now [] = []"
| "keep_calls r now (Beat # ks) = (now, CExtend r) # keep_calls r now ks"
| "keep_calls r now (Others cs t # ks) = cs @ keep_calls r t ks"

fun keep_timely :: "duration \<Rightarrow> receipt \<Rightarrow> duration \<Rightarrow> duration \<Rightarrow> keep_step list \<Rightarrow> bool" where
  "keep_timely lease r D now [] \<longleftrightarrow> True"
| "keep_timely lease r D now (Beat # ks) \<longleftrightarrow> keep_timely lease r (now + lease) now ks"
| "keep_timely lease r D now (Others cs t # ks) \<longleftrightarrow>
     now \<le> t \<and> t < D \<and> list_all (\<lambda>(t1, c). now \<le> t1 \<and> t1 \<le> t \<and> presents c \<noteq> Some r) cs \<and>
     keep_timely lease r D t ks"

fun keep_now :: "duration \<Rightarrow> keep_step list \<Rightarrow> duration" where
  "keep_now now [] = now"
| "keep_now now (Beat # ks) = keep_now now ks"
| "keep_now now (Others cs t # ks) = keep_now t ks"

lemma keep_timely_le: "keep_timely lease r D now ks \<Longrightarrow> now \<le> keep_now now ks"
  by (induction lease r D now ks rule: keep_timely.induct) auto

lemma calls_run_append:
  "snd (calls_run B (cs @ ds) s) = snd (calls_run B ds (snd (calls_run B cs s)))"
  "fst (calls_run B (cs @ ds) s) = fst (calls_run B cs s) @ fst (calls_run B ds (snd (calls_run B cs s)))"
  by (induction cs arbitrary: s) (auto simp: split_beta)

context worker_broker
begin

lemma reserve_held_until:
  assumes "inv s" and "fresh r s" and "t0 \<le> horizon" and "bk_reserve B t0 r l s = (Inr (Some rsv), s1)"
  shows "inv s1" and "held_until (t0 + lease) t0 s1 (env_id (rsv_envelope rsv)) r"
  using reserve_law [OF assms] reserve_some [OF assms] by (blast, force simp: held_until_def holds_def)

lemma maintained_keeps_lease:
  assumes "pc_broker pc = B" and "inv (w_broker w)" and "w_now w \<le> horizon" and "keep_now (w_now w) ks \<le> horizon"
    and "held_until D (w_now w) (w_broker w) i r" and "w_now w < D" and "D \<le> w_now w + lease" and "0 < lease"
    and "keep_timely lease r D (w_now w) ks"
    and "fair_calls fresh horizon (keep_calls r (w_now w) ks) (w_broker w)"
  shows "\<exists>w1. run_maintained pc h r timeout c (map (keep_event B) ks @ [HandlerDone]) True w =
      run_maintained pc h r timeout c [HandlerDone] True w1 \<and>
    w_flags w1 = w_flags w \<and> w_now w1 = keep_now (w_now w) ks \<and> inv (w_broker w1) \<and>
    w_broker w1 = snd (calls_run B (keep_calls r (w_now w) ks) (w_broker w)) \<and>
    (\<forall>out \<in> set (fst (calls_run B (keep_calls r (w_now w) ks) (w_broker w))). \<forall>e. handed_out out = Some e \<longrightarrow> env_id e \<noteq> i) \<and>
    holds (view (w_now w1) (w_broker w1)) i r"
  using assms
proof (induction ks arbitrary: w D)
  case Nil
  then have "holds (view (w_now w) (w_broker w)) i r" by (simp add: held_until_def)
  with Nil show ?case by (intro exI [of _ w]) simp
next
  case (Cons k ks)
  note prems = Cons.prems
  show ?case
  proof (cases k)
    case Beat
    obtain u s1 where ext: "bk_extend B (w_now w) r (w_broker w) = (u, s1)" by fastforce
    have now: "holds (view (w_now w) (w_broker w)) i r" using prems(3,5,6) by (simp add: held_until_def)
    then obtain v where v: "view (w_now w) (w_broker w) i = Some v" by (auto simp: holds_def)
    have mem: "bk_extend B (w_now w) r \<in> {bk_ack B (w_now w) r, bk_retry B (w_now w) r 0, bk_defer B (w_now w) r 0,
        bk_extend B (w_now w) r, bk_fail B (w_now w) r []}" by simp
    have u: "u = Inr ()" by (rule current_accepted [OF prems(2,3) now mem ext])
    have step: "call_step B (w_now w) (CExtend r) (w_broker w) = (OResolved u, s1)" using ext by simp
    have fair: "fair_calls fresh horizon ((w_now w, CExtend r) # keep_calls r (w_now w) ks) (w_broker w)"
      using prems(10) Beat by simp
    note fc = fair_calls_Cons [OF fair prems(2) step]
    let ?w = "w\<lparr> w_broker := s1 \<rparr>"
    have held: "held_until (w_now w + lease) (w_now w) s1 i r"
      using extend_current [OF prems(2,3) now v ext [unfolded u]] by (fastforce simp: held_until_def holds_def)
    have "\<exists>w1. run_maintained pc h r timeout c (map (keep_event B) ks @ [HandlerDone]) True ?w =
        run_maintained pc h r timeout c [HandlerDone] True w1 \<and>
      w_flags w1 = w_flags ?w \<and> w_now w1 = keep_now (w_now ?w) ks \<and> inv (w_broker w1) \<and>
      w_broker w1 = snd (calls_run B (keep_calls r (w_now ?w) ks) (w_broker ?w)) \<and>
      (\<forall>out \<in> set (fst (calls_run B (keep_calls r (w_now ?w) ks) (w_broker ?w))). \<forall>e. handed_out out = Some e \<longrightarrow> env_id e \<noteq> i) \<and>
      holds (view (w_now w1) (w_broker w1)) i r"
      by (rule Cons.IH [where D = "w_now w + lease"]) (use prems Beat held fc in simp_all)
    moreover have "heartbeat pc r c w = (True, ?w)" using prems(1) ext u by (simp add: heartbeat_def on_broker_def)
    ultimately show ?thesis using Beat ext by (simp add: split_beta)
  next
    case (Others cs t)
    obtain outs s1 where run: "calls_run B cs (w_broker w) = (outs, s1)" by fastforce
    have fair: "fair_calls fresh horizon (cs @ keep_calls r t ks) (w_broker w)" using prems(10) Others by simp
    note fc = fair_calls_append [OF fair prems(2) run]
    have tm: "w_now w \<le> t" "t < D" "\<forall>(t1, c) \<in> set cs. w_now w \<le> t1 \<and> t1 \<le> t \<and> presents c \<noteq> Some r"
      "keep_timely lease r D t ks" using prems(9) Others by (auto simp: list_all_iff)
    then have "\<forall>(t1, c) \<in> set cs. w_now w \<le> t1 \<and> t1 < D \<and> presents c \<noteq> Some r" by fastforce
    from calls_keep_lease [OF prems(2) fc(1) run prems(5) this prems(7)] tm
    have held: "held_until D t s1 i r" and
      own: "\<forall>out \<in> set outs. \<forall>e. handed_out out = Some e \<longrightarrow> env_id e \<noteq> i" by fastforce+
    let ?w = "others B cs t w"
    have w: "w_broker ?w = s1" "w_now ?w = t" "w_flags ?w = w_flags w" using run by (simp_all add: others_def)
    have "t \<le> horizon" using prems(4) Others keep_timely_le [OF tm(4)] by simp
    then have "\<exists>w1. run_maintained pc h r timeout c (map (keep_event B) ks @ [HandlerDone]) True ?w =
        run_maintained pc h r timeout c [HandlerDone] True w1 \<and>
      w_flags w1 = w_flags ?w \<and> w_now w1 = keep_now (w_now ?w) ks \<and> inv (w_broker w1) \<and>
      w_broker w1 = snd (calls_run B (keep_calls r (w_now ?w) ks) (w_broker ?w)) \<and>
      (\<forall>out \<in> set (fst (calls_run B (keep_calls r (w_now ?w) ks) (w_broker ?w))). \<forall>e. handed_out out = Some e \<longrightarrow> env_id e \<noteq> i) \<and>
      holds (view (w_now w1) (w_broker w1)) i r"
      by (intro Cons.IH [where D = D]) (use prems Others tm held fc w in simp_all)
    then show ?thesis using Others run w own by (simp add: calls_run_append ball_Un)
  qed
qed

end

section \<open>Through the dispatch\<close>

lemma dispatch_finish:
  assumes "admit_job pc (env_kind (rsv_envelope rsv)) w = (None, w1)"
    and "resolve_payload pc (env_payload (rsv_envelope rsv)) w1 = (Inr payload, w2)"
    and "run_handler pc h ctx payload (rsv_receipt rsv) evs w2 = (Some outcome, w3)"
    and "finish H pc (rsv_receipt rsv) (rsv_envelope rsv) started outcome w3 = (r, w')"
  shows "dispatch_job H pc (Some h) ctx rsv started evs w = (Some r, w')"
  using assms by (simp add: dispatch_job_def)

section \<open>What an observer sees\<close>

definition is_finished :: "string \<Rightarrow> string \<Rightarrow> observer_event \<Rightarrow> bool" where
  "is_finished l k e \<longleftrightarrow> (\<exists>oc d. e = JobFinished l k oc d)"

text \<open>From one world to the next at most one finished job is reported, of the given lane and kind.\<close>

definition one_finish ::
  "('s, 'r, 'p, 'g) process_ctx \<Rightarrow> job_envelope \<Rightarrow> ('s, 'r, 'p, 'g) world \<Rightarrow> ('s, 'r, 'p, 'g) world \<Rightarrow> bool" where
  "one_finish pc env w w' \<longleftrightarrow>
     (\<exists>fin. w_events w' = w_events w @ fin \<and> length fin \<le> 1 \<and> (\<not> pc_observer pc \<longrightarrow> fin = []) \<and>
        list_all (is_finished (lane_str (env_lane env)) (env_kind env)) fin)"

lemma one_finish_quiet: "w_events w' = w_events w \<Longrightarrow> one_finish pc env w w'"
  by (simp add: one_finish_def)

lemma one_finish_from: "w_events w1 = w_events w \<Longrightarrow> one_finish pc env w1 w' \<Longrightarrow> one_finish pc env w w'"
  by (simp add: one_finish_def)

lemma one_finish_called: "one_finish pc env w (snd (called pc rcpt env started v w))"
  by (auto simp: one_finish_def called_def is_finished_def split: prod.split)

lemma one_finish_finish: "one_finish pc env w (snd (finish H pc rcpt env started outcome w))"
proof -
  obtain stored rs where st: "store_output pc (env_id env) outcome (w_results w) = (stored, rs)" by fastforce
  obtain res s where call:
    "verdict_call (pc_broker pc) (w_now w) rcpt (verdict_on H pc env outcome stored) (w_broker w) = (res, s)" by fastforce
  obtain r w' where fin: "finish H pc rcpt env started outcome w = (r, w')" by fastforce
  from finish_verdict [OF st refl call fin] show ?thesis
    unfolding fin by (auto simp: one_finish_def is_finished_def)
qed

definition quiet_handler :: "('s, 'r, 'p, 'g) world handler \<Rightarrow> bool" where
  "quiet_handler h \<longleftrightarrow> (\<forall>ctx b w. w_events (snd (h ctx b w)) = w_events w)"

definition quiet_events :: "('s, 'r, 'p, 'g) world mevent list \<Rightarrow> bool" where
  "quiet_events evs \<longleftrightarrow> (\<forall>f w. Elapse f \<in> set evs \<longrightarrow> w_events (f w) = w_events w)"

lemma heartbeat_events [simp]: "w_events (snd (heartbeat pc rcpt c w)) = w_events w"
  by (auto simp: heartbeat_def signal_cancel_def on_broker_def split: prod.splits sum.splits)

lemma run_maintained_events:
  assumes "\<And>w. w_events (snd (h w)) = w_events w" and "quiet_events evs"
  shows "w_events (snd (run_maintained pc h rcpt timeout c evs beating w)) = w_events w"
  using assms
proof (induction pc h rcpt timeout c evs beating w rule: run_maintained.induct)
  case (3 pc h rcpt timeout c evs beating w)
  from "3.prems"(2) have q: "quiet_events evs" by (simp add: quiet_events_def)
  show ?case
    using "3.IH" [OF refl prod.collapse "3.prems"(1) q] heartbeat_events [of pc rcpt c w]
    by (cases beating) (auto simp: split_beta)
next
  case (4 pc h rcpt timeout c evs beating w)
  then show ?case by (simp add: split_beta)
qed (auto simp: quiet_events_def signal_cancel_def split: option.split)

lemma run_handler_events:
  assumes "quiet_handler (next_run (pc_middleware pc) h)" and "quiet_events evs"
    and "run_handler pc h ctx payload rcpt evs w = (oc, w')"
  shows "w_events w' = w_events w"
proof -
  have q: "w_events (snd (next_run (pc_middleware pc) h ctx payload w)) = w_events w" for w
    using assms(1) by (simp add: quiet_handler_def)
  show ?thesis
    using assms(3) run_maintained_events [where h = "next_run (pc_middleware pc) h ctx payload", OF q assms(2)] q
    by (auto simp: run_handler_def Let_def split_beta split: if_splits) (metis snd_conv)+
qed

lemma dispatch_events:
  assumes "\<And>h. handler = Some h \<Longrightarrow> quiet_handler (next_run (pc_middleware pc) h)" and "quiet_events evs"
  shows "one_finish pc (rsv_envelope rsv) w (snd (dispatch_job H pc handler ctx rsv started evs w))"
proof (cases handler)
  case None
  let ?v = "VDead (''unknown job kind: '' @ env_kind (rsv_envelope rsv))"
  obtain res w1 where ob: "on_broker (\<lambda>now. verdict_call (pc_broker pc) now (rsv_receipt rsv) ?v) w = (res, w1)" by fastforce
  from resolve_called [OF ob, of "rsv_envelope rsv" started] ob None
  have "snd (dispatch_job H pc handler ctx rsv started evs w) = snd (called pc (rsv_receipt rsv) (rsv_envelope rsv) started ?v w)"
    by (cases "called pc (rsv_receipt rsv) (rsv_envelope rsv) started ?v w") (simp add: dispatch_job_def)
  then show ?thesis by (simp add: one_finish_called)
next
  case (Some h)
  obtain ad w1 where ad: "admit_job pc (env_kind (rsv_envelope rsv)) w = (ad, w1)" by fastforce
  then have e1: "w_events w1 = w_events w" by (auto simp: admit_job_def split: option.splits prod.splits)
  show ?thesis
  proof (cases ad)
    case (Some delay)
    with ad \<open>handler = Some h\<close> e1 show ?thesis
      by (intro one_finish_quiet) (simp add: dispatch_job_def on_broker_eq Let_def)
  next
    case None
    obtain pl w2 where pl: "resolve_payload pc (env_payload (rsv_envelope rsv)) w1 = (pl, w2)" by fastforce
    then have e2: "w_events w2 = w_events w"
      using e1 by (auto simp: resolve_payload_def Let_def split: option.splits prod.splits sum.splits)
    show ?thesis
    proof (cases pl)
      case (Inl e)
      with ad pl None \<open>handler = Some h\<close> e2 show ?thesis
        by (auto simp: dispatch_job_def handle_failure_called Let_def intro: one_finish_from one_finish_called)
    next
      case (Inr payload)
      obtain oc w3 where oc: "run_handler pc h ctx payload (rsv_receipt rsv) evs w2 = (oc, w3)" by fastforce
      from run_handler_events [OF assms(1) [OF \<open>handler = Some h\<close>] assms(2) oc] e2
      have e3: "w_events w3 = w_events w" by simp
      from ad pl None Inr oc \<open>handler = Some h\<close> e3 show ?thesis
        by (cases oc) (auto simp: dispatch_job_def Let_def intro: one_finish_quiet one_finish_from one_finish_finish)
    qed
  qed
qed

text \<open>C21: what an observer sees of one job attempt is balanced: it starts once and stops once,
  however the attempt ends (a future dropped half way included), and in between at most one finished
  job is reported, of the same lane and kind.  User code is assumed not to call the observer.\<close>

theorem worker_events_paired:
  assumes "\<And>h. handler = Some h \<Longrightarrow> quiet_handler (next_run (pc_middleware pc) h)" and "quiet_events evs"
    and "process H pc handler rsv evs w = (r, w')" and "pc_observer pc"
  shows "\<exists>fin. w_events w' = w_events w @
      JobStarted (lane_str (env_lane (rsv_envelope rsv))) (env_kind (rsv_envelope rsv)) # fin @
      [JobStopped (lane_str (env_lane (rsv_envelope rsv))) (env_kind (rsv_envelope rsv))] \<and>
    length fin \<le> 1 \<and> list_all (is_finished (lane_str (env_lane (rsv_envelope rsv))) (env_kind (rsv_envelope rsv))) fin"
proof -
  define w0 where "w0 = w\<lparr> w_flags := (w_flags w)(w_next_flag w := False, Suc (w_next_flag w) := False),
    w_next_flag := w_next_flag w + 2 \<rparr>"
  define ctx where "ctx = with_cancellation (Cancellation (w_next_flag w))
    (job_context_of (Cancellation (Suc (w_next_flag w))) (rsv_envelope rsv))"
  have r: "(r, w') =
      (let (r, w2) = dispatch_job H pc handler ctx rsv (w_instant w) evs
           (notify pc (JobStarted (lane_str (env_lane (rsv_envelope rsv))) (env_kind (rsv_envelope rsv))) w0)
       in (r, notify pc (JobStopped (lane_str (env_lane (rsv_envelope rsv))) (env_kind (rsv_envelope rsv))) w2))"
    using assms(3) by (simp add: process_def Let_def w0_def ctx_def)
  have w0: "w_events w0 = w_events w" by (simp add: w0_def)
  let ?wn = "notify pc (JobStarted (lane_str (env_lane (rsv_envelope rsv))) (env_kind (rsv_envelope rsv))) w0"
  obtain fin where "w_events (snd (dispatch_job H pc handler ctx rsv (w_instant w) evs ?wn)) = w_events ?wn @ fin"
    "length fin \<le> 1" "list_all (is_finished (lane_str (env_lane (rsv_envelope rsv))) (env_kind (rsv_envelope rsv))) fin"
    using dispatch_events [OF assms(1,2)] unfolding one_finish_def by blast
  with r w0 assms(4) show ?thesis by (intro exI [of _ fin]) (auto simp: split_beta)
qed

end
