(* ===== verification/Worker_Props.thy ===== *)
theory Worker_Props
  imports Worker_Laws Memory_Props
begin

text \<open>
  The worker over the in-memory broker: the fate of a job whose handler has finished, a lost lease,
  an open circuit, the keepalive, and the events an observer sees.
\<close>

section \<open>A small world for the witnesses\<close>

definition demo_host :: host where
  "demo_host = \<lparr> hs_show = render (\<lambda>_. []), hs_seed = (\<lambda>_. 0), hs_receipt = (\<lambda>n. Receipt (word_of_nat n)),
       hs_uuid = word_of_nat \<rparr>"

definition demo_ctx :: "(inner, unit, unit, nat) process_ctx" where
  "demo_ctx =
     \<lparr> pc_broker = memory_broker mem_config_default, pc_result_store = None, pc_payload_store = None,
       pc_observer = True, pc_circuit_breaker = None, pc_middleware = [], pc_retry = retry_policy_default,
       pc_handler_timeout = None, pc_lease_keepalive = False \<rparr>"

definition demo_world :: "inner \<Rightarrow> duration \<Rightarrow> (inner, unit, unit, nat) world" where
  "demo_world s t =
     \<lparr> w_broker = s, w_results = (), w_payloads = (), w_breaker = Map.empty, w_events = [],
       w_flags = (\<lambda>_. False), w_next_flag = 0, w_now = t, w_instant = 0, w_uuids = 0 \<rparr>"

definition demo_rsv :: reservation where
  "demo_rsv = reservation_new (into_envelope (demo_job 1)) (Receipt 7) DEFAULT_LEASE"

definition demo_job_ctx :: job_context where
  "demo_job_ctx = job_context_of (Cancellation 0) (into_envelope (demo_job 1))"

lemma reference_key_demo: "reference_key [7] = None"
  by (rule reference_key_None_hd) simp

section \<open>The fate of a job\<close>

interpretation mem_worker: worker_broker "memory_broker cfg" mem_inv mem_view mem_fresh "mc_lease cfg" mem_horizon "\<lambda>_. True"
  for cfg
  by unfold_locales

lemma mem_fail_records:
  assumes inv: "mem_inv s" and held: "holds (mem_view t s) i r" and v: "mem_view t s i = Some v"
    and un: "is_unbounded (mc_retention cfg)" and run: "mem_fail cfg t r err s = (res, s1)"
  shows "\<exists>d \<in> set (in_dead s1). dl_envelope (de_letter d) = jv_envelope v \<and> dl_error (de_letter d) = err"
proof -
  from with_receipt_current [OF inv held] obtain pos where
    pos: "pos < length (in_jobs s)" "\<And>f. with_receipt r t f s = (Inr (), f pos s)"
      "jobs_by_id (in_jobs s) i = Some (in_jobs s ! pos)" by blast
  from run pos(2) un have "in_dead s1 = in_dead s @ [\<lparr> de_letter = dead_letter_new (sj_envelope (in_jobs s ! pos)) err,
      de_unique_key = sj_unique_key (in_jobs s ! pos), de_dead_at = t \<rparr>]"
    by (auto simp: mem_fail_def dead_letter_at_def Let_def prune_dead_unbounded)
  moreover from v pos(3) have "jv_envelope v = sj_envelope (in_jobs s ! pos)"
    by (auto simp: mem_view_def)
  ultimately show ?thesis by simp
qed

text \<open>C14: the fate of a job whose lease the worker still holds when its handler is done.  Processing
  returns without an error; the job is then gone after a success, is scheduled again with one more
  attempt counted and visible exactly after the policy's delay, or is gone from the queue, and under
  an unbounded retention policy its envelope and the redacted reason are then among the dead
  letters; the other jobs do not change.\<close>

theorem mem_worker_fate:
  assumes B: "pc_broker pc = memory_broker cfg"
    and admit: "admit_job pc (env_kind (rsv_envelope rsv)) w = (None, w1)"
    and payload: "resolve_payload pc (env_payload (rsv_envelope rsv)) w1 = (Inr payload, w2)"
    and handler: "run_handler pc h ctx payload (rsv_receipt rsv) evs w2 = (Some outcome, w3)"
    and stored: "store_output pc (env_id (rsv_envelope rsv)) outcome (w_results w3) = (stored, rs)"
    and inv: "mem_inv (w_broker w3)" and now: "w_now w3 \<le> mem_horizon"
    and held: "holds (mem_view (w_now w3) (w_broker w3)) i (rsv_receipt rsv)"
    and v: "mem_view (w_now w3) (w_broker w3) i = Some jv"
    and vd: "vd = verdict_on H pc (rsv_envelope rsv) outcome stored"
  shows "\<exists>w'. dispatch_job H pc (Some h) ctx rsv started evs w = (Some (Inr ()), w') \<and>
    mem_inv (w_broker w') \<and> w_results w' = rs \<and>
    (\<forall>t' \<le> mem_horizon. mem_view t' (w_broker w') i = fate vd (w_now w3) t' jv) \<and>
    (\<forall>reason. vd = VDead reason \<and> is_unbounded (mc_retention cfg) \<longrightarrow>
       (\<exists>d \<in> set (in_dead (w_broker w')). dl_envelope (de_letter d) = jv_envelope jv \<and> dl_error (de_letter d) = reason)) \<and>
    (\<forall>j t'. j \<noteq> i \<and> w_now w3 \<le> t' \<and> t' \<le> mem_horizon \<longrightarrow>
       mem_view t' (w_broker w') j = mem_view t' (w_broker w3) j)"
proof -
  obtain r w' where fin: "finish H pc (rsv_receipt rsv) (rsv_envelope rsv) started outcome w3 = (r, w')" by fastforce
  note held_facts = mem_worker.finish_held [OF B inv now held v stored fin]
  have "\<exists>d \<in> set (in_dead (w_broker w')). dl_envelope (de_letter d) = jv_envelope jv \<and> dl_error (de_letter d) = reason"
    if reason: "vd = VDead reason" and un: "is_unbounded (mc_retention cfg)" for reason
  proof -
    obtain res s where call: "verdict_call (pc_broker pc) (w_now w3) (rsv_receipt rsv) vd (w_broker w3) = (res, s)" by fastforce
    from finish_verdict [OF stored vd call fin] have "w_broker w' = s" by blast
    moreover from call reason B have "mem_fail cfg (w_now w3) (rsv_receipt rsv) reason (w_broker w3) = (res, s)" by simp
    ultimately show ?thesis using mem_fail_records [OF inv held v un] by blast
  qed
  then show ?thesis
    using dispatch_finish [OF admit payload handler fin] held_facts(1,2,3) held_facts(4) [folded vd] held_facts(5)
    by (intro exI [of _ w']) blast
qed

theorem mem_worker_fate_witness:
  "\<exists>w'. dispatch_job demo_host demo_ctx (Some (\<lambda>ctx b w. (Returned (Inl (Handler [Lit ''boom''])), w)))
      demo_job_ctx demo_rsv 0 [] (demo_world demo_leased 1) = (Some (Inr ()), w') \<and>
    map_option (\<lambda>v. (unat (env_attempts (jv_envelope v)), jv_ready v, jv_held v))
      (mem_view (from_secs 1) (w_broker w') (JobId 1)) = Some (1, False, None)"
proof -
  let ?h = "\<lambda>ctx b w. (Returned (Inl (Handler [Lit ''boom''])), w)"
  let ?w = "demo_world demo_leased 1"
  let ?vd = "verdict_on demo_host demo_ctx (rsv_envelope demo_rsv) (Completed (Inl (Handler [Lit ''boom'']))) (Inr ())"
  obtain v where v: "mem_view 1 demo_leased (JobId 1) = Some v" using demo_leased_held by (auto simp: holds_def)
  have at: "unat (env_attempts (jv_envelope (the (mem_view 1 demo_leased (JobId 1))))) = 0" by code_simp
  have "\<exists>w'. dispatch_job demo_host demo_ctx (Some ?h) demo_job_ctx demo_rsv 0 [] ?w = (Some (Inr ()), w') \<and>
      (\<forall>t' \<le> mem_horizon. mem_view t' (w_broker w') (JobId 1) = fate ?vd 1 t' v)"
    using mem_worker_fate [where pc = demo_ctx and cfg = mem_config_default and rsv = demo_rsv and w = ?w and ?w1.0 = ?w
        and payload = "[7]" and ?w2.0 = ?w and h = ?h and ctx = demo_job_ctx and evs = "[]"
        and outcome = "Completed (Inl (Handler [Lit ''boom'']))" and ?w3.0 = ?w and stored = "Inr ()" and rs = "()"
        and i = "JobId 1" and jv = v and H = demo_host and vd = ?vd and started = 0]
      mem_reach_inv [OF demo_leased_reach] demo_leased_held v reference_key_demo
    by (auto simp: demo_ctx_def admit_job_def resolve_payload_def demo_rsv_def demo_job_def new_job_new_def
        run_handler_def demo_world_def DURATION_MAX_def)
  moreover have "?vd = VRetry (delay_for_seeded retry_policy_default 0 0)"
    by (simp add: failure_verdict_def demo_rsv_def demo_job_def new_job_new_def demo_ctx_def demo_host_def)
  moreover have "delay_for_seeded retry_policy_default 0 0 = from_secs 1"
    by (simp add: delay_for_seeded_def delay_for_eq retry_policy_default_def from_secs_def U64_MAX_def)
  moreover have "from_secs 1 \<le> mem_horizon" by (simp add: from_secs_def DURATION_MAX_def)
  ultimately show ?thesis using at v by (force simp: bump_attempts_def unat_u32_saturating_add U32_MAX_def)
qed

section \<open>A lost lease\<close>

text \<open>C15: a worker whose lease ran out while the handler was running does no harm.  Its resolution is
  rejected as stale, which is not an error for the worker; the queue is as the handler left it, no
  outcome is reported, and the claim-check blob that the next delivery needs is still there.\<close>

theorem mem_worker_stale:
  assumes B: "pc_broker pc = memory_broker cfg"
    and admit: "admit_job pc (env_kind (rsv_envelope rsv)) w = (None, w1)"
    and payload: "resolve_payload pc (env_payload (rsv_envelope rsv)) w1 = (Inr payload, w2)"
    and handler: "run_handler pc h ctx payload (rsv_receipt rsv) evs w2 = (Some outcome, w3)"
    and inv: "mem_inv (w_broker w3)" and now: "w_now w3 \<le> mem_horizon"
    and lost: "\<forall>i. \<not> holds (mem_view (w_now w3) (w_broker w3)) i (rsv_receipt rsv)"
  shows "\<exists>w'. dispatch_job H pc (Some h) ctx rsv started evs w = (Some (Inr ()), w') \<and>
    mem_inv (w_broker w') \<and> w_events w' = w_events w3 \<and> w_payloads w' = w_payloads w3 \<and>
    (\<forall>j t'. w_now w3 \<le> t' \<and> t' \<le> mem_horizon \<longrightarrow> mem_view t' (w_broker w') j = mem_view t' (w_broker w3) j)"
proof -
  obtain r w' where fin: "finish H pc (rsv_receipt rsv) (rsv_envelope rsv) started outcome w3 = (r, w')" by fastforce
  note facts = mem_worker.finish_stale [OF B inv now lost fin]
  show ?thesis
    using dispatch_finish [OF admit payload handler fin] facts by (intro exI [of _ w']) blast
qed

lemma demo_leased_expired: "\<not> holds (mem_view (from_secs 31) demo_leased) i (Receipt 7)"
proof -
  have one: "map (\<lambda>j. sj_id j) (in_jobs demo_leased) = [JobId 1]" by code_simp
  show ?thesis
  proof (cases "i = JobId 1")
    case True
    have "jv_held (the (mem_view (from_secs 31) demo_leased (JobId 1))) = None" by code_simp
    with True show ?thesis by (auto simp: holds_def)
  next
    case False
    from one have "JobId 1 \<notin> {i}" using False by simp
    have "jobs_by_id (in_jobs demo_leased) i = None"
      unfolding lookup_by_None_iff using one False by (metis empty_iff empty_set list.set_map list.simps(15) singletonD)
    then show ?thesis by (simp add: holds_def mem_view_def)
  qed
qed

theorem mem_worker_stale_witness:
  "\<exists>w'. dispatch_job demo_host demo_ctx (Some (\<lambda>ctx b w. (Returned (Inr [1]), w\<lparr> w_now := from_secs 31 \<rparr>)))
      demo_job_ctx demo_rsv 0 [] (demo_world demo_leased 1) = (Some (Inr ()), w') \<and> w_events w' = [] \<and>
    mem_view (from_secs 31) (w_broker w') (JobId 1) = mem_view (from_secs 31) demo_leased (JobId 1)"
proof -
  let ?h = "\<lambda>ctx b w. (Returned (Inr [1]), w\<lparr> w_now := from_secs 31 \<rparr>)"
  let ?w = "demo_world demo_leased 1"
  have hor: "from_secs 31 \<le> mem_horizon" by (simp add: from_secs_def DURATION_MAX_def)
  have "\<exists>w'. dispatch_job demo_host demo_ctx (Some ?h) demo_job_ctx demo_rsv 0 [] ?w = (Some (Inr ()), w') \<and>
      w_events w' = [] \<and>
      (\<forall>j t'. from_secs 31 \<le> t' \<and> t' \<le> mem_horizon \<longrightarrow> mem_view t' (w_broker w') j = mem_view t' demo_leased j)"
    using mem_worker_stale [where pc = demo_ctx and cfg = mem_config_default and rsv = demo_rsv and w = ?w and ?w1.0 = ?w
        and payload = "[7]" and ?w2.0 = ?w and h = ?h and ctx = demo_job_ctx and evs = "[]"
        and outcome = "Completed (Inr [1])" and ?w3.0 = "?w\<lparr> w_now := from_secs 31 \<rparr>" and H = demo_host and started = 0]
      mem_reach_inv [OF demo_leased_reach] demo_leased_expired reference_key_demo hor
    by (auto simp: demo_ctx_def admit_job_def resolve_payload_def demo_rsv_def demo_job_def new_job_new_def
        run_handler_def demo_world_def)
  with hor show ?thesis by blast
qed

section \<open>An open circuit\<close>

text \<open>C17: while the circuit of a kind is open, its jobs wait without being charged.  Processing such
  a job runs no handler and touches no store: whatever the handler is, the job goes back to the
  queue with its envelope, so with its attempts, unchanged, visible again exactly after the delay the
  breaker gave; the observer sees the attempt start and stop and no outcome.\<close>

theorem mem_breaker_defers:
  assumes B: "pc_broker pc = memory_broker cfg" and cb: "pc_circuit_breaker pc = Some (S, pol)"
    and opened: "breaker_admit S pol (w_instant w) (env_kind (rsv_envelope rsv)) (w_breaker w) = (Some delay, st)"
    and inv: "mem_inv (w_broker w)" and now: "w_now w \<le> mem_horizon"
    and held: "holds (mem_view (w_now w) (w_broker w)) i (rsv_receipt rsv)"
    and v: "mem_view (w_now w) (w_broker w) i = Some jv"
  shows "\<exists>w'. process H pc (Some h) rsv evs w = (Some (Inr ()), w') \<and> mem_inv (w_broker w') \<and>
    (\<forall>t' \<le> mem_horizon. mem_view t' (w_broker w') i = Some (jv\<lparr> jv_ready := (w_now w + delay \<le> t'), jv_held := None \<rparr>)) \<and>
    (\<forall>j t'. j \<noteq> i \<and> w_now w \<le> t' \<and> t' \<le> mem_horizon \<longrightarrow> mem_view t' (w_broker w') j = mem_view t' (w_broker w) j) \<and>
    w_results w' = w_results w \<and> w_payloads w' = w_payloads w \<and> w_breaker w' = st \<and>
    w_events w' = w_events w @
      (let l = lane_str (env_lane (rsv_envelope rsv)); k = env_kind (rsv_envelope rsv)
       in if pc_observer pc then [JobStarted l k, JobStopped l k] else [])"
proof -
  let ?r = "rsv_receipt rsv"
  obtain res s where call: "mem_defer (w_now w) ?r delay (w_broker w) = (res, s)" by fastforce
  have mem: "bk_defer (memory_broker cfg) (w_now w) ?r delay \<in> {bk_ack (memory_broker cfg) (w_now w) ?r,
      bk_retry (memory_broker cfg) (w_now w) ?r delay, bk_defer (memory_broker cfg) (w_now w) ?r delay,
      bk_extend (memory_broker cfg) (w_now w) ?r, bk_fail (memory_broker cfg) (w_now w) ?r []}" by simp
  have call': "bk_defer (memory_broker cfg) (w_now w) ?r delay (w_broker w) = (res, s)" using call by simp
  note cur = mem.resolve_current [OF inv now held mem call']
  have ok: "res = Inr ()" by (rule mem.current_accepted [OF inv now held mem call'])
  have view: "mem_view t' s i = Some (jv\<lparr> jv_ready := (w_now w + delay \<le> t'), jv_held := None \<rparr>)"
    if "t' \<le> mem_horizon" for t'
    using mem.defer_current [OF inv now held v call' [unfolded ok] that] .
  obtain r w' where run: "process H pc (Some h) rsv evs w = (r, w')" by fastforce
  have "r = Some (Inr ()) \<and> w_broker w' = s \<and> w_results w' = w_results w \<and> w_payloads w' = w_payloads w \<and> w_breaker w' = st \<and>
    w_events w' = w_events w @
      (let l = lane_str (env_lane (rsv_envelope rsv)); k = env_kind (rsv_envelope rsv)
       in if pc_observer pc then [JobStarted l k, JobStopped l k] else [])"
    using run ok call B cb opened
    by (auto simp: process_def Let_def dispatch_job_def admit_job_def on_broker_eq)
  with run view cur show ?thesis by auto
qed

definition demo_sigorta :: "nat sigorta" where
  "demo_sigorta =
     \<lparr> sg_new = (\<lambda>_ _. 0), sg_admit = (\<lambda>g _. if 0 < g then Rejected g 5 else Admitted g),
       sg_record = (\<lambda>g e _. case e of BreakerSuccess \<Rightarrow> 0 | BreakerFailure \<Rightarrow> g + 1) \<rparr>"

theorem mem_breaker_defers_witness:
  "let pc = demo_ctx\<lparr> pc_circuit_breaker := Some (demo_sigorta, breaker_policy_default) \<rparr>;
       w = (demo_world demo_leased 1)\<lparr> w_breaker := [''k'' \<mapsto> 1] \<rparr>
   in \<exists>w'. process demo_host pc (Some (\<lambda>ctx b w. (Panicked PanicOther, w))) demo_rsv [] w = (Some (Inr ()), w') \<and>
        map_option (\<lambda>v. (jv_ready v, jv_held v)) (mem_view 6 (w_broker w') (JobId 1)) = Some (True, None) \<and>
        w_events w' = [JobStarted ''q'' ''k'', JobStopped ''q'' ''k'']"
proof -
  let ?pc = "demo_ctx\<lparr> pc_circuit_breaker := Some (demo_sigorta, breaker_policy_default) \<rparr>"
  let ?w = "(demo_world demo_leased 1)\<lparr> w_breaker := [''k'' \<mapsto> 1] \<rparr>"
  obtain v where v: "mem_view 1 demo_leased (JobId 1) = Some v" using demo_leased_held by (auto simp: holds_def)
  have hor: "6 \<le> mem_horizon" by (simp add: DURATION_MAX_def)
  have opened: "breaker_admit demo_sigorta breaker_policy_default (w_instant ?w) (env_kind (rsv_envelope demo_rsv)) (w_breaker ?w) =
      (Some 5, [''k'' \<mapsto> 1])"
    by (simp add: breaker_admit_def breaker_entry_def demo_sigorta_def demo_rsv_def demo_job_def new_job_new_def)
  have B: "pc_broker ?pc = memory_broker mem_config_default" and cb: "pc_circuit_breaker ?pc = Some (demo_sigorta, breaker_policy_default)"
    and obs: "pc_observer ?pc" by (simp_all add: demo_ctx_def)
  have w: "w_broker ?w = demo_leased" "w_now ?w = 1" "w_events ?w = []" by (simp_all add: demo_world_def)
  have r: "rsv_receipt demo_rsv = Receipt 7" "lane_str (env_lane (rsv_envelope demo_rsv)) = ''q''"
    "env_kind (rsv_envelope demo_rsv) = ''k''"
    by (simp_all add: demo_rsv_def demo_job_def new_job_new_def demo_lane_def)
  obtain w' where run: "process demo_host ?pc (Some (\<lambda>ctx b w. (Panicked PanicOther, w))) demo_rsv [] ?w = (Some (Inr ()), w')"
    and view: "\<forall>t' \<le> mem_horizon. mem_view t' (w_broker w') (JobId 1) = Some (v\<lparr> jv_ready := (1 + 5 \<le> t'), jv_held := None \<rparr>)"
    and ev: "w_events w' = [JobStarted ''q'' ''k'', JobStopped ''q'' ''k'']"
    using mem_breaker_defers [OF B cb opened, of "JobId 1" v demo_host "\<lambda>ctx b w. (Panicked PanicOther, w)" "[]", unfolded w r]
      mem_reach_inv [OF demo_leased_reach] demo_leased_held v obs by (auto simp: DURATION_MAX_def Let_def)
  from view hor have "mem_view 6 (w_broker w') (JobId 1) = Some (v\<lparr> jv_ready := True, jv_held := None \<rparr>)" by simp
  with run ev show ?thesis unfolding Let_def by (intro exI [of _ w']) simp
qed

theorem worker_events_paired_witness:
  "let (r, w') = process demo_host demo_ctx (Some (\<lambda>ctx b w. (Returned (Inr [1]), w))) demo_rsv [] (demo_world demo_leased 1)
   in hd (w_events w') = JobStarted ''q'' ''k'' \<and> last (w_events w') = JobStopped ''q'' ''k'' \<and> length (w_events w') \<le> 3"
proof -
  let ?h = "\<lambda>ctx b w. (Returned (Inr [1]), w)"
  obtain r w' where run: "process demo_host demo_ctx (Some ?h) demo_rsv [] (demo_world demo_leased 1) = (r, w')" by fastforce
  have q: "quiet_handler (next_run (pc_middleware demo_ctx) ?h)" by (simp add: quiet_handler_def demo_ctx_def)
  have e: "quiet_events ([] :: (inner, unit, unit, nat) world mevent list)" by (simp add: quiet_events_def)
  have o: "pc_observer demo_ctx" by (simp add: demo_ctx_def)
  from worker_events_paired [OF _ e run o] q obtain fin where
    "w_events w' = JobStarted ''q'' ''k'' # fin @ [JobStopped ''q'' ''k'']" "length fin \<le> 1"
    by (auto simp: demo_world_def demo_rsv_def demo_job_def new_job_new_def demo_lane_def)
  with run show ?thesis by simp
qed

section \<open>Keepalive\<close>

text \<open>C16: a maintained job stays with its worker for as long as its handler runs.  Starting from its
  reservation, if the heartbeats come before the lease runs out, then whatever other clients do in
  between, the job is never handed out to another worker, no cancellation is signalled, and when the
  handler is done the worker still holds the lease.  The interval of the heartbeat is below the lease
  exactly when the lease is longer than 50 milliseconds.\<close>

theorem mem_keepalive:
  assumes B: "pc_broker pc = memory_broker cfg"
    and inv: "mem_inv s" and fr: "mem_fresh r s" and t0: "t0 \<le> mem_horizon"
    and rsv: "mem_reserve cfg t0 r l s = (Inr (Some rsv), w_broker w)" and now: "w_now w = t0"
    and lease: "0 < mc_lease cfg" and hor: "keep_now t0 ks \<le> mem_horizon"
    and timely: "keep_timely (mc_lease cfg) r (t0 + mc_lease cfg) t0 ks"
    and fair: "fair_calls mem_fresh mem_horizon (keep_calls r t0 ks) (w_broker w)"
  shows "(\<exists>w1. run_maintained pc h r timeout c (map (keep_event (memory_broker cfg)) ks @ [HandlerDone]) True w =
      (let (hr, w2) = h w1 in (Some (Completed (run_result hr)), w2)) \<and>
    w_flags w1 = w_flags w \<and> w_now w1 = keep_now t0 ks \<and>
    (\<forall>out \<in> set (fst (calls_run (memory_broker cfg) (keep_calls r t0 ks) (w_broker w))). \<forall>e.
       handed_out out = Some e \<longrightarrow> env_id e \<noteq> env_id (rsv_envelope rsv)) \<and>
    holds (mem_view (w_now w1) (w_broker w1)) (env_id (rsv_envelope rsv)) r) \<and>
    (heartbeat_every (mc_lease cfg) < mc_lease cfg \<longleftrightarrow> from_millis 50 < mc_lease cfg)"
proof
  let ?i = "env_id (rsv_envelope rsv)"
  have rsv': "bk_reserve (memory_broker cfg) t0 r l s = (Inr (Some rsv), w_broker w)" using rsv by simp
  note held = mem_worker.reserve_held_until [OF inv fr t0 rsv']
  from mem_worker.maintained_keeps_lease [where D = "t0 + mc_lease cfg" and w = w and i = ?i and r = r and ks = ks,
      unfolded now, OF B held(1) t0 hor _ _ order_refl lease timely fair, of h timeout c]
  show "\<exists>w1. run_maintained pc h r timeout c (map (keep_event (memory_broker cfg)) ks @ [HandlerDone]) True w =
      (let (hr, w2) = h w1 in (Some (Completed (run_result hr)), w2)) \<and>
    w_flags w1 = w_flags w \<and> w_now w1 = keep_now t0 ks \<and>
    (\<forall>out \<in> set (fst (calls_run (memory_broker cfg) (keep_calls r t0 ks) (w_broker w))). \<forall>e.
       handed_out out = Some e \<longrightarrow> env_id e \<noteq> ?i) \<and>
    holds (mem_view (w_now w1) (w_broker w1)) ?i r"
    using held(2) lease by auto
  show "heartbeat_every (mc_lease cfg) < mc_lease cfg \<longleftrightarrow> from_millis 50 < mc_lease cfg"
    using lease by (auto simp: heartbeat_every_def)
qed

text \<open>Two beats keep the lease of 30 seconds for 50 seconds, against another worker that polls.\<close>

definition demo_keep :: "keep_step list" where
  "demo_keep = [Others [] (from_secs 20), Beat, Others [(from_secs 40, CReserve (Receipt 8) demo_lane)] (from_secs 45),
     Beat, Others [] (from_secs 50)]"

theorem mem_keepalive_witness:
  "\<exists>w1. run_maintained demo_ctx (\<lambda>w. (Returned (Inr [1]), w)) (Receipt 7) None (Cancellation 0)
      (map (keep_event (memory_broker mem_config_default)) demo_keep @ [HandlerDone]) True (demo_world demo_leased 0) =
      (Some (Completed (Inr [1])), w1) \<and>
    w_now w1 = from_secs 50 \<and> holds (mem_view (from_secs 50) (w_broker w1)) (JobId 1) (Receipt 7)"
proof -
  have B: "pc_broker demo_ctx = memory_broker mem_config_default" by (simp add: demo_ctx_def)
  have rsv: "mem_reserve mem_config_default 0 (Receipt 7) demo_lane demo_store = (Inr (Some demo_rsv), w_broker (demo_world demo_leased 0))"
    using demo_reserve by (simp add: demo_world_def demo_rsv_def)
  have lease: "mc_lease mem_config_default = from_secs 30" by (simp add: mem_config_default_def DEFAULT_LEASE_def)
  have timely: "keep_timely (mc_lease mem_config_default) (Receipt 7) (0 + mc_lease mem_config_default) 0 demo_keep"
    by (simp add: lease demo_keep_def from_secs_def)
  have hor: "keep_now 0 demo_keep \<le> mem_horizon" by (simp add: demo_keep_def from_secs_def DURATION_MAX_def)
  have fair: "fair_calls mem_fresh mem_horizon (keep_calls (Receipt 7) 0 demo_keep) (w_broker (demo_world demo_leased 0))"
    using demo_leased_fresh [of "Receipt 8"]
    by (simp add: fair_calls_def demo_keep_def demo_world_def from_secs_def DURATION_MAX_def map_filter_simps)
  have pos: "0 < mc_lease mem_config_default" by (simp add: lease from_secs_def)
  have now: "w_now (demo_world demo_leased 0) = 0" by (simp add: demo_world_def)
  have id: "env_id (rsv_envelope demo_rsv) = JobId 1" by (simp add: demo_rsv_def demo_job_def new_job_new_def)
  from mem_keepalive [OF B mem_reach_inv [OF demo_store_reach] demo_store_fresh _ rsv now pos hor timely fair,
      of "\<lambda>w. (Returned (Inr [1]), w)" None "Cancellation 0"]
  show ?thesis by (auto simp: id demo_keep_def)
qed

end
