(* ===== verification/Worker_Loop.thy ===== *)
theory Worker_Loop
  imports Worker_Exec
begin

text \<open>
  The worker of \<^verbatim>\<open>worklane/src/worker/mod.rs\<close> and \<^verbatim>\<open>config.rs\<close>: its configuration, the idle
  backoff, and the loops that reserve jobs and wait for them.  A spawned task is one reservation in
  flight; it is processed when it is joined, in the order the environment chooses.  One pass of the
  loop of \<^verbatim>\<open>run\<close> is \<open>run_iter\<close>, given what the environment does during it: whether the shutdown
  signal is already there, what happens to the world while the pass waits, and what wakes it.
\<close>

section \<open>Configuration\<close>

definition DEFAULT_POLL_INTERVAL :: duration where
  "DEFAULT_POLL_INTERVAL = from_secs 1"

record ('s, 'r, 'p, 'g) worker =
  wk_broker :: "'s broker"
  wk_result_store :: "'r result_store option"
  wk_payload_store :: "'p payload_store option"
  wk_observer :: bool
  wk_circuit_breaker :: "('g sigorta \<times> breaker_policy) option"
  wk_middleware :: "('s, 'r, 'p, 'g) world middleware list"
  wk_handlers :: "(string \<times> ('s, 'r, 'p, 'g) world handler) list"
  wk_retry :: retry_policy
  wk_lane :: lane
  wk_poll_interval :: duration
  wk_idle_backoff_cap :: duration
  wk_resilient :: bool
  wk_concurrency :: nat
  wk_handler_timeout :: "duration option"
  wk_lease_keepalive :: bool
  wk_shutdown_timeout :: "duration option"

definition worker_new :: "'s broker \<Rightarrow> ('s, 'r, 'p, 'g) worker" where
  "worker_new B =
     \<lparr> wk_broker = B, wk_result_store = None, wk_payload_store = None, wk_observer = False,
       wk_circuit_breaker = None, wk_middleware = [], wk_handlers = [], wk_retry = retry_policy_default,
       wk_lane = default_lane, wk_poll_interval = DEFAULT_POLL_INTERVAL,
       wk_idle_backoff_cap = DEFAULT_POLL_INTERVAL, wk_resilient = False, wk_concurrency = 1,
       wk_handler_timeout = None, wk_lease_keepalive = False, wk_shutdown_timeout = None \<rparr>"

definition worker_build :: "('s, 'r, 'p, 'g) worker \<Rightarrow> ('s, 'r, 'p, 'g) worker result" where
  "worker_build W =
     (if wk_handlers W = []
      then Inl (Registration [Lit ''worker has no registered handlers; register at least one before build()''])
      else Inr W)"

definition worker_register ::
  "string \<Rightarrow> ('s, 'r, 'p, 'g) world handler \<Rightarrow> ('s, 'r, 'p, 'g) worker \<Rightarrow> ('s, 'r, 'p, 'g) worker result" where
  "worker_register kind h W =
     (if map_of (wk_handlers W) kind \<noteq> None
      then Inl (Registration [Lit ''duplicate handler for kind '', Lit kind])
      else Inr (W\<lparr> wk_handlers := (kind, h) # wk_handlers W \<rparr>))"

definition with_shutdown_timeout :: "duration \<Rightarrow> ('s, 'r, 'p, 'g) worker \<Rightarrow> ('s, 'r, 'p, 'g) worker" where
  "with_shutdown_timeout t W = W\<lparr> wk_shutdown_timeout := Some t \<rparr>"

definition with_result_store :: "'r result_store \<Rightarrow> ('s, 'r, 'p, 'g) worker \<Rightarrow> ('s, 'r, 'p, 'g) worker" where
  "with_result_store R W = W\<lparr> wk_result_store := Some R \<rparr>"

definition with_payload_store :: "'p payload_store \<Rightarrow> ('s, 'r, 'p, 'g) worker \<Rightarrow> ('s, 'r, 'p, 'g) worker" where
  "with_payload_store P W = W\<lparr> wk_payload_store := Some P \<rparr>"

definition with_observer :: "('s, 'r, 'p, 'g) worker \<Rightarrow> ('s, 'r, 'p, 'g) worker" where
  "with_observer W = W\<lparr> wk_observer := True \<rparr>"

definition with_circuit_breaker :: "'g sigorta \<Rightarrow> breaker_policy \<Rightarrow> ('s, 'r, 'p, 'g) worker \<Rightarrow> ('s, 'r, 'p, 'g) worker" where
  "with_circuit_breaker S pol W = W\<lparr> wk_circuit_breaker := Some (S, pol) \<rparr>"

definition with_middleware :: "('s, 'r, 'p, 'g) world middleware \<Rightarrow> ('s, 'r, 'p, 'g) worker \<Rightarrow> ('s, 'r, 'p, 'g) worker" where
  "with_middleware m W = W\<lparr> wk_middleware := wk_middleware W @ [m] \<rparr>"

definition with_retry_policy :: "retry_policy \<Rightarrow> ('s, 'r, 'p, 'g) worker \<Rightarrow> ('s, 'r, 'p, 'g) worker" where
  "with_retry_policy p W = W\<lparr> wk_retry := p \<rparr>"

definition with_lane :: "lane \<Rightarrow> ('s, 'r, 'p, 'g) worker \<Rightarrow> ('s, 'r, 'p, 'g) worker" where
  "with_lane l W = W\<lparr> wk_lane := l \<rparr>"

definition with_poll_interval :: "duration \<Rightarrow> ('s, 'r, 'p, 'g) worker \<Rightarrow> ('s, 'r, 'p, 'g) worker" where
  "with_poll_interval d W = W\<lparr> wk_poll_interval := d \<rparr>"

definition with_idle_backoff :: "duration \<Rightarrow> duration \<Rightarrow> ('s, 'r, 'p, 'g) worker \<Rightarrow> ('s, 'r, 'p, 'g) worker" where
  "with_idle_backoff base cap W = W\<lparr> wk_poll_interval := base, wk_idle_backoff_cap := max cap base \<rparr>"

definition with_resilient :: "bool \<Rightarrow> ('s, 'r, 'p, 'g) worker \<Rightarrow> ('s, 'r, 'p, 'g) worker" where
  "with_resilient b W = W\<lparr> wk_resilient := b \<rparr>"

definition with_concurrency :: "nat \<Rightarrow> ('s, 'r, 'p, 'g) worker \<Rightarrow> ('s, 'r, 'p, 'g) worker" where
  "with_concurrency n W = W\<lparr> wk_concurrency := max n 1 \<rparr>"

definition with_handler_timeout :: "duration \<Rightarrow> ('s, 'r, 'p, 'g) worker \<Rightarrow> ('s, 'r, 'p, 'g) worker" where
  "with_handler_timeout t W = W\<lparr> wk_handler_timeout := Some t \<rparr>"

definition with_lease_keepalive :: "bool \<Rightarrow> ('s, 'r, 'p, 'g) worker \<Rightarrow> ('s, 'r, 'p, 'g) worker" where
  "with_lease_keepalive b W = W\<lparr> wk_lease_keepalive := b \<rparr>"

definition process_ctx_of :: "('s, 'r, 'p, 'g) worker \<Rightarrow> ('s, 'r, 'p, 'g) process_ctx" where
  "process_ctx_of W =
     \<lparr> pc_broker = wk_broker W, pc_result_store = wk_result_store W, pc_payload_store = wk_payload_store W,
       pc_observer = wk_observer W, pc_circuit_breaker = wk_circuit_breaker W, pc_middleware = wk_middleware W,
       pc_retry = wk_retry W, pc_handler_timeout = wk_handler_timeout W, pc_lease_keepalive = wk_lease_keepalive W \<rparr>"

section \<open>The idle backoff\<close>

fun idle_loop :: "nat \<Rightarrow> duration \<Rightarrow> duration \<Rightarrow> duration" where
  "idle_loop 0 cap wait = min wait cap"
| "idle_loop (Suc n) cap wait = (if cap \<le> wait then cap else idle_loop n cap (dur_saturating_mul wait 2))"

definition idle_wait :: "('s, 'r, 'p, 'g) worker \<Rightarrow> u32 \<Rightarrow> duration" where
  "idle_wait W empties =
     idle_loop (unat empties) (max (wk_idle_backoff_cap W) (wk_poll_interval W)) (wk_poll_interval W)"

section \<open>One job\<close>

definition process_next ::
  "host \<Rightarrow> ('s, 'r, 'p, 'g) worker \<Rightarrow> receipt \<Rightarrow> ('s, 'r, 'p, 'g) world mevent list \<Rightarrow> ('s, 'r, 'p, 'g) world \<Rightarrow>
   bool result option \<times> ('s, 'r, 'p, 'g) world" where
  "process_next H W rcpt evs w =
     (case on_broker (\<lambda>now. bk_reserve (wk_broker W) now rcpt (wk_lane W)) w of
        (Inl e, w1) \<Rightarrow> (Some (Inl e), w1)
      | (Inr None, w1) \<Rightarrow> (Some (Inr False), w1)
      | (Inr (Some rsv), w1) \<Rightarrow>
          (case process H (process_ctx_of W) (map_of (wk_handlers W) (env_kind (rsv_envelope rsv))) rsv evs w1 of
             (None, w2) \<Rightarrow> (None, w2)
           | (Some (Inl e), w2) \<Rightarrow> (Some (Inl e), w2)
           | (Some (Inr u), w2) \<Rightarrow> (Some (Inr True), w2)))"

section \<open>The loops\<close>

record loop_state =
  ls_in_flight :: "reservation list"
  ls_shutting_down :: bool
  ls_first_err :: "error option"
  ls_empty_polls :: u32
  ls_drain_deadline :: "duration option"
  ls_minted :: nat

definition loop_start :: loop_state where
  "loop_start = \<lparr> ls_in_flight = [], ls_shutting_down = False, ls_first_err = None, ls_empty_polls = 0,
     ls_drain_deadline = None, ls_minted = 0 \<rparr>"

text \<open>\<^verbatim>\<open>Option::get_or_insert\<close> on the first error.\<close>

definition keep_first :: "error \<Rightarrow> loop_state \<Rightarrow> loop_state" where
  "keep_first e st = st\<lparr> ls_first_err := (case ls_first_err st of None \<Rightarrow> Some e | Some e0 \<Rightarrow> Some e0) \<rparr>"

definition record_error :: "('s, 'r, 'p, 'g) worker \<Rightarrow> error \<Rightarrow> loop_state \<Rightarrow> loop_state" where
  "record_error W e st = (if wk_resilient W then st else (keep_first e st)\<lparr> ls_shutting_down := True \<rparr>)"

text \<open>How a task ended: it returned, it panicked outside its handler, or it was cancelled.\<close>

datatype join_result = Joined "unit result" | JoinPanicked | JoinCancelled

fun classify_join :: "join_result \<Rightarrow> error option" where
  "classify_join (Joined (Inr u)) = None"
| "classify_join (Joined (Inl e)) = Some e"
| "classify_join JoinPanicked = Some (Handler [Lit ''worker task panicked''])"
| "classify_join JoinCancelled = None"

text \<open>What wakes a pass: the shutdown signal, the end of a sleep, the drain deadline, or a task that
  ended (its place, the events of its run, and whether the task itself panicked).\<close>

datatype 'w wake = WakeShutdown | WakeTick | WakeDeadline | WakeJoin nat "'w mevent list" bool

text \<open>Join the task at \<open>k\<close>.\<close>

definition join_task ::
  "host \<Rightarrow> ('s, 'r, 'p, 'g) worker \<Rightarrow> nat \<Rightarrow> ('s, 'r, 'p, 'g) world mevent list \<Rightarrow> bool \<Rightarrow> loop_state \<Rightarrow>
   ('s, 'r, 'p, 'g) world \<Rightarrow> error option \<times> loop_state \<times> ('s, 'r, 'p, 'g) world" where
  "join_task H W k evs panicked st w =
     (let rsv = ls_in_flight st ! k;
          (r, w1) = process H (process_ctx_of W) (map_of (wk_handlers W) (env_kind (rsv_envelope rsv))) rsv evs w;
          jr = (if panicked then JoinPanicked else case r of None \<Rightarrow> JoinCancelled | Some x \<Rightarrow> Joined x)
      in (classify_join jr, st\<lparr> ls_in_flight := remove_at k (ls_in_flight st) \<rparr>, w1))"

text \<open>Fill the spare capacity: at most one reservation per free place, none while shutting down.\<close>

fun fill_capacity ::
  "host \<Rightarrow> ('s, 'r, 'p, 'g) worker \<Rightarrow> nat \<Rightarrow> loop_state \<Rightarrow> ('s, 'r, 'p, 'g) world \<Rightarrow>
   loop_state \<times> ('s, 'r, 'p, 'g) world" where
  "fill_capacity H W 0 st w = (st, w)"
| "fill_capacity H W (Suc n) st w =
     (if ls_shutting_down st then (st, w)
      else let st1 = st\<lparr> ls_minted := Suc (ls_minted st) \<rparr> in
        case on_broker (\<lambda>now. bk_reserve (wk_broker W) now (hs_receipt H (ls_minted st)) (wk_lane W)) w of
          (Inr (Some rsv), w1) \<Rightarrow>
            fill_capacity H W n (st1\<lparr> ls_in_flight := ls_in_flight st @ [rsv], ls_empty_polls := 0 \<rparr>) w1
        | (Inr None, w1) \<Rightarrow> (st1, w1)
        | (Inl e, w1) \<Rightarrow> (record_error W e st1, w1))"

definition bump_polls :: "loop_state \<Rightarrow> loop_state" where
  "bump_polls st = st\<lparr> ls_empty_polls := u32_saturating_add (ls_empty_polls st) 1 \<rparr>"

text \<open>One pass of the loop of \<^verbatim>\<open>run\<close>; the first component says whether the loop is left.\<close>

definition run_iter ::
  "host \<Rightarrow> ('s, 'r, 'p, 'g) worker \<Rightarrow> bool \<times> (('s, 'r, 'p, 'g) world \<Rightarrow> ('s, 'r, 'p, 'g) world) \<times> ('s, 'r, 'p, 'g) world wake \<Rightarrow>
   loop_state \<Rightarrow> ('s, 'r, 'p, 'g) world \<Rightarrow> bool \<times> loop_state \<times> ('s, 'r, 'p, 'g) world" where
  "run_iter H W ev st w =
     (let (signalled, elapse, wake) = ev;
          concurrency = max (wk_concurrency W) 1;
          st0 = (if ls_shutting_down st then st else st\<lparr> ls_shutting_down := signalled \<rparr>);
          (st1, w1) = fill_capacity H W (concurrency - length (ls_in_flight st0)) st0 w
      in if ls_in_flight st1 = [] then
           if ls_shutting_down st1 then (True, st1, w1)
           else let w2 = elapse w1 in
             (case wake of
                WakeShutdown \<Rightarrow> (False, st1\<lparr> ls_shutting_down := True \<rparr>, w2)
              | WakeTick \<Rightarrow> (False, bump_polls st1, w2)
              | _ \<Rightarrow> (False, st1, w2))
         else if ls_shutting_down st1 then
           let deadline = (case wk_shutdown_timeout W of
                  None \<Rightarrow> None
                | Some t \<Rightarrow> (case ls_drain_deadline st1 of None \<Rightarrow> Some (w_instant w1 + t) | Some d \<Rightarrow> Some d));
               st2 = st1\<lparr> ls_drain_deadline := (if wk_shutdown_timeout W = None then ls_drain_deadline st1 else deadline) \<rparr>;
               w2 = elapse w1
           in (case wake of
                 WakeJoin k evs panicked \<Rightarrow>
                   if k < length (ls_in_flight st2) then
                     let (e, st3, w3) = join_task H W k evs panicked st2 w2
                     in (False, (case e of None \<Rightarrow> st3 | Some x \<Rightarrow> keep_first x st3), w3)
                   else (False, st2, w2)
               | WakeDeadline \<Rightarrow>
                   (case deadline of
                      Some d \<Rightarrow> (d \<le> w_instant w2, st2, w2)
                    | None \<Rightarrow> (False, st2, w2))
               | _ \<Rightarrow> (False, st2, w2))
         else let w2 = elapse w1 in
           (case wake of
              WakeShutdown \<Rightarrow> (False, st1\<lparr> ls_shutting_down := True \<rparr>, w2)
            | WakeJoin k evs panicked \<Rightarrow>
                if k < length (ls_in_flight st1) then
                  let (e, st3, w3) = join_task H W k evs panicked st1 w2
                  in (False, (case e of None \<Rightarrow> st3 | Some x \<Rightarrow> record_error W x st3), w3)
                else (False, st1, w2)
            | WakeTick \<Rightarrow> (False, if length (ls_in_flight st1) < concurrency then bump_polls st1 else st1, w2)
            | WakeDeadline \<Rightarrow> (False, st1, w2)))"

definition loop_result :: "loop_state \<Rightarrow> unit result" where
  "loop_result st = (case ls_first_err st of Some e \<Rightarrow> Inl e | None \<Rightarrow> Inr ())"

text \<open>The passes in order; \<open>None\<close> while the loop has not been left.\<close>

fun worker_run ::
  "host \<Rightarrow> ('s, 'r, 'p, 'g) worker \<Rightarrow> (bool \<times> (('s, 'r, 'p, 'g) world \<Rightarrow> ('s, 'r, 'p, 'g) world) \<times> ('s, 'r, 'p, 'g) world wake) list \<Rightarrow>
   loop_state \<Rightarrow> ('s, 'r, 'p, 'g) world \<Rightarrow> unit result option \<times> loop_state \<times> ('s, 'r, 'p, 'g) world" where
  "worker_run H W [] st w = (None, st, w)"
| "worker_run H W (ev # evs) st w =
     (let (left, st1, w1) = run_iter H W ev st w
      in if left then (Some (loop_result st1), st1, w1) else worker_run H W evs st1 w1)"

text \<open>One pass of \<^verbatim>\<open>run_until_idle\<close>, where \<open>ls_shutting_down\<close> is its \<^verbatim>\<open>stop_reserving\<close>: every error
  stops the reserving, whatever the resilience.\<close>

definition idle_iter ::
  "host \<Rightarrow> ('s, 'r, 'p, 'g) worker \<Rightarrow> (('s, 'r, 'p, 'g) world \<Rightarrow> ('s, 'r, 'p, 'g) world) \<times> nat \<times> ('s, 'r, 'p, 'g) world mevent list \<times> bool \<Rightarrow>
   loop_state \<Rightarrow> ('s, 'r, 'p, 'g) world \<Rightarrow> bool \<times> loop_state \<times> ('s, 'r, 'p, 'g) world" where
  "idle_iter H W ev st w =
     (let (elapse, k, evs, panicked) = ev;
          concurrency = max (wk_concurrency W) 1;
          (st1, w1) = fill_capacity H (W\<lparr> wk_resilient := False \<rparr>) (concurrency - length (ls_in_flight st)) st w
      in if ls_in_flight st1 = [] then (True, st1, w1)
         else let w2 = elapse w1 in
           if k < length (ls_in_flight st1) then
             let (e, st3, w3) = join_task H W k evs panicked st1 w2
             in (False, (case e of None \<Rightarrow> st3 | Some x \<Rightarrow> (keep_first x st3)\<lparr> ls_shutting_down := True \<rparr>), w3)
           else (False, st1, w2))"

fun run_until_idle ::
  "host \<Rightarrow> ('s, 'r, 'p, 'g) worker \<Rightarrow> ((('s, 'r, 'p, 'g) world \<Rightarrow> ('s, 'r, 'p, 'g) world) \<times> nat \<times> ('s, 'r, 'p, 'g) world mevent list \<times> bool) list \<Rightarrow>
   loop_state \<Rightarrow> ('s, 'r, 'p, 'g) world \<Rightarrow> unit result option \<times> loop_state \<times> ('s, 'r, 'p, 'g) world" where
  "run_until_idle H W [] st w = (None, st, w)"
| "run_until_idle H W (ev # evs) st w =
     (let (left, st1, w1) = idle_iter H W ev st w
      in if left then (Some (loop_result st1), st1, w1) else run_until_idle H W evs st1 w1)"

end
