(* ===== verification/Worker_Loop_Props.thy ===== *)
theory Worker_Loop_Props
  imports Worker_Loop Worker_Props
begin

text \<open>
  The loops of the worker: the idle backoff, the bound on the jobs in flight, the errors
  a run reports, and the shutdown.
\<close>

section \<open>The idle backoff\<close>

lemma idle_loop_eq:
  assumes "wait \<le> cap" and "cap \<le> DURATION_MAX"
  shows "idle_loop n cap wait = min (wait * 2 ^ n) cap"
  using assms
proof (induction n arbitrary: wait)
  case (Suc n)
  show ?case
  proof (cases "cap \<le> wait")
    case True
    with Suc.prems have "wait = cap" by simp
    moreover have "cap \<le> cap * (2 * 2 ^ n)" by simp
    ultimately show ?thesis by (simp add: min.absorb2)
  next
    case False
    show ?thesis
    proof (cases "wait * 2 \<le> cap")
      case True
      with Suc.prems have "dur_saturating_mul wait 2 = wait * 2" by (simp add: dur_saturating_mul_def)
      with Suc.IH [OF True Suc.prems(2)] False show ?thesis by (simp add: mult.assoc)
    next
      case over: False
      have "cap \<le> dur_saturating_mul wait 2" using over Suc.prems by (simp add: dur_saturating_mul_def)
      then have "idle_loop n cap (dur_saturating_mul wait 2) = cap" by (cases n) auto
      moreover have "wait * 2 \<le> wait * (2 * 2 ^ n)" by simp
      with over have "cap \<le> wait * (2 * 2 ^ n)" by linarith
      ultimately show ?thesis using False by (simp add: min_def)
    qed
  qed
qed simp

text \<open>C37: the idle wait after a number of empty polls is \<open>min(base * 2^empties, cap)\<close> with a cap never
  below the base, for every number of polls up to the largest 32-bit one, although the code doubles
  step by step in saturating arithmetic and leaves early.\<close>

theorem idle_wait_doubles:
  assumes "wk_idle_backoff_cap W \<le> DURATION_MAX" and "wk_poll_interval W \<le> DURATION_MAX"
  shows "idle_wait W n = min (wk_poll_interval W * 2 ^ unat n) (max (wk_idle_backoff_cap W) (wk_poll_interval W))"
  unfolding idle_wait_def using assms by (intro idle_loop_eq) auto

theorem idle_wait_doubles_witness:
  "let W = with_idle_backoff (from_millis 100) (from_secs 1) (worker_new (memory_broker mem_config_default)) :: (inner, unit, unit, unit) worker
   in idle_wait W 3 = from_millis 800 \<and> idle_wait W (- 1) = from_secs 1"
proof -
  let ?W = "with_idle_backoff (from_millis 100) (from_secs 1) (worker_new (memory_broker mem_config_default)) :: (inner, unit, unit, unit) worker"
  have b: "wk_poll_interval ?W = from_millis 100" "wk_idle_backoff_cap ?W = from_secs 1"
    by (simp_all add: with_idle_backoff_def from_secs_def from_millis_def)
  then have d: "wk_idle_backoff_cap ?W \<le> DURATION_MAX" "wk_poll_interval ?W \<le> DURATION_MAX"
    by (simp_all add: from_secs_def from_millis_def DURATION_MAX_def)
  have "(2 :: nat) ^ 4 \<le> 2 ^ unat (- 1 :: u32)"
    by (intro power_increasing) (simp_all add: unsigned_minus_1_eq_mask mask_eq_exp_minus_1)
  then have "from_secs 1 \<le> from_millis 100 * 2 ^ unat (- 1 :: u32)" by (simp add: from_secs_def from_millis_def)
  then have "idle_wait ?W (- 1) = from_secs 1"
    unfolding idle_wait_doubles [OF d] b by (simp add: from_secs_def from_millis_def min.absorb2)
  moreover have "idle_wait ?W 3 = from_millis 800"
    unfolding idle_wait_doubles [OF d] b by (simp add: from_secs_def from_millis_def)
  ultimately show ?thesis by simp
qed

section \<open>Jobs in flight\<close>

lemma keep_first_simps [simp]:
  "ls_in_flight (keep_first e st) = ls_in_flight st" "ls_minted (keep_first e st) = ls_minted st"
  "ls_shutting_down (keep_first e st) = ls_shutting_down st" "ls_drain_deadline (keep_first e st) = ls_drain_deadline st"
  "\<exists>y. ls_first_err (keep_first e st) = Some y"
  by (simp_all add: keep_first_def split: option.split)

lemma keep_first_kept: "ls_first_err st = Some x \<Longrightarrow> ls_first_err (keep_first e st) = Some x"
  by (simp add: keep_first_def)

lemma record_error_simps [simp]:
  "ls_in_flight (record_error W e st) = ls_in_flight st" "ls_minted (record_error W e st) = ls_minted st"
  by (simp_all add: record_error_def)

lemma bump_polls_simps [simp]:
  "ls_in_flight (bump_polls st) = ls_in_flight st" "ls_minted (bump_polls st) = ls_minted st"
  "ls_shutting_down (bump_polls st) = ls_shutting_down st" "ls_first_err (bump_polls st) = ls_first_err st"
  by (simp_all add: bump_polls_def)

lemma fill_shutting_down: "ls_shutting_down st \<Longrightarrow> fill_capacity H W n st w = (st, w)"
  by (cases n) simp_all

lemma fill_capacity_length:
  "fill_capacity H W n st w = (st', w') \<Longrightarrow> length (ls_in_flight st') \<le> length (ls_in_flight st) + n"
proof (induction n arbitrary: st w)
  case (Suc n)
  show ?case
  proof (cases "ls_shutting_down st")
    case True
    with Suc.prems show ?thesis by simp
  next
    case False
    obtain r w1 where r: "on_broker (\<lambda>now. bk_reserve (wk_broker W) now (hs_receipt H (ls_minted st)) (wk_lane W)) w = (r, w1)"
      by fastforce
    show ?thesis
    proof (cases r)
      case (Inl e)
      with Suc.prems False r show ?thesis by (auto simp: Let_def)
    next
      case (Inr opt)
      show ?thesis
      proof (cases opt)
        case None
        with Suc.prems False r Inr show ?thesis by (auto simp: Let_def)
      next
        case (Some rsv)
        with Suc.prems False r Inr
        have "fill_capacity H W n (st\<lparr> ls_minted := Suc (ls_minted st), ls_in_flight := ls_in_flight st @ [rsv], ls_empty_polls := 0 \<rparr>) w1 = (st', w')"
          by (simp add: Let_def)
        from Suc.IH [OF this] show ?thesis by simp
      qed
    qed
  qed
qed simp

lemma join_task_flight:
  "join_task H W k evs p st w = (e, st', w') \<Longrightarrow> st' = st\<lparr> ls_in_flight := remove_at k (ls_in_flight st) \<rparr>"
  by (auto simp: join_task_def Let_def split: prod.splits)

lemma length_remove_at_le: "length (remove_at k xs) \<le> length xs"
  by (simp add: remove_at_def)

text \<open>A pass after the filling: what it may do to the jobs in flight.\<close>

lemma run_iter_cases:
  assumes "run_iter H W ev st w = (left, st', w')"
  obtains st1 w1 where
    "fill_capacity H W (max (wk_concurrency W) 1 - length (ls_in_flight st))
       (if ls_shutting_down st then st else st\<lparr> ls_shutting_down := fst ev \<rparr>) w = (st1, w1)"
    "ls_in_flight st' = ls_in_flight st1 \<or>
       (\<exists>k < length (ls_in_flight st1). ls_in_flight st' = remove_at k (ls_in_flight st1))"
    "ls_minted st' = ls_minted st1" "ls_shutting_down st1 \<Longrightarrow> ls_shutting_down st'"
    "left \<Longrightarrow> ls_shutting_down st1 \<and> (wk_shutdown_timeout W = None \<longrightarrow> ls_in_flight st' = [])"
    "\<And>e. ls_first_err st1 = Some e \<Longrightarrow> ls_first_err st' = Some e"
proof -
  obtain signalled elapse wake where ev: "ev = (signalled, elapse, wake)" by (cases ev)
  define st0 where "st0 = (if ls_shutting_down st then st else st\<lparr> ls_shutting_down := signalled \<rparr>)"
  obtain st1 w1 where fill: "fill_capacity H W (max (wk_concurrency W) 1 - length (ls_in_flight st0)) st0 w = (st1, w1)"
    by fastforce
  have len0: "ls_in_flight st0 = ls_in_flight st" by (simp add: st0_def)
  note run = assms [unfolded run_iter_def ev Let_def prod.case, folded st0_def, unfolded fill prod.case]
  have main: "(ls_in_flight st' = ls_in_flight st1 \<or>
       (\<exists>k < length (ls_in_flight st1). ls_in_flight st' = remove_at k (ls_in_flight st1))) \<and>
    ls_minted st' = ls_minted st1 \<and> (ls_shutting_down st1 \<longrightarrow> ls_shutting_down st') \<and>
    (left \<longrightarrow> ls_shutting_down st1 \<and> (wk_shutdown_timeout W = None \<longrightarrow> ls_in_flight st' = [])) \<and>
    (\<forall>e. ls_first_err st1 = Some e \<longrightarrow> ls_first_err st' = Some e)"
  proof (cases "ls_in_flight st1 = []")
    case True
    with run show ?thesis by (auto split: if_splits wake.splits)
  next
    case flight: False
    show ?thesis
    proof (cases "ls_shutting_down st1")
      case True
      show ?thesis
      proof (cases "\<exists>k evs p. wake = WakeJoin k evs p \<and> k < length (ls_in_flight st1)")
        case True
        then obtain k evs p where k: "wake = WakeJoin k evs p" "k < length (ls_in_flight st1)" by blast
        with run flight \<open>ls_shutting_down st1\<close> show ?thesis
          by (auto split: prod.splits option.splits dest!: join_task_flight simp: keep_first_kept)
      next
        case False
        with run flight True show ?thesis by (auto split: wake.splits option.splits)
      qed
    next
      case running: False
      show ?thesis
      proof (cases "\<exists>k evs p. wake = WakeJoin k evs p \<and> k < length (ls_in_flight st1)")
        case True
        then obtain k evs p where k: "wake = WakeJoin k evs p" "k < length (ls_in_flight st1)" by blast
        with run flight running show ?thesis
          by (auto split: prod.splits option.splits dest!: join_task_flight simp: keep_first_kept record_error_def)
      next
        case False
        with run flight running show ?thesis by (auto split: wake.splits if_splits)
      qed
    qed
  qed
  show ?thesis
    by (rule that [of st1 w1]) (use main fill len0 in \<open>auto simp: st0_def ev split: if_splits\<close>)
qed

lemma run_iter_bounded:
  assumes "run_iter H W ev st w = (left, st', w')" and "length (ls_in_flight st) \<le> max (wk_concurrency W) 1"
  shows "length (ls_in_flight st') \<le> max (wk_concurrency W) 1"
proof -
  obtain st1 w1 where
    fill: "fill_capacity H W (max (wk_concurrency W) 1 - length (ls_in_flight st))
       (if ls_shutting_down st then st else st\<lparr> ls_shutting_down := fst ev \<rparr>) w = (st1, w1)" and
    fl: "ls_in_flight st' = ls_in_flight st1 \<or>
       (\<exists>k < length (ls_in_flight st1). ls_in_flight st' = remove_at k (ls_in_flight st1))"
    using run_iter_cases [OF assms(1)] by metis
  from fill_capacity_length [OF fill] assms(2) have "length (ls_in_flight st1) \<le> max (wk_concurrency W) 1"
    by (auto split: if_splits)
  with fl length_remove_at_le show ?thesis by (metis order_trans)
qed

lemma run_iter_left:
  assumes "run_iter H W ev st w = (True, st', w')"
  shows "ls_shutting_down st'" and "wk_shutdown_timeout W = None \<Longrightarrow> ls_in_flight st' = []"
  using run_iter_cases [OF assms] by metis+

section \<open>The first error\<close>

text \<open>The errors a run has to report, read off the broker's answers and the tasks' ends without the
  loop's own bookkeeping: in each pass the error of the reservation that failed while filling, and
  the error of the task that was joined.  A resilient worker reports neither while it is running,
  and the latter while it drains.\<close>

definition option_list :: "'a option \<Rightarrow> 'a list" where
  "option_list x = (case x of None \<Rightarrow> [] | Some y \<Rightarrow> [y])"

definition first_of :: "'a list \<Rightarrow> 'a option" where
  "first_of xs = (case xs of [] \<Rightarrow> None | x # _ \<Rightarrow> Some x)"

lemma first_of_simps [simp]:
  "first_of [] = None" "first_of (x # xs) = Some x" "first_of (option_list y) = y"
  "option_list None = []" "option_list (Some z) = [z]"
  by (simp_all add: first_of_def option_list_def split: option.split)

lemma first_of_append: "first_of (xs @ ys) = (case first_of xs of None \<Rightarrow> first_of ys | Some x \<Rightarrow> Some x)"
  by (cases xs) simp_all

fun reserve_failure ::
  "host \<Rightarrow> ('s, 'r, 'p, 'g) worker \<Rightarrow> nat \<Rightarrow> nat \<Rightarrow> ('s, 'r, 'p, 'g) world \<Rightarrow> error option" where
  "reserve_failure H W 0 m w = None"
| "reserve_failure H W (Suc n) m w =
     (case on_broker (\<lambda>now. bk_reserve (wk_broker W) now (hs_receipt H m) (wk_lane W)) w of
        (Inr (Some rsv), w1) \<Rightarrow> reserve_failure H W n (Suc m) w1
      | (Inr None, w1) \<Rightarrow> None
      | (Inl e, w1) \<Rightarrow> Some e)"

definition pass_errors ::
  "host \<Rightarrow> ('s, 'r, 'p, 'g) worker \<Rightarrow> bool \<times> (('s, 'r, 'p, 'g) world \<Rightarrow> ('s, 'r, 'p, 'g) world) \<times> ('s, 'r, 'p, 'g) world wake \<Rightarrow>
   loop_state \<Rightarrow> ('s, 'r, 'p, 'g) world \<Rightarrow> error list" where
  "pass_errors H W ev st w =
     (let (signalled, elapse, wake) = ev;
          n = max (wk_concurrency W) 1 - length (ls_in_flight st);
          (st1, w1) = fill_capacity H W n (if ls_shutting_down st then st else st\<lparr> ls_shutting_down := signalled \<rparr>) w;
          reserving = (if ls_shutting_down st \<or> signalled \<or> wk_resilient W then None
                       else reserve_failure H W n (ls_minted st) w);
          joining = (case wake of
                       WakeJoin k evs panicked \<Rightarrow>
                         if k < length (ls_in_flight st1) \<and> (ls_shutting_down st1 \<or> \<not> wk_resilient W)
                         then fst (join_task H W k evs panicked st1 (elapse w1)) else None
                     | _ \<Rightarrow> None)
      in option_list reserving @ option_list joining)"

fun run_errors ::
  "host \<Rightarrow> ('s, 'r, 'p, 'g) worker \<Rightarrow> (bool \<times> (('s, 'r, 'p, 'g) world \<Rightarrow> ('s, 'r, 'p, 'g) world) \<times> ('s, 'r, 'p, 'g) world wake) list \<Rightarrow>
   loop_state \<Rightarrow> ('s, 'r, 'p, 'g) world \<Rightarrow> error list" where
  "run_errors H W [] st w = []"
| "run_errors H W (ev # evs) st w =
     (let (left, st1, w1) = run_iter H W ev st w
      in pass_errors H W ev st w @ (if left then [] else run_errors H W evs st1 w1))"

lemma keep_first_err: "ls_first_err (keep_first e st) = first_of (option_list (ls_first_err st) @ [e])"
  by (cases "ls_first_err st") (simp_all add: keep_first_def)

lemma fill_first_err:
  assumes "fill_capacity H W n st w = (st', w')" and "\<not> ls_shutting_down st"
  shows "ls_first_err st' = first_of (option_list (ls_first_err st) @
    option_list (if wk_resilient W then None else reserve_failure H W n (ls_minted st) w))"
  using assms
proof (induction n arbitrary: st w)
  case (Suc n)
  obtain r w1 where r: "on_broker (\<lambda>now. bk_reserve (wk_broker W) now (hs_receipt H (ls_minted st)) (wk_lane W)) w = (r, w1)"
    by fastforce
  show ?case
  proof (cases r)
    case (Inl e)
    with Suc.prems r show ?thesis by (auto simp: Let_def record_error_def keep_first_err)
  next
    case (Inr opt)
    show ?thesis
    proof (cases opt)
      case None
      with Suc.prems r Inr show ?thesis by (auto simp: Let_def)
    next
      case (Some rsv)
      let ?st = "st\<lparr> ls_minted := Suc (ls_minted st), ls_in_flight := ls_in_flight st @ [rsv], ls_empty_polls := 0 \<rparr>"
      from Suc.prems r Inr Some have "fill_capacity H W n ?st w1 = (st', w')" by (simp add: Let_def)
      from Suc.IH [OF this] Suc.prems(2) r Inr Some show ?thesis by simp
    qed
  qed
qed simp

lemma join_task_err: "ls_in_flight st = ls_in_flight st' \<Longrightarrow> fst (join_task H W k evs p st w) = fst (join_task H W k evs p st' w)"
  by (simp add: join_task_def Let_def split: prod.split)

text \<open>What a pass adds to the recorded error.\<close>

lemma run_iter_joins:
  assumes "run_iter H W (signalled, elapse, wake) st w = (left, st', w')"
    and "fill_capacity H W (max (wk_concurrency W) 1 - length (ls_in_flight st))
       (if ls_shutting_down st then st else st\<lparr> ls_shutting_down := signalled \<rparr>) w = (st1, w1)"
  shows "ls_first_err st' = first_of (option_list (ls_first_err st1) @ option_list
    (case wake of
       WakeJoin k evs panicked \<Rightarrow>
         if k < length (ls_in_flight st1) \<and> (ls_shutting_down st1 \<or> \<not> wk_resilient W)
         then fst (join_task H W k evs panicked st1 (elapse w1)) else None
     | _ \<Rightarrow> None))"
proof -
  define st0 where "st0 = (if ls_shutting_down st then st else st\<lparr> ls_shutting_down := signalled \<rparr>)"
  have len0: "ls_in_flight st0 = ls_in_flight st" by (simp add: st0_def)
  note run = assms(1) [unfolded run_iter_def Let_def prod.case, folded st0_def,
      unfolded len0 assms(2) [folded st0_def] prod.case]
  show ?thesis
  proof (cases "\<exists>k evs p. wake = WakeJoin k evs p \<and> k < length (ls_in_flight st1)")
    case False
    with run show ?thesis by (auto split: wake.splits if_splits option.splits)
  next
    case True
    then obtain k evs p where k: "wake = WakeJoin k evs p" "k < length (ls_in_flight st1)" by blast
    then have flight: "ls_in_flight st1 \<noteq> []" by auto
    show ?thesis
    proof (cases "ls_shutting_down st1")
      case True
      define st2 where "st2 = st1\<lparr> ls_drain_deadline := (if wk_shutdown_timeout W = None then ls_drain_deadline st1
        else case wk_shutdown_timeout W of None \<Rightarrow> None | Some t \<Rightarrow>
          (case ls_drain_deadline st1 of None \<Rightarrow> Some (w_instant w1 + t) | Some d \<Rightarrow> Some d)) \<rparr>"
      obtain e st3 w3 where j: "join_task H W k evs p st2 (elapse w1) = (e, st3, w3)" by (metis prod_cases3)
      from join_task_flight [OF j] have e3: "ls_first_err st3 = ls_first_err st1" by (simp add: st2_def)
      have "ls_in_flight st1 = ls_in_flight st2" by (simp add: st2_def)
      from join_task_err [OF this, of H W k evs p "elapse w1"] j
      have "fst (join_task H W k evs p st1 (elapse w1)) = e" by simp
      moreover have "st' = (case e of None \<Rightarrow> st3 | Some x \<Rightarrow> keep_first x st3)"
        using run k flight True j by (simp add: st2_def)
      ultimately show ?thesis using k True e3 by (cases e) (simp_all add: keep_first_err)
    next
      case running: False
      obtain e st3 w3 where j: "join_task H W k evs p st1 (elapse w1) = (e, st3, w3)" by (metis prod_cases3)
      from join_task_flight [OF j] have e3: "ls_first_err st3 = ls_first_err st1" by simp
      have "st' = (case e of None \<Rightarrow> st3 | Some x \<Rightarrow> record_error W x st3)"
        using run k flight running j by simp
      with k running e3 j show ?thesis by (cases e) (simp_all add: record_error_def keep_first_err)
    qed
  qed
qed

lemma run_iter_first_err:
  assumes "run_iter H W ev st w = (left, st', w')"
  shows "ls_first_err st' = first_of (option_list (ls_first_err st) @ pass_errors H W ev st w)"
proof -
  obtain signalled elapse wake where ev: "ev = (signalled, elapse, wake)" by (cases ev)
  let ?n = "max (wk_concurrency W) 1 - length (ls_in_flight st)"
  let ?st0 = "if ls_shutting_down st then st else st\<lparr> ls_shutting_down := signalled \<rparr>"
  obtain st1 w1 where fill: "fill_capacity H W ?n ?st0 w = (st1, w1)" by fastforce
  have "ls_first_err st1 = first_of (option_list (ls_first_err st) @
    option_list (if ls_shutting_down st \<or> signalled \<or> wk_resilient W then None
      else reserve_failure H W ?n (ls_minted st) w))"
  proof (cases "ls_shutting_down st \<or> signalled")
    case True
    with fill have "st1 = ?st0" by (auto simp: fill_shutting_down)
    with True show ?thesis by auto
  next
    case False
    with fill_first_err [OF fill] show ?thesis by simp
  qed
  then show ?thesis
    unfolding run_iter_joins [OF assms [unfolded ev] fill] pass_errors_def Let_def ev prod.case fill
    by (simp add: first_of_append split: option.split)
qed

lemma worker_run_first_err:
  "worker_run H W evs st w = (res, st', w') \<Longrightarrow>
    ls_first_err st' = first_of (option_list (ls_first_err st) @ run_errors H W evs st w)"
proof (induction evs arbitrary: st w)
  case (Cons ev evs)
  obtain left st1 w1 where it: "run_iter H W ev st w = (left, st1, w1)" by (cases "run_iter H W ev st w")
  note one = run_iter_first_err [OF it]
  show ?case
  proof (cases left)
    case True
    with Cons.prems it one show ?thesis by simp
  next
    case False
    with Cons.prems it Cons.IH [of st1 w1] one show ?thesis
      by (simp add: first_of_append split: option.split)
  qed
qed simp

text \<open>C18: however the loop of \<^verbatim>\<open>run\<close> is driven, no more jobs are in flight than the configured
  concurrency.  When it returns it is shutting down, and unless a shutdown timeout is configured it
  has drained every job in flight.  It returns the first of the errors the run had to report, in
  the order in which reservations failed and tasks ended (a resilient worker has to report only
  those of tasks that end while it drains), and Ok when there was none.\<close>

theorem worker_run_safe:
  assumes "worker_run H W evs loop_start w = (res, st, w')"
  shows "length (ls_in_flight st) \<le> max (wk_concurrency W) 1 \<and>
    (\<forall>r. res = Some r \<longrightarrow> ls_shutting_down st \<and> r = loop_result st \<and>
       r = (case run_errors H W evs loop_start w of [] \<Rightarrow> Inr () | e # _ \<Rightarrow> Inl e) \<and>
       (wk_shutdown_timeout W = None \<longrightarrow> ls_in_flight st = []))"
proof -
  have main: "length (ls_in_flight st) \<le> max (wk_concurrency W) 1 \<and>
    (\<forall>r. res = Some r \<longrightarrow> ls_shutting_down st \<and> r = loop_result st \<and>
       (wk_shutdown_timeout W = None \<longrightarrow> ls_in_flight st = []))"
    if "worker_run H W evs s0 w = (res, st, w')" "length (ls_in_flight s0) \<le> max (wk_concurrency W) 1" for s0
    using that
  proof (induction evs arbitrary: s0 w)
    case (Cons ev evs)
    obtain left st1 w1 where it: "run_iter H W ev s0 w = (left, st1, w1)" by (cases "run_iter H W ev s0 w")
    note b = run_iter_bounded [OF it Cons.prems(2)]
    show ?case
    proof (cases left)
      case True
      with Cons.prems(1) it run_iter_left [of H W ev s0 w st1 w1] b show ?thesis by auto
    next
      case False
      with Cons.prems(1) it have "worker_run H W evs st1 w1 = (res, st, w')" by simp
      then show ?thesis using b by (rule Cons.IH)
    qed
  qed simp
  have "loop_result st = (case run_errors H W evs loop_start w of [] \<Rightarrow> Inr () | e # _ \<Rightarrow> Inl e)"
    using worker_run_first_err [OF assms] by (simp add: loop_result_def loop_start_def first_of_def split: list.split)
  with main [OF assms] show ?thesis by (auto simp: loop_start_def)
qed

text \<open>A broker whose reservations always fail, for a run that has an error to report.\<close>

definition failing_broker :: "error \<Rightarrow> inner broker" where
  "failing_broker e = (memory_broker mem_config_default)\<lparr> bk_reserve := \<lambda>now rcpt l s. (Inl e, s) \<rparr>"

theorem worker_run_safe_witness:
  "let W = with_concurrency 2 (worker_new (memory_broker mem_config_default) :: (inner, unit, unit, nat) worker);
       (res, st, w') = worker_run demo_host W [(False, id, WakeTick), (True, id, WakeTick)] loop_start (demo_world mem_with_clock 0);
       F = worker_new (failing_broker (Broker [Lit ''down''])) :: (inner, unit, unit, nat) worker;
       (fres, fst, fw) = worker_run demo_host F [(False, id, WakeTick)] loop_start (demo_world mem_with_clock 0)
   in res = Some (Inr ()) \<and> length (ls_in_flight st) \<le> 2 \<and> ls_in_flight st = [] \<and> ls_shutting_down st \<and>
      fres = Some (Inl (Broker [Lit ''down'']))"
proof -
  let ?W = "with_concurrency 2 (worker_new (memory_broker mem_config_default) :: (inner, unit, unit, nat) worker)"
  let ?F = "worker_new (failing_broker (Broker [Lit ''down''])) :: (inner, unit, unit, nat) worker"
  obtain res st w' where run: "worker_run demo_host ?W [(False, id, WakeTick), (True, id, WakeTick)] loop_start
      (demo_world mem_with_clock 0) = (res, st, w')" by (metis prod_cases3)
  obtain fres fst fw where frun: "worker_run demo_host ?F [(False, id, WakeTick)] loop_start
      (demo_world mem_with_clock 0) = (fres, fst, fw)" by (metis prod_cases3)
  have empty: "mem_reserve cfg t r l mem_with_clock = (Inr None, mem_with_clock)" for cfg t r l
    by (simp add: mem_reserve_def mem_with_clock_def release_expired_def pick_best_def reserve_loop.simps Let_def)
  have res: "res = Some (Inr ())"
    using run by (simp add: run_iter_def loop_start_def with_concurrency_def worker_new_def on_broker_eq demo_world_def empty
        bump_polls_def loop_result_def numeral_2_eq_2)
  have "fres \<noteq> None"
    using frun by (auto simp: run_iter_def loop_start_def worker_new_def failing_broker_def on_broker_eq demo_world_def
        record_error_def keep_first_def)
  moreover have "run_errors demo_host ?F [(False, id, WakeTick)] loop_start (demo_world mem_with_clock 0) = [(Broker [Lit ''down''])]"
    by (simp add: pass_errors_def run_iter_def loop_start_def worker_new_def failing_broker_def on_broker_eq demo_world_def
        record_error_def keep_first_def)
  ultimately have "fres = Some (Inl (Broker [Lit ''down'']))" using worker_run_safe [OF frun] by auto
  moreover have "wk_concurrency ?W = 2" "wk_shutdown_timeout ?W = None" by (simp_all add: with_concurrency_def worker_new_def)
  ultimately show ?thesis using worker_run_safe [OF run] res run frun by simp
qed

section \<open>Shutdown\<close>

lemma run_iter_shutting_down:
  assumes "run_iter H W ev st w = (left, st', w')" and "ls_shutting_down st"
  shows "ls_shutting_down st'" and "ls_minted st' = ls_minted st"
    and "length (ls_in_flight st') \<le> length (ls_in_flight st)"
    and "ls_first_err st = Some e \<Longrightarrow> ls_first_err st' = Some e"
proof -
  obtain st1 w1 where
    fill: "fill_capacity H W (max (wk_concurrency W) 1 - length (ls_in_flight st))
       (if ls_shutting_down st then st else st\<lparr> ls_shutting_down := fst ev \<rparr>) w = (st1, w1)" and
    fl: "ls_in_flight st' = ls_in_flight st1 \<or>
       (\<exists>k < length (ls_in_flight st1). ls_in_flight st' = remove_at k (ls_in_flight st1))" and
    rest: "ls_minted st' = ls_minted st1" "ls_shutting_down st1 \<Longrightarrow> ls_shutting_down st'"
      "\<And>e. ls_first_err st1 = Some e \<Longrightarrow> ls_first_err st' = Some e"
    using run_iter_cases [OF assms(1)] by metis
  from fill assms(2) have "st1 = st" by (simp add: fill_shutting_down)
  with rest assms(2) fl length_remove_at_le [of _ "ls_in_flight st"]
  show "ls_shutting_down st'" "ls_minted st' = ls_minted st"
    "length (ls_in_flight st') \<le> length (ls_in_flight st)"
    "ls_first_err st = Some e \<Longrightarrow> ls_first_err st' = Some e" by auto
qed

lemma run_iter_drains:
  assumes "ls_shutting_down st" and "k < length (ls_in_flight st)"
  shows "\<exists>st' w'. run_iter H W (sg, f, WakeJoin k evs p) st w = (False, st', w') \<and>
    ls_in_flight st' = remove_at k (ls_in_flight st) \<and> ls_shutting_down st'"
proof -
  have "ls_in_flight st \<noteq> []" using assms(2) by auto
  with assms show ?thesis
    by (auto simp: run_iter_def fill_shutting_down Let_def dest!: join_task_flight split: prod.split option.split)
qed

lemma run_iter_empty:
  assumes "ls_shutting_down st" and "ls_in_flight st = []"
  shows "run_iter H W ev st w = (True, st, w)"
  using assms by (cases ev) (simp add: run_iter_def fill_shutting_down Let_def)

text \<open>The passes of a drain: each is woken by one of the tasks still in flight.\<close>

fun drain_order :: "nat \<Rightarrow> (bool \<times> ('w \<Rightarrow> 'w) \<times> 'w wake) list \<Rightarrow> bool" where
  "drain_order n [] \<longleftrightarrow> n = 0"
| "drain_order n ((sg, f, WakeJoin k evs p) # js) \<longleftrightarrow> k < n \<and> drain_order (n - 1) js"
| "drain_order n (ev # js) \<longleftrightarrow> False"

text \<open>C19: a shutdown ends.  Once the worker is shutting down, and with no shutdown timeout in play,
  the loop returns as soon as every job in flight has ended, in any order and with any outcome; no
  job is reserved any more, and an error recorded before is still the one returned.\<close>

theorem worker_drains:
  assumes "ls_shutting_down st" and "drain_order (length (ls_in_flight st)) js"
  shows "\<exists>st' w'. worker_run H W (js @ [final]) st w = (Some (loop_result st'), st', w') \<and>
    ls_in_flight st' = [] \<and> ls_minted st' = ls_minted st \<and>
    (\<forall>e. ls_first_err st = Some e \<longrightarrow> loop_result st' = Inl e)"
  using assms
proof (induction js arbitrary: st w)
  case Nil
  then show ?case by (auto simp: run_iter_empty loop_result_def)
next
  case (Cons ev js)
  obtain sg f wake where ev: "ev = (sg, f, wake)" by (cases ev)
  with Cons.prems(2) obtain k evs p where wake: "wake = WakeJoin k evs p" and k: "k < length (ls_in_flight st)"
    and ord: "drain_order (length (ls_in_flight st) - 1) js" by (cases wake) auto
  obtain st1 w1 where it: "run_iter H W ev st w = (False, st1, w1)"
    and fl: "ls_in_flight st1 = remove_at k (ls_in_flight st)" and sd: "ls_shutting_down st1"
    using run_iter_drains [OF Cons.prems(1) k] ev wake by blast
  from fl k have len: "length (ls_in_flight st1) = length (ls_in_flight st) - 1" by (simp add: length_remove_at)
  with ord have ord1: "drain_order (length (ls_in_flight st1)) js" by simp
  obtain st' w' where rest: "worker_run H W (js @ [final]) st1 w1 = (Some (loop_result st'), st', w')"
    "ls_in_flight st' = []" "ls_minted st' = ls_minted st1" "\<forall>e. ls_first_err st1 = Some e \<longrightarrow> loop_result st' = Inl e"
    using Cons.IH [OF sd ord1] by blast
  note sh = run_iter_shutting_down [OF it Cons.prems(1)]
  have run: "worker_run H W ((ev # js) @ [final]) st w = (Some (loop_result st'), st', w')"
    using it rest(1) by simp
  have "\<forall>e. ls_first_err st = Some e \<longrightarrow> loop_result st' = Inl e" using sh(4) rest(4) by blast
  with run rest(2,3) sh(2) show ?case by auto
qed

theorem worker_drains_witness:
  "let W = (worker_new (memory_broker mem_config_default) :: (inner, unit, unit, nat) worker);
       st = loop_start\<lparr> ls_in_flight := [demo_rsv], ls_shutting_down := True, ls_first_err := Some (stale (Receipt 3)) \<rparr>
   in \<exists>st' w'. worker_run demo_host W ([(False, id, WakeJoin 0 [] False)] @ [(False, id, WakeTick)]) st (demo_world demo_leased 1) =
        (Some (Inl (stale (Receipt 3))), st', w') \<and> ls_in_flight st' = []"
proof -
  let ?st = "loop_start\<lparr> ls_in_flight := [demo_rsv], ls_shutting_down := True, ls_first_err := Some (stale (Receipt 3)) \<rparr>"
  let ?js = "[(False, id, WakeJoin 0 [] False)] :: (bool \<times> ((inner, unit, unit, nat) world \<Rightarrow> (inner, unit, unit, nat) world) \<times>
     (inner, unit, unit, nat) world wake) list"
  have "ls_shutting_down ?st" "drain_order (length (ls_in_flight ?st)) ?js" by simp_all
  from worker_drains [OF this, of demo_host "worker_new (memory_broker mem_config_default)" "(False, id, WakeTick)" "demo_world demo_leased 1"]
  show ?thesis unfolding Let_def by (metis loop_state.select_convs(3) loop_state.update_convs(3) loop_state.surjective)
qed

section \<open>Running until idle\<close>

lemma fill_capacity_grows:
  "fill_capacity H W n st w = (st', w') \<Longrightarrow> length (ls_in_flight st) \<le> length (ls_in_flight st')"
proof (induction n arbitrary: st w)
  case (Suc n)
  obtain r w1 where r: "on_broker (\<lambda>now. bk_reserve (wk_broker W) now (hs_receipt H (ls_minted st)) (wk_lane W)) w = (r, w1)"
    by fastforce
  consider "ls_shutting_down st" | e where "\<not> ls_shutting_down st" "r = Inl e" | "\<not> ls_shutting_down st" "r = Inr None"
    | rsv where "\<not> ls_shutting_down st" "r = Inr (Some rsv)" by (cases r; cases "projr r") auto
  then show ?case
  proof cases
    case (4 rsv)
    with Suc.prems r have "fill_capacity H W n (st\<lparr> ls_minted := Suc (ls_minted st),
        ls_in_flight := ls_in_flight st @ [rsv], ls_empty_polls := 0 \<rparr>) w1 = (st', w')" by (simp add: Let_def)
    from Suc.IH [OF this] show ?thesis by simp
  qed (use Suc.prems r in \<open>auto simp: Let_def\<close>)
qed simp

definition errors_stop :: "loop_state \<Rightarrow> bool" where
  "errors_stop st \<longleftrightarrow> (ls_shutting_down st \<longrightarrow> ls_first_err st \<noteq> None)"

lemma fill_capacity_errors_stop:
  "fill_capacity H W n st w = (st', w') \<Longrightarrow> errors_stop st \<Longrightarrow> errors_stop st'"
proof (induction n arbitrary: st w)
  case (Suc n)
  obtain r w1 where r: "on_broker (\<lambda>now. bk_reserve (wk_broker W) now (hs_receipt H (ls_minted st)) (wk_lane W)) w = (r, w1)"
    by fastforce
  consider "ls_shutting_down st" | e where "\<not> ls_shutting_down st" "r = Inl e" | "\<not> ls_shutting_down st" "r = Inr None"
    | rsv where "\<not> ls_shutting_down st" "r = Inr (Some rsv)" by (cases r; cases "projr r") auto
  then show ?case
  proof cases
    case (4 rsv)
    with Suc.prems r have "fill_capacity H W n (st\<lparr> ls_minted := Suc (ls_minted st),
        ls_in_flight := ls_in_flight st @ [rsv], ls_empty_polls := 0 \<rparr>) w1 = (st', w')" by (simp add: Let_def)
    from Suc.IH [OF this] Suc.prems(2) 4 show ?thesis by (simp add: errors_stop_def)
  qed (use Suc.prems r in \<open>auto simp: Let_def errors_stop_def record_error_def\<close>)
qed simp

text \<open>A filling that leaves nothing in flight and did not fail has asked the broker and found nothing.\<close>

lemma fill_capacity_idle:
  assumes "fill_capacity H W n st w = (st', w')" and "0 < n" and "ls_in_flight st' = []"
    and "\<not> wk_resilient W" and "\<not> ls_shutting_down st'" and "\<not> ls_shutting_down st"
  shows "\<exists>m. on_broker (\<lambda>now. bk_reserve (wk_broker W) now (hs_receipt H m) (wk_lane W)) w = (Inr None, w')"
proof -
  obtain k where n: "n = Suc k" using assms(2) by (cases n) auto
  obtain r w1 where r: "on_broker (\<lambda>now. bk_reserve (wk_broker W) now (hs_receipt H (ls_minted st)) (wk_lane W)) w = (r, w1)"
    by fastforce
  consider e where "r = Inl e" | "r = Inr None" | rsv where "r = Inr (Some rsv)" by (cases r; cases "projr r") auto
  then show ?thesis
  proof cases
    case (1 e)
    with assms n r show ?thesis by (auto simp: Let_def record_error_def)
  next
    case 2
    with assms n r show ?thesis by (auto simp: Let_def)
  next
    case (3 rsv)
    with assms n r have "fill_capacity H W k (st\<lparr> ls_minted := Suc (ls_minted st),
        ls_in_flight := ls_in_flight st @ [rsv], ls_empty_polls := 0 \<rparr>) w1 = (st', w')" by (simp add: Let_def)
    from fill_capacity_grows [OF this] assms(3) show ?thesis by simp
  qed
qed

text \<open>C20: when \<^verbatim>\<open>run_until_idle\<close> returns without an error, nothing is in flight and the last thing it did
  was to ask the broker for a job of its lane and be told that there is none; and it never returns with a
  job in flight.\<close>

theorem run_until_idle_returns:
  assumes "run_until_idle H W evs loop_start w = (Some r, st, w')"
  shows "ls_in_flight st = [] \<and> r = loop_result st \<and>
    (r = Inr () \<longrightarrow> (\<exists>m w0. on_broker (\<lambda>now. bk_reserve (wk_broker W) now (hs_receipt H m) (wk_lane W)) w0 = (Inr None, w')))"
proof -
  have "ls_in_flight st = [] \<and> r = loop_result st \<and>
    (r = Inr () \<longrightarrow> (\<exists>m w0. on_broker (\<lambda>now. bk_reserve (wk_broker W) now (hs_receipt H m) (wk_lane W)) w0 = (Inr None, w')))"
    if "run_until_idle H W evs s0 w = (Some r, st, w')" "errors_stop s0" for s0
    using that
  proof (induction evs arbitrary: s0 w)
    case (Cons ev evs)
    obtain elapse k mevs p where ev: "ev = (elapse, k, mevs, p)" by (cases ev)
    let ?W = "W\<lparr> wk_resilient := False \<rparr>"
    obtain st1 w1 where fill: "fill_capacity H ?W (max (wk_concurrency W) 1 - length (ls_in_flight s0)) s0 w = (st1, w1)"
      by fastforce
    note es = fill_capacity_errors_stop [OF fill Cons.prems(2)]
    show ?case
    proof (cases "ls_in_flight st1 = []")
      case True
      with Cons.prems(1) ev fill have st: "st = st1" "w' = w1" "r = loop_result st1"
        by (auto simp: idle_iter_def Let_def)
      have "\<exists>m w0. on_broker (\<lambda>now. bk_reserve (wk_broker W) now (hs_receipt H m) (wk_lane W)) w0 = (Inr None, w')" if "r = Inr ()"
      proof -
        from that st(3) have "ls_first_err st1 = None" by (auto simp: loop_result_def split: option.splits)
        with es have run: "\<not> ls_shutting_down st1" by (simp add: errors_stop_def)
        then have run0: "\<not> ls_shutting_down s0" using fill by (auto simp: fill_shutting_down)
        have pos: "0 < max (wk_concurrency W) 1 - length (ls_in_flight s0)"
          using fill_capacity_grows [OF fill] True by simp
        from fill_capacity_idle [OF fill pos True _ run run0] st(2) show ?thesis by auto
      qed
      with True st show ?thesis by simp
    next
      case False
      obtain st2 w2 where it: "idle_iter H W ev s0 w = (False, st2, w2)" and es2: "errors_stop st2"
      proof (cases "k < length (ls_in_flight st1)")
        case True
        obtain e st3 w3 where j: "join_task H W k mevs p st1 (elapse w1) = (e, st3, w3)" by (metis prod_cases3)
        from join_task_flight [OF j] es have "errors_stop st3" by (simp add: errors_stop_def)
        with j True False fill ev that show ?thesis
          by (cases e) (auto simp: idle_iter_def Let_def errors_stop_def)
      next
        case False
        with \<open>ls_in_flight st1 \<noteq> []\<close> fill ev es that show ?thesis by (auto simp: idle_iter_def Let_def)
      qed
      from Cons.prems(1) it have "run_until_idle H W evs st2 w2 = (Some r, st, w')" by simp
      then show ?thesis using es2 by (rule Cons.IH)
    qed
  qed simp
  from this [OF assms] show ?thesis by (simp add: loop_start_def errors_stop_def)
qed

theorem run_until_idle_returns_witness:
  "let W = (worker_new (memory_broker mem_config_default) :: (inner, unit, unit, nat) worker)
   in \<exists>st w'. run_until_idle demo_host W [(id, 0, [], False)] loop_start (demo_world mem_with_clock 0) = (Some (Inr ()), st, w') \<and>
        ls_in_flight st = []"
proof -
  let ?W = "worker_new (memory_broker mem_config_default) :: (inner, unit, unit, nat) worker"
  have empty: "mem_reserve cfg t r l mem_with_clock = (Inr None, mem_with_clock)" for cfg t r l
    by (simp add: mem_reserve_def mem_with_clock_def release_expired_def pick_best_def reserve_loop.simps Let_def)
  obtain st w' where run: "run_until_idle demo_host ?W [(id, 0, [], False)] loop_start (demo_world mem_with_clock 0) = (Some (Inr ()), st, w')"
    by (simp add: idle_iter_def loop_start_def worker_new_def on_broker_eq demo_world_def empty loop_result_def)
  with run_until_idle_returns [OF run] show ?thesis by auto
qed

end
