(* ===== verification/Client.thy ===== *)
theory Client
  imports Worker_Exec
begin

text \<open>
  The client of \<^verbatim>\<open>worklane/src/client.rs\<close> and its job builder, \<^verbatim>\<open>client_builder.rs\<close>.  A builder is
  the \<open>new_job\<close> it holds, next to the client it belongs to.  Enqueueing threads the world: the
  payload store, the broker, and the counter of the UUIDs minted so far.
\<close>

section \<open>Configuration\<close>

record ('s, 'r, 'p) client =
  cl_broker :: "'s broker"
  cl_batch :: "(duration \<Rightarrow> new_job list \<Rightarrow> 's \<Rightarrow> job_id list result \<times> 's) option"
  cl_result_store :: "'r result_store option"
  cl_payload_store :: "'p payload_store option"
  cl_offload_threshold :: nat
  cl_default_max_attempts :: u32
  cl_lane :: lane
  cl_priority :: u8
  cl_lane_registry :: "lane_registry option"

definition client_new ::
  "'s broker \<Rightarrow> (duration \<Rightarrow> new_job list \<Rightarrow> 's \<Rightarrow> job_id list result \<times> 's) option \<Rightarrow> ('s, 'r, 'p) client" where
  "client_new B batch =
     \<lparr> cl_broker = B, cl_batch = batch, cl_result_store = None, cl_payload_store = None,
       cl_offload_threshold = DEFAULT_OFFLOAD_THRESHOLD, cl_default_max_attempts = DEFAULT_MAX_ATTEMPTS,
       cl_lane = default_lane, cl_priority = 0, cl_lane_registry = None \<rparr>"

definition client_with_result_store :: "'r result_store \<Rightarrow> ('s, 'r, 'p) client \<Rightarrow> ('s, 'r, 'p) client" where
  "client_with_result_store R C = C\<lparr> cl_result_store := Some R \<rparr>"

definition client_with_payload_store :: "'p payload_store \<Rightarrow> ('s, 'r, 'p) client \<Rightarrow> ('s, 'r, 'p) client" where
  "client_with_payload_store P C = C\<lparr> cl_payload_store := Some P \<rparr>"

definition with_offload_threshold :: "nat \<Rightarrow> ('s, 'r, 'p) client \<Rightarrow> ('s, 'r, 'p) client" where
  "with_offload_threshold n C = C\<lparr> cl_offload_threshold := n \<rparr>"

definition with_max_attempts :: "u32 \<Rightarrow> ('s, 'r, 'p) client \<Rightarrow> ('s, 'r, 'p) client" where
  "with_max_attempts n C = C\<lparr> cl_default_max_attempts := n \<rparr>"

definition client_with_lane :: "lane \<Rightarrow> ('s, 'r, 'p) client \<Rightarrow> ('s, 'r, 'p) client" where
  "client_with_lane l C = C\<lparr> cl_lane := l \<rparr>"

definition client_with_priority :: "u8 \<Rightarrow> ('s, 'r, 'p) client \<Rightarrow> ('s, 'r, 'p) client" where
  "client_with_priority p C = C\<lparr> cl_priority := p \<rparr>"

definition with_lane_registry :: "lane_registry \<Rightarrow> ('s, 'r, 'p) client \<Rightarrow> ('s, 'r, 'p) client" where
  "with_lane_registry reg C = C\<lparr> cl_lane_registry := Some reg \<rparr>"

section \<open>Offloading\<close>

definition fresh_uuid :: "host \<Rightarrow> ('s, 'r, 'p, 'g) world \<Rightarrow> uuid \<times> ('s, 'r, 'p, 'g) world" where
  "fresh_uuid H w = (hs_uuid H (w_uuids w), w\<lparr> w_uuids := Suc (w_uuids w) \<rparr>)"

definition over_inline_limit :: "nat \<Rightarrow> error" where
  "over_inline_limit n =
     Serialization [Lit ''job payload is '', FNat n, Lit '' bytes, over the '', FNat MAX_ENVELOPE_BYTES,
       Lit ''-byte inline limit; configure a PayloadStore to offload large payloads'']"

definition maybe_offload ::
  "host \<Rightarrow> ('s, 'r, 'p) client \<Rightarrow> bytes \<Rightarrow> ('s, 'r, 'p, 'g) world \<Rightarrow> bytes result \<times> ('s, 'r, 'p, 'g) world" where
  "maybe_offload H C payload w =
     (let inline = (if MAX_ENVELOPE_BYTES < length payload then Inl (over_inline_limit (length payload)) else Inr payload)
      in case cl_payload_store C of
           None \<Rightarrow> (inline, w)
         | Some P \<Rightarrow>
             if cl_offload_threshold C < length payload then
               let (u, w1) = fresh_uuid H w; (r, p) = ps_put P u payload (w_payloads w1); w2 = w1\<lparr> w_payloads := p \<rparr>
               in (case r of Inl e \<Rightarrow> (Inl e, w2) | Inr key \<Rightarrow> (Inr (make_reference key), w2))
             else (inline, w))"

definition cleanup_offload ::
  "('s, 'r, 'p) client \<Rightarrow> bytes \<Rightarrow> ('s, 'r, 'p, 'g) world \<Rightarrow> ('s, 'r, 'p, 'g) world" where
  "cleanup_offload C payload w =
     (case cl_payload_store C of
        None \<Rightarrow> w
      | Some P \<Rightarrow>
          (case reference_key payload of
             None \<Rightarrow> w
           | Some key \<Rightarrow> w\<lparr> w_payloads := snd (ps_delete P key (w_payloads w)) \<rparr>))"

definition cleanup_deduped_offload ::
  "('s, 'r, 'p) client \<Rightarrow> job_id \<Rightarrow> job_id \<Rightarrow> bytes \<Rightarrow> ('s, 'r, 'p, 'g) world \<Rightarrow> ('s, 'r, 'p, 'g) world" where
  "cleanup_deduped_offload C submitted returned payload w =
     (if submitted = returned then w else cleanup_offload C payload w)"

fun cleanup_offloads ::
  "('s, 'r, 'p) client \<Rightarrow> bytes list \<Rightarrow> ('s, 'r, 'p, 'g) world \<Rightarrow> ('s, 'r, 'p, 'g) world" where
  "cleanup_offloads C [] w = w"
| "cleanup_offloads C (b # bs) w = cleanup_offloads C bs (cleanup_offload C b w)"

definition check_lane :: "('s, 'r, 'p) client \<Rightarrow> lane \<Rightarrow> unit result" where
  "check_lane C l =
     (case cl_lane_registry C of
        Some reg \<Rightarrow> if registry_contains reg l then Inr () else Inl (UnknownLane [Lit (lane_str l)])
      | None \<Rightarrow> Inr ())"

section \<open>Builders\<close>

text \<open>A payload is encoded by \<open>to_vec\<close>, the serializer of its type.\<close>

definition build_job ::
  "host \<Rightarrow> ('s, 'r, 'p) client \<Rightarrow> ('a \<Rightarrow> string + bytes) \<Rightarrow> string \<Rightarrow> 'a \<Rightarrow> ('s, 'r, 'p, 'g) world \<Rightarrow>
   new_job result \<times> ('s, 'r, 'p, 'g) world" where
  "build_job H C to_vec kind payload w =
     (case to_payload to_vec payload of
        Inl e \<Rightarrow> (Inl e, w)
      | Inr b \<Rightarrow>
          (let (u, w1) = fresh_uuid H w
           in (Inr (with_priority (cl_priority C)
                 (new_job_new (JobId u) (cl_lane C) kind b (cl_default_max_attempts C))), w1)))"

definition builder_with_lane :: "lane \<Rightarrow> new_job \<Rightarrow> new_job" where
  "builder_with_lane l j = j\<lparr> nj_lane := l \<rparr>"

definition builder_with_delay :: "duration \<Rightarrow> new_job \<Rightarrow> new_job" where
  "builder_with_delay d j = with_delay d j"

definition builder_with_unique_key :: "string \<Rightarrow> new_job \<Rightarrow> new_job" where
  "builder_with_unique_key k j = with_unique_key k j"

definition builder_with_priority :: "u8 \<Rightarrow> new_job \<Rightarrow> new_job" where
  "builder_with_priority p j = with_priority p j"

definition builder_enqueue ::
  "host \<Rightarrow> ('s, 'r, 'p) client \<Rightarrow> new_job \<Rightarrow> ('s, 'r, 'p, 'g) world \<Rightarrow> job_id result \<times> ('s, 'r, 'p, 'g) world" where
  "builder_enqueue H C job w =
     (case check_lane C (nj_lane job) of
        Inl e \<Rightarrow> (Inl e, w)
      | Inr u \<Rightarrow>
          (case maybe_offload H C (nj_payload job) w of
             (Inl e, w1) \<Rightarrow> (Inl e, w1)
           | (Inr payload, w1) \<Rightarrow>
               (case on_broker (\<lambda>now. bk_enqueue (cl_broker C) now (job\<lparr> nj_payload := payload \<rparr>)) w1 of
                  (Inl e, w2) \<Rightarrow> (Inl e, cleanup_offload C payload w2)
                | (Inr returned, w2) \<Rightarrow>
                    (Inr returned, cleanup_deduped_offload C (nj_id job) returned payload w2))))"

section \<open>Batches\<close>

definition client_enqueue_batch ::
  "('s, 'r, 'p) client \<Rightarrow> new_job list \<Rightarrow> ('s, 'r, 'p, 'g) world \<Rightarrow> job_id list result \<times> ('s, 'r, 'p, 'g) world" where
  "client_enqueue_batch C jobs w =
     (case cl_batch C of
        Some f \<Rightarrow> on_broker (\<lambda>now. f now jobs) w
      | None \<Rightarrow> (Inl (UnsupportedCapability [Lit ''batch enqueue'']), w))"

fun check_lanes :: "('s, 'r, 'p) client \<Rightarrow> new_job list \<Rightarrow> unit result" where
  "check_lanes C [] = Inr ()"
| "check_lanes C (j # js) = (case check_lane C (nj_lane j) of Inl e \<Rightarrow> Inl e | Inr u \<Rightarrow> check_lanes C js)"

text \<open>The loop that offloads the payloads of a batch one after the other.  A failing offload returns
  at once; what was offloaded before it stays in the store.\<close>

fun offload_all ::
  "host \<Rightarrow> ('s, 'r, 'p) client \<Rightarrow> new_job list \<Rightarrow> ('s, 'r, 'p, 'g) world \<Rightarrow> new_job list result \<times> ('s, 'r, 'p, 'g) world" where
  "offload_all H C [] w = (Inr [], w)"
| "offload_all H C (j # js) w =
     (case maybe_offload H C (nj_payload j) w of
        (Inl e, w1) \<Rightarrow> (Inl e, w1)
      | (Inr payload, w1) \<Rightarrow>
          (case offload_all H C js w1 of
             (Inl e, w2) \<Rightarrow> (Inl e, w2)
           | (Inr js', w2) \<Rightarrow> (Inr (j\<lparr> nj_payload := payload \<rparr> # js'), w2)))"

fun cleanup_deduped_offloads ::
  "('s, 'r, 'p) client \<Rightarrow> (new_job \<times> job_id) list \<Rightarrow> ('s, 'r, 'p, 'g) world \<Rightarrow> ('s, 'r, 'p, 'g) world" where
  "cleanup_deduped_offloads C [] w = w"
| "cleanup_deduped_offloads C ((j, returned) # ps) w =
     cleanup_deduped_offloads C ps (cleanup_deduped_offload C (nj_id j) returned (nj_payload j) w)"

fun clone_to_lanes :: "host \<Rightarrow> new_job \<Rightarrow> lane list \<Rightarrow> ('s, 'r, 'p, 'g) world \<Rightarrow> new_job list \<times> ('s, 'r, 'p, 'g) world" where
  "clone_to_lanes H job [] w = ([], w)"
| "clone_to_lanes H job (l # ls) w =
     (let (u, w1) = fresh_uuid H w; (js, w2) = clone_to_lanes H job ls w1
      in (job\<lparr> nj_lane := l, nj_id := JobId u \<rparr> # js, w2))"

definition builder_enqueue_to_lanes ::
  "host \<Rightarrow> ('s, 'r, 'p) client \<Rightarrow> new_job \<Rightarrow> lane list \<Rightarrow> ('s, 'r, 'p, 'g) world \<Rightarrow>
   job_id list result \<times> ('s, 'r, 'p, 'g) world" where
  "builder_enqueue_to_lanes H C job lanes w =
     (let (jobs, w0) = clone_to_lanes H job lanes w in
      case check_lanes C jobs of
        Inl e \<Rightarrow> (Inl e, w0)
      | Inr u \<Rightarrow>
          if nj_unique_key job \<noteq> None \<and> 1 < length jobs then
            (Inl (Broker [Lit (''a unique_key cannot be combined with multi-lane fan-out: the shared key '' @
               ''would deduplicate the per-lane jobs down to one; enqueue per lane instead'')]), w0)
          else
            (case offload_all H C jobs w0 of
               (Inl e, w1) \<Rightarrow> (Inl e, w1)
             | (Inr jobs', w1) \<Rightarrow>
                 (case client_enqueue_batch C jobs' w1 of
                    (Inl e, w2) \<Rightarrow> (Inl e, cleanup_offloads C (map (\<lambda>j. nj_payload j) jobs') w2)
                  | (Inr returned, w2) \<Rightarrow>
                      (Inr returned, cleanup_deduped_offloads C (zip jobs' returned) w2))))"

section \<open>The typed entry points\<close>

definition enqueue_inner ::
  "host \<Rightarrow> ('s, 'r, 'p) client \<Rightarrow> ('a \<Rightarrow> string + bytes) \<Rightarrow> string \<Rightarrow> lane \<Rightarrow> duration \<Rightarrow> string option \<Rightarrow> 'a \<Rightarrow>
   ('s, 'r, 'p, 'g) world \<Rightarrow> job_id result \<times> ('s, 'r, 'p, 'g) world" where
  "enqueue_inner H C to_vec kind l delay unique_key payload w =
     (case build_job H C to_vec kind payload w of
        (Inl e, w1) \<Rightarrow> (Inl e, w1)
      | (Inr job, w1) \<Rightarrow>
          (let job1 = builder_with_delay delay (builder_with_lane l job);
               job2 = (case unique_key of None \<Rightarrow> job1 | Some k \<Rightarrow> builder_with_unique_key k job1)
           in builder_enqueue H C job2 w1))"

definition enqueue_to ::
  "host \<Rightarrow> ('s, 'r, 'p) client \<Rightarrow> ('a \<Rightarrow> string + bytes) \<Rightarrow> string \<Rightarrow> lane \<Rightarrow> 'a \<Rightarrow>
   ('s, 'r, 'p, 'g) world \<Rightarrow> job_id result \<times> ('s, 'r, 'p, 'g) world" where
  "enqueue_to H C to_vec kind l payload = enqueue_inner H C to_vec kind l 0 None payload"

definition client_enqueue ::
  "host \<Rightarrow> ('s, 'r, 'p) client \<Rightarrow> ('a \<Rightarrow> string + bytes) \<Rightarrow> string \<Rightarrow> 'a \<Rightarrow>
   ('s, 'r, 'p, 'g) world \<Rightarrow> job_id result \<times> ('s, 'r, 'p, 'g) world" where
  "client_enqueue H C to_vec kind payload = enqueue_to H C to_vec kind (cl_lane C) payload"

definition enqueue_in ::
  "host \<Rightarrow> ('s, 'r, 'p) client \<Rightarrow> ('a \<Rightarrow> string + bytes) \<Rightarrow> string \<Rightarrow> duration \<Rightarrow> 'a \<Rightarrow>
   ('s, 'r, 'p, 'g) world \<Rightarrow> job_id result \<times> ('s, 'r, 'p, 'g) world" where
  "enqueue_in H C to_vec kind delay payload = enqueue_inner H C to_vec kind (cl_lane C) delay None payload"

definition enqueue_unique ::
  "host \<Rightarrow> ('s, 'r, 'p) client \<Rightarrow> ('a \<Rightarrow> string + bytes) \<Rightarrow> string \<Rightarrow> string \<Rightarrow> 'a \<Rightarrow>
   ('s, 'r, 'p, 'g) world \<Rightarrow> job_id result \<times> ('s, 'r, 'p, 'g) world" where
  "enqueue_unique H C to_vec kind key payload = enqueue_inner H C to_vec kind (cl_lane C) 0 (Some key) payload"

definition enqueue_to_lanes ::
  "host \<Rightarrow> ('s, 'r, 'p) client \<Rightarrow> ('a \<Rightarrow> string + bytes) \<Rightarrow> string \<Rightarrow> lane list \<Rightarrow> 'a \<Rightarrow>
   ('s, 'r, 'p, 'g) world \<Rightarrow> job_id list result \<times> ('s, 'r, 'p, 'g) world" where
  "enqueue_to_lanes H C to_vec kind lanes payload w =
     (case build_job H C to_vec kind payload w of
        (Inl e, w1) \<Rightarrow> (Inl e, w1)
      | (Inr job, w1) \<Rightarrow> builder_enqueue_to_lanes H C job lanes w1)"

definition get_result ::
  "('s, 'r, 'p) client \<Rightarrow> (bytes \<Rightarrow> string + 'a) \<Rightarrow> job_id \<Rightarrow> ('s, 'r, 'p, 'g) world \<Rightarrow> 'a option result" where
  "get_result C from_slice i w =
     (case cl_result_store C of
        None \<Rightarrow> Inl (ResultStore [Lit ''no result store configured''])
      | Some R \<Rightarrow>
          (case bk_classify (cl_broker C) i (w_broker w) of
             Inl e \<Rightarrow> Inl e
           | Inr CompletedOrUnknown \<Rightarrow>
               (case rs_get R i (w_results w) of
                  Inl e \<Rightarrow> Inl e
                | Inr None \<Rightarrow> Inr None
                | Inr (Some b) \<Rightarrow> (case from_payload from_slice b of Inl e \<Rightarrow> Inl e | Inr x \<Rightarrow> Inr (Some x)))
           | Inr st \<Rightarrow> Inr None))"

section \<open>What an enqueue leaves behind\<close>

text \<open>A stored payload stands for the bytes a client gave: inline, or through its reference.\<close>

definition stands_for :: "(string \<rightharpoonup> bytes) \<Rightarrow> bytes \<Rightarrow> bytes \<Rightarrow> bool" where
  "stands_for store stored payload \<longleftrightarrow>
     (case reference_key stored of None \<Rightarrow> stored = payload | Some k \<Rightarrow> store k = Some payload)"

text \<open>A store may refuse a write, or the deletion of a blob it has.\<close>

definition store_refuses :: "'p payload_store \<Rightarrow> ('p \<Rightarrow> bool) \<Rightarrow> ('p \<Rightarrow> string \<rightharpoonup> bytes) \<Rightarrow> bool" where
  "store_refuses P pinv content \<longleftrightarrow>
     (\<exists>u b p e p'. pinv p \<and> ps_put P u b p = (Inl e, p')) \<or>
     (\<exists>k p e p'. pinv p \<and> content p k \<noteq> None \<and> ps_delete P k p = (Inl e, p'))"

locale client_laws =
  br: broker_contract B binv view fresh lease horizon healthy + pay: payload_laws P pinv content
  for B :: "'s broker" and binv view fresh lease horizon healthy
    and P :: "'p payload_store" and pinv content
begin

lemma maybe_offload_Inr:
  assumes "pinv (w_payloads w)" and "cl_payload_store C = Some P"
    and "maybe_offload H C payload w = (Inr b, w1)"
  obtains (inline) "b = payload" "w1 = w"
  | (offloaded) k p1 where "b = make_reference k" "reference_key b = Some k"
      "ps_put P (hs_uuid H (w_uuids w)) payload (w_payloads w) = (Inr k, p1)"
      "w1 = w\<lparr> w_uuids := Suc (w_uuids w), w_payloads := p1 \<rparr>"
      "pinv p1" "content p1 = (content (w_payloads w))(k \<mapsto> payload)"
proof (cases "cl_offload_threshold C < length payload")
  case True
  with assms(2,3) obtain k p1
    where put: "ps_put P (hs_uuid H (w_uuids w)) payload (w_payloads w) = (Inr k, p1)"
      and b: "b = make_reference k" and w1: "w1 = w\<lparr> w_uuids := Suc (w_uuids w), w_payloads := p1 \<rparr>"
    by (auto simp: maybe_offload_def fresh_uuid_def Let_def split: prod.splits sum.splits)
  from pay.put_law [OF assms(1) put] have "valid_str k" "pinv p1" "content p1 = (content (w_payloads w))(k \<mapsto> payload)"
    by auto
  with put b w1 show ?thesis by (intro offloaded [of k p1]) (auto simp: reference_key_make)
next
  case False
  with assms(2,3) show ?thesis by (intro inline) (auto simp: maybe_offload_def Let_def split: if_splits)
qed

lemma maybe_offload_Inl:
  assumes "pinv (w_payloads w)" and "cl_payload_store C = Some P" and "maybe_offload H C payload w = (Inl e, w1)"
  shows "w_broker w1 = w_broker w" and "w_payloads w1 = w_payloads w \<or> store_refuses P pinv content"
  using assms
  by (auto simp: maybe_offload_def fresh_uuid_def store_refuses_def Let_def split: prod.splits sum.splits if_splits)

lemma cleanup_reference:
  assumes "pinv (w_payloads w)" and "cl_payload_store C = Some P" and "reference_key b = Some k"
    and "content (w_payloads w) k \<noteq> None"
  shows "w_broker (cleanup_offload C b w) = w_broker w"
    and "content (w_payloads (cleanup_offload C b w)) = (content (w_payloads w))(k := None) \<or> store_refuses P pinv content"
proof -
  obtain d p where d: "ps_delete P k (w_payloads w) = (d, p)" by (cases "ps_delete P k (w_payloads w)")
  then show "w_broker (cleanup_offload C b w) = w_broker w"
    using assms(2,3) by (simp add: cleanup_offload_def)
  show "content (w_payloads (cleanup_offload C b w)) = (content (w_payloads w))(k := None) \<or> store_refuses P pinv content"
  proof (cases d)
    case (Inl e)
    with d assms(1,4) show ?thesis unfolding store_refuses_def by blast
  next
    case (Inr u)
    with d pay.delete_law [OF assms(1) d] assms(2,3) show ?thesis by (simp add: cleanup_offload_def)
  qed
qed

lemma cleanup_plain: "reference_key b = None \<Longrightarrow> cleanup_offload C b w = w"
  by (simp add: cleanup_offload_def split: option.split)

text \<open>An enqueue either stops before it reaches the broker, or submits the job with the payload
  \<open>maybe_offload\<close> gave and cleans up unless the job was created.\<close>

lemma builder_enqueue_cases:
  assumes pinv: "pinv (w_payloads w)" and C: "cl_broker C = B" "cl_payload_store C = Some P"
    and run: "builder_enqueue H C job w = (res, w')"
  obtains (refused) e where "res = Inl e" "w_broker w' = w_broker w"
      "w_payloads w' = w_payloads w \<or> store_refuses P pinv content"
  | (sent) b w1 s where "maybe_offload H C (nj_payload job) w = (Inr b, w1)"
      "bk_enqueue B (w_now w1) (job\<lparr> nj_payload := b \<rparr>) (w_broker w1) = (res, s)"
      "w' = (if res = Inr (nj_id job) then w1\<lparr> w_broker := s \<rparr> else cleanup_offload C b (w1\<lparr> w_broker := s \<rparr>))"
proof (cases "check_lane C (nj_lane job)")
  case (Inl e)
  with run refused [of e] show ?thesis by (simp add: builder_enqueue_def)
next
  case lane: (Inr u)
  obtain o1 w1 where o1: "maybe_offload H C (nj_payload job) w = (o1, w1)" by fastforce
  show ?thesis
  proof (cases o1)
    case (Inl e)
    with lane o1 run maybe_offload_Inl [OF pinv C(2), of H "nj_payload job" e w1] refused [of e] show ?thesis
      by (simp add: builder_enqueue_def)
  next
    case (Inr b)
    obtain r s where r: "bk_enqueue B (w_now w1) (job\<lparr> nj_payload := b \<rparr>) (w_broker w1) = (r, s)" by fastforce
    have "builder_enqueue H C job w =
      (r, if r = Inr (nj_id job) then w1\<lparr> w_broker := s \<rparr> else cleanup_offload C b (w1\<lparr> w_broker := s \<rparr>))"
      using lane o1 Inr r
      by (cases r) (auto simp: builder_enqueue_def on_broker_def C(1) cleanup_deduped_offload_def)
    then have "res = r" "w' = (if r = Inr (nj_id job) then w1\<lparr> w_broker := s \<rparr> else cleanup_offload C b (w1\<lparr> w_broker := s \<rparr>))"
      using run by simp_all
    with o1 Inr r show ?thesis by (intro sent [of b w1 s]) simp_all
  qed
qed

lemma offload_then_cleanup:
  assumes pinv: "pinv (w_payloads w)" and C: "cl_payload_store C = Some P"
    and plain: "reference_key payload = None"
    and key: "\<forall>k p'. ps_put P (hs_uuid H (w_uuids w)) payload (w_payloads w) = (Inr k, p') \<longrightarrow>
      content (w_payloads w) k = None"
    and off: "maybe_offload H C payload w = (Inr b, w1)"
  shows "w_broker w1 = w_broker w" and "stands_for (content (w_payloads w1)) b payload \<and> pinv (w_payloads w1)"
    and "w_broker (cleanup_offload C b (w1\<lparr> w_broker := s \<rparr>)) = s"
    and "content (w_payloads (cleanup_offload C b (w1\<lparr> w_broker := s \<rparr>))) = content (w_payloads w) \<or>
      store_refuses P pinv content"
proof -
  have "w_broker w1 = w_broker w \<and> (stands_for (content (w_payloads w1)) b payload \<and> pinv (w_payloads w1)) \<and>
    w_broker (cleanup_offload C b (w1\<lparr> w_broker := s \<rparr>)) = s \<and>
    (content (w_payloads (cleanup_offload C b (w1\<lparr> w_broker := s \<rparr>))) = content (w_payloads w) \<or>
      store_refuses P pinv content)"
  proof (cases rule: maybe_offload_Inr [OF pinv C off, case_names inline offloaded])
    case inline
    then show ?thesis using pinv by (simp add: cleanup_plain plain stands_for_def)
  next
    case (offloaded k p1)
    then have undone: "(content p1)(k := None) = content (w_payloads w)"
      using key by fastforce
    have "pinv (w_payloads (w1\<lparr> w_broker := s \<rparr>))" "content (w_payloads (w1\<lparr> w_broker := s \<rparr>)) k \<noteq> None"
      using offloaded(4-6) by simp_all
    from cleanup_reference [OF this(1) C offloaded(2) this(2)] undone offloaded(2,4-6) show ?thesis
      by (simp add: stands_for_def)
  qed
  then show "w_broker w1 = w_broker w" and "stands_for (content (w_payloads w1)) b payload \<and> pinv (w_payloads w1)"
    and "w_broker (cleanup_offload C b (w1\<lparr> w_broker := s \<rparr>)) = s"
    and "content (w_payloads (cleanup_offload C b (w1\<lparr> w_broker := s \<rparr>))) = content (w_payloads w) \<or>
      store_refuses P pinv content"
    by blast+
qed

lemma enqueue_adds_only_its_job:
  assumes "binv s0" and "bk_enqueue B t0 nj s0 = (r, s)" and "\<And>t. view t s0 (nj_id nj) = None"
  shows "r = Inr (nj_id nj) \<Longrightarrow> \<exists>v. view t s (nj_id nj) = Some v \<and> jv_envelope v = into_envelope nj"
    and "r \<noteq> Inr (nj_id nj) \<Longrightarrow> view t s = view t s0"
proof -
  note law = br.enqueue_law [OF assms(1,2), of t]
  from law have kept: "\<And>i v. view t s0 i = Some v \<Longrightarrow> view t s i = Some v" by blast
  from law have live: "\<And>i. r = Inr i \<Longrightarrow> view t s i \<noteq> None" by blast
  from law have added: "\<And>i. view t s0 i = None \<Longrightarrow> view t s i \<noteq> None \<Longrightarrow>
      r = Inr i \<and> i = nj_id nj \<and> (\<exists>v. view t s i = Some v \<and> jv_envelope v = into_envelope nj)" by blast
  show "r = Inr (nj_id nj) \<Longrightarrow> \<exists>v. view t s (nj_id nj) = Some v \<and> jv_envelope v = into_envelope nj"
    using added [OF assms(3)] live by blast
  assume r: "r \<noteq> Inr (nj_id nj)"
  show "view t s = view t s0"
  proof
    fix i
    show "view t s i = view t s0 i"
      using added [of i] kept [of i] r by (cases "view t s0 i") fastforce+
  qed
qed

text \<open>An enqueue that creates its job leaves it live with a payload that stands for the one given;
  every other outcome (a refused lane, a payload over the limit, a store or broker error, a
  deduplication) leaves the jobs as they were and, unless the store refuses, its blobs too.\<close>

lemma enqueue_outcome:
  assumes inv: "binv (w_broker w)" "pinv (w_payloads w)"
    and C: "cl_broker C = B" "cl_payload_store C = Some P"
    and plain: "reference_key (nj_payload job) = None"
    and new: "\<And>t. view t (w_broker w) (nj_id job) = None"
    and key: "\<forall>k p'. ps_put P (hs_uuid H (w_uuids w)) (nj_payload job) (w_payloads w) = (Inr k, p') \<longrightarrow>
      content (w_payloads w) k = None"
    and run: "builder_enqueue H C job w = (res, w')"
  shows "(res = Inr (nj_id job) \<longrightarrow>
      (\<exists>v b. view t (w_broker w') (nj_id job) = Some v \<and> jv_envelope v = into_envelope (job\<lparr> nj_payload := b \<rparr>) \<and>
        stands_for (content (w_payloads w')) b (nj_payload job) \<and> pinv (w_payloads w'))) \<and>
    (res \<noteq> Inr (nj_id job) \<longrightarrow> view t (w_broker w') = view t (w_broker w) \<and>
      (content (w_payloads w') = content (w_payloads w) \<or> store_refuses P pinv content))"
proof (cases rule: builder_enqueue_cases [OF inv(2) C run, case_names refused sent])
  case refused
  then show ?thesis by auto
next
  case (sent b w1 s)
  note off = offload_then_cleanup(1,2) [OF inv(2) C(2) plain key sent(1)]
    offload_then_cleanup(3,4) [OF inv(2) C(2) plain key sent(1), where s = s]
  have enq: "bk_enqueue B (w_now w1) (job\<lparr> nj_payload := b \<rparr>) (w_broker w) = (res, s)"
    using sent(2) off(1) by simp
  note adds = enqueue_adds_only_its_job [OF inv(1) enq, simplified, OF new, of t]
  show ?thesis
  proof (cases "res = Inr (nj_id job)")
    case True
    with adds(1) sent(3) off(2) show ?thesis by auto
  next
    case False
    with adds(2) sent(3) off(3,4) show ?thesis by simp
  qed
qed

end

end
