(* ===== verification/Client_Props.thy ===== *)
theory Client_Props
  imports Client Uuid_Text Worker_Props
begin

text \<open>
  The client over the in-memory broker and the file store: what an enqueue leaves behind, on the
  success path up to the bytes the worker hands to the handler, and on every refused or
  deduplicated path.
\<close>

section \<open>The file store when the operating system reports no fault\<close>

definition file_quiet :: "uuid_codec \<Rightarrow> file_system \<Rightarrow> bool" where
  "file_quiet U fs \<longleftrightarrow> uuid_codec_ok U \<and> fs_faults fs = []"

lemma next_fault_quiet: "fs_faults fs = [] \<Longrightarrow> next_fault fs = (None, fs)"
  by (simp add: next_fault_def)

lemma quiet_ops_faults:
  assumes "fs_faults fs = []"
  shows "file_put U dir u b fs = (pr, fs') \<Longrightarrow> fs_faults fs' = []"
    and "file_get U dir k fs = (gr, fs') \<Longrightarrow> fs_faults fs' = []"
    and "file_delete U dir k fs = (dr, fs') \<Longrightarrow> fs_faults fs' = []"
  using assms
  by (auto simp: file_put_def file_get_def file_delete_def next_fault_quiet Let_def split: sum.splits)

lemma file_payload_store_simps [simp]:
  "ps_put (file_payload_store U dir) = file_put U dir"
  "ps_get (file_payload_store U dir) = file_get U dir"
  "ps_delete (file_payload_store U dir) = file_delete U dir"
  by (simp_all add: file_payload_store_def)

interpretation quiet: payload_laws "file_payload_store U dir" "file_quiet U" "file_content U dir" for U dir
proof (unfold_locales, goal_cases)
  case (1 p u b k p')
  then have ok: "uuid_codec_ok U" and q: "fs_faults p = []" by (simp_all add: file_quiet_def)
  from quiet_ops_faults(1) [OF q] 1(2) have "fs_faults p' = []" by simp
  with fstore.put_law [OF ok 1(2)] show ?case by (simp add: file_quiet_def)
next
  case (2 p k gres p')
  then have ok: "uuid_codec_ok U" and q: "fs_faults p = []" by (simp_all add: file_quiet_def)
  from quiet_ops_faults(2) [OF q] 2(2) have "fs_faults p' = []" by simp
  with fstore.get_law [OF ok 2(2)] show ?case by (simp add: file_quiet_def)
next
  case (3 p k dres p')
  then have ok: "uuid_codec_ok U" and q: "fs_faults p = []" by (simp_all add: file_quiet_def)
  from quiet_ops_faults(3) [OF q] 3(2) have "fs_faults p' = []" by simp
  with fstore.delete_law [OF ok 3(2)] show ?case by (simp add: file_quiet_def)
qed

lemma quiet_never_refuses: "\<not> store_refuses (file_payload_store U dir) (file_quiet U) (file_content U dir)"
  by (auto simp: store_refuses_def file_quiet_def file_put_def file_delete_def file_content_def next_fault_quiet
      safe_path_show is_ok_iff Let_def split: if_splits)

interpretation mem_client: client_laws "memory_broker cfg" mem_inv mem_view mem_fresh "mc_lease cfg" mem_horizon "\<lambda>_. True"
  "file_payload_store U dir" "file_quiet U" "file_content U dir" for cfg U dir
  by unfold_locales

lemma stands_for_resolves:
  assumes "file_quiet U (w_payloads w)" and "pc_payload_store pc = Some (file_payload_store U dir)"
    and "stands_for (file_content U dir (w_payloads w)) b payload"
  shows "fst (resolve_payload pc b w) = Inr payload"
proof (cases "reference_key b")
  case None
  with assms(3) show ?thesis by (simp add: resolve_payload_def stands_for_def)
next
  case (Some k)
  with assms(3) have c: "file_content U dir (w_payloads w) k = Some payload" by (simp add: stands_for_def)
  then obtain path where "safe_path U dir k = Inr path"
    by (auto simp: file_content_def is_ok_iff split: if_splits)
  with assms(1) have "\<exists>r fs. file_get U dir k (w_payloads w) = (Inr r, fs)"
    by (simp add: file_get_def file_quiet_def next_fault_quiet)
  then obtain r fs where g: "file_get U dir k (w_payloads w) = (Inr r, fs)" by blast
  with quiet.get_law [OF assms(1), of dir k "Inr r" fs] c have "r = Some payload" by simp
  with Some g assms(2) show ?thesis by (simp add: resolve_payload_def)
qed

text \<open>C23: what an enqueue leaves behind.  A client over the in-memory broker and the file store, the
  operating system reporting no fault, enqueues a job with a new id whose payload does not look
  like a claim-check reference.  When the call returns the job's own id, the job is live with the
  fields the builder gave it, and a worker with the same store resolves its stored payload to the
  original bytes.  In every other case (a lane outside the registry, a payload over the inline
  limit, a broker error, an enqueue deduplicated to another job) the live jobs and the blobs of the
  store are as before: a payload offloaded for a job that was not created is deleted.\<close>

theorem client_enqueue_outcome:
  assumes "mem_inv (w_broker w)" and "uuid_codec_ok U" and "fs_faults (w_payloads w) = []"
    and "cl_broker C = memory_broker cfg" and "cl_payload_store C = Some (file_payload_store U dir)"
    and "pc_payload_store pc = Some (file_payload_store U dir)"
    and "reference_key (nj_payload job) = None"
    and "mem_view 0 (w_broker w) (nj_id job) = None"
    and "file_content U dir (w_payloads w) (uc_show U (hs_uuid H (w_uuids w))) = None"
    and "builder_enqueue H C job w = (res, w')"
  shows "(res = Inr (nj_id job) \<longrightarrow>
      (\<exists>v b. mem_view t (w_broker w') (nj_id job) = Some v \<and>
        jv_envelope v = into_envelope (job\<lparr> nj_payload := b \<rparr>) \<and>
        fst (resolve_payload pc b w') = Inr (nj_payload job))) \<and>
    (res \<noteq> Inr (nj_id job) \<longrightarrow>
      mem_view t (w_broker w') = mem_view t (w_broker w) \<and>
      file_content U dir (w_payloads w') = file_content U dir (w_payloads w))"
proof -
  have q: "file_quiet U (w_payloads w)" using assms(2,3) by (simp add: file_quiet_def)
  have new: "mem_view t' (w_broker w) (nj_id job) = None" for t'
    using mem.view_none [OF assms(1,8)] .
  have key: "\<forall>k p'. ps_put (file_payload_store U dir) (hs_uuid H (w_uuids w)) (nj_payload job) (w_payloads w) = (Inr k, p') \<longrightarrow>
      file_content U dir (w_payloads w) k = None"
    using assms(9) by (auto dest!: file_ops_Inr(1))
  note out = mem_client.enqueue_outcome [OF assms(1) q assms(4,5,7) new key assms(10), of t]
  show ?thesis
  proof (intro conjI impI)
    assume "res = Inr (nj_id job)"
    with out obtain v b where "mem_view t (w_broker w') (nj_id job) = Some v"
      "jv_envelope v = into_envelope (job\<lparr> nj_payload := b \<rparr>)"
      "stands_for (file_content U dir (w_payloads w')) b (nj_payload job)" "file_quiet U (w_payloads w')"
      by blast
    with stands_for_resolves [OF _ assms(6)] show "\<exists>v b. mem_view t (w_broker w') (nj_id job) = Some v \<and>
        jv_envelope v = into_envelope (job\<lparr> nj_payload := b \<rparr>) \<and> fst (resolve_payload pc b w') = Inr (nj_payload job)"
      by blast
  next
    assume "res \<noteq> Inr (nj_id job)"
    with out quiet_never_refuses [of U dir]
    show "mem_view t (w_broker w') = mem_view t (w_broker w)"
      and "file_content U dir (w_payloads w') = file_content U dir (w_payloads w)"
      by simp_all
  qed
qed

definition demo_client :: "(inner, unit, file_system) client" where
  "demo_client = with_offload_threshold 0 (client_with_payload_store (file_payload_store hyphenated ''/blobs'')
     (client_new (memory_broker mem_config_default) (Some mem_enqueue_batch)))"

definition demo_file_world :: "(inner, unit, file_system, nat) world" where
  "demo_file_world =
     \<lparr> w_broker = demo_store, w_results = (), w_payloads = \<lparr> fs_files = Map.empty, fs_faults = [] \<rparr>,
       w_breaker = Map.empty, w_events = [], w_flags = (\<lambda>_. False), w_next_flag = 0, w_now = 0,
       w_instant = 0, w_uuids = 0 \<rparr>"

definition demo_file_ctx :: "(inner, unit, file_system, nat) process_ctx" where
  "demo_file_ctx =
     \<lparr> pc_broker = memory_broker mem_config_default, pc_result_store = None,
       pc_payload_store = Some (file_payload_store hyphenated ''/blobs''), pc_observer = False,
       pc_circuit_breaker = None, pc_middleware = [], pc_retry = retry_policy_default,
       pc_handler_timeout = None, pc_lease_keepalive = False \<rparr>"

lemma length_hyphenated: "length (uc_show hyphenated u) = 36"
  by (simp add: hyphenated_def hyphenate_def)

lemma demo_client_enqueues:
  "fst (builder_enqueue demo_host demo_client (demo_job 2) demo_file_world) = Inr (JobId 2)"
proof -
  let ?u = "hs_uuid demo_host 0"
  have j: "nj_payload (demo_job 2) = [7]" "nj_id (demo_job 2) = JobId 2" "nj_unique_key (demo_job 2) = None"
    by (simp_all add: demo_job_def new_job_new_def)
  have put: "\<exists>fs. file_put hyphenated ''/blobs'' ?u [7] (w_payloads demo_file_world) = (Inr (uc_show hyphenated ?u), fs)"
    by (simp add: file_put_def safe_path_show [OF hyphenated_ok] next_fault_quiet demo_file_world_def Let_def)
  have "\<exists>w1. maybe_offload demo_host demo_client [7] demo_file_world =
      (Inr (make_reference (uc_show hyphenated ?u)), w1) \<and> w_broker w1 = demo_store"
    using put by (auto simp: maybe_offload_def fresh_uuid_def demo_client_def with_offload_threshold_def
        client_with_payload_store_def client_new_def demo_file_world_def Let_def split: prod.split)
  then obtain w1 where w1: "maybe_offload demo_host demo_client [7] demo_file_world =
      (Inr (make_reference (uc_show hyphenated ?u)), w1)" "w_broker w1 = demo_store" by blast
  have size: "length (make_reference (uc_show hyphenated ?u)) \<le> MAX_ENVELOPE_BYTES"
    by (simp add: make_reference_def MAGIC_def as_bytes_def length_hyphenated MAX_ENVELOPE_BYTES_def)
  have "\<not> list_ex (\<lambda>j. sj_id j = JobId 2) (in_jobs demo_store)" by code_simp
  with size have "\<exists>s. mem_enqueue (w_now w1) ((demo_job 2)\<lparr> nj_payload := make_reference (uc_show hyphenated ?u) \<rparr>) demo_store =
      (Inr (JobId 2), s)"
    by (simp add: mem_enqueue_def check_payload_size_def insert_one_def j Let_def)
  with w1 show ?thesis
    by (auto simp: builder_enqueue_def j check_lane_def on_broker_def demo_client_def with_offload_threshold_def
        client_with_payload_store_def client_new_def)
qed

theorem client_enqueue_outcome_witness:
  "\<exists>w' v b. builder_enqueue demo_host demo_client (demo_job 2) demo_file_world = (Inr (JobId 2), w') \<and>
     mem_view 5 (w_broker w') (JobId 2) = Some v \<and> jv_envelope v = into_envelope ((demo_job 2)\<lparr> nj_payload := b \<rparr>) \<and>
     fst (resolve_payload demo_file_ctx b w') = Inr [7]"
proof -
  have id: "nj_id (demo_job 2) = JobId 2" and pay: "nj_payload (demo_job 2) = [7]"
    by (simp_all add: demo_job_def new_job_new_def)
  have inv: "mem_inv (w_broker demo_file_world)"
    by (simp add: demo_file_world_def mem_reach_inv [OF demo_store_reach])
  have C: "cl_broker demo_client = memory_broker mem_config_default"
    "cl_payload_store demo_client = Some (file_payload_store hyphenated ''/blobs'')"
    by (simp_all add: demo_client_def with_offload_threshold_def client_with_payload_store_def client_new_def)
  have pc: "pc_payload_store demo_file_ctx = Some (file_payload_store hyphenated ''/blobs'')"
    by (simp add: demo_file_ctx_def)
  have quiet: "fs_faults (w_payloads demo_file_world) = []" by (simp add: demo_file_world_def)
  have plain: "reference_key (nj_payload (demo_job 2)) = None" unfolding pay by (rule reference_key_demo)
  have new: "mem_view 0 (w_broker demo_file_world) (nj_id (demo_job 2)) = None" by code_simp
  have blob: "file_content hyphenated ''/blobs'' (w_payloads demo_file_world)
      (uc_show hyphenated (hs_uuid demo_host (w_uuids demo_file_world))) = None"
    by (simp add: file_content_def demo_file_world_def)
  obtain res w' where run: "builder_enqueue demo_host demo_client (demo_job 2) demo_file_world = (res, w')"
    by fastforce
  then have res: "res = Inr (nj_id (demo_job 2))" using demo_client_enqueues unfolding id by simp
  from client_enqueue_outcome [OF inv hyphenated_ok quiet C pc plain new blob run, of 5] res run
  show ?thesis unfolding id pay by blast
qed

end
