(* ===== verification/Workflow.thy ===== *)
theory Workflow
  imports Client
begin

text \<open>
  Workflows, \<^verbatim>\<open>worklane/src/workflow.rs\<close> and the fan-in entry points of \<^verbatim>\<open>client.rs\<close>: idempotent
  continuations, the submission of a fan-in, and the watcher that polls its dependencies.  Two
  libraries are parameters: \<open>lengkap\<close>, the crate that decides from located findings whether a fixed
  set of slots is complete, and \<open>fan_in_json\<close>, the JSON encodings.  The laws \<open>lengkap_ok\<close> are the
  documented behaviour of the former.  A run of the watcher first reads (\<open>watcher_decide\<close>) and
  then performs its one effect (\<open>watcher_act\<close>).
\<close>

section \<open>Continuations\<close>

definition build_continuation ::
  "host \<Rightarrow> ('s, 'r, 'p) client \<Rightarrow> ('a \<Rightarrow> string + bytes) \<Rightarrow> string \<Rightarrow> job_context \<Rightarrow> 'a \<Rightarrow>
   ('s, 'r, 'p, 'g) world \<Rightarrow> new_job result \<times> ('s, 'r, 'p, 'g) world" where
  "build_continuation H C to_vec kind ctx payload w =
     (let key = hs_show H (Lit ''sequence:'' # job_id_msg (ctx_id ctx) @ [Lit '':'', Lit kind]) in
      case build_job H C to_vec kind payload w of
        (Inl e, w1) \<Rightarrow> (Inl e, w1)
      | (Inr j, w1) \<Rightarrow> (Inr (builder_with_unique_key key (builder_with_lane (ctx_lane ctx) j)), w1))"

definition build_continuation_keyed ::
  "host \<Rightarrow> ('s, 'r, 'p) client \<Rightarrow> ('a \<Rightarrow> string + bytes) \<Rightarrow> string \<Rightarrow> string \<Rightarrow> 'a \<Rightarrow>
   ('s, 'r, 'p, 'g) world \<Rightarrow> new_job result \<times> ('s, 'r, 'p, 'g) world" where
  "build_continuation_keyed H C to_vec kind key payload w =
     (case build_job H C to_vec kind payload w of
        (Inl e, w1) \<Rightarrow> (Inl e, w1)
      | (Inr j, w1) \<Rightarrow> (Inr (builder_with_unique_key key j), w1))"

section \<open>The watcher's payload\<close>

record fan_in_policy =
  fp_poll_delay_secs :: u64
  fp_max_generations :: u32

definition default_fan_in_policy :: fan_in_policy where
  "default_fan_in_policy = \<lparr> fp_poll_delay_secs = 10, fp_max_generations = 8640 \<rparr>"

record fan_in_watcher_payload =
  fw_fanin_id :: string
  fw_dependencies :: "job_id list"
  fw_generation :: u32
  fw_poll_delay_secs :: u64
  fw_max_generations :: u32
  fw_collected :: "(job_id \<times> bytes) list"
  fw_callback_lane :: string
  fw_callback_kind :: string
  fw_callback_payload :: bytes
  fw_callback_max_attempts :: u32
  fw_callback_priority :: u8

definition fan_in_watcher_payload_new ::
  "string \<Rightarrow> job_id list \<Rightarrow> string \<Rightarrow> string \<Rightarrow> bytes \<Rightarrow> u32 \<Rightarrow> u8 \<Rightarrow> u64 \<Rightarrow> u32 \<Rightarrow> fan_in_watcher_payload result" where
  "fan_in_watcher_payload_new fid deps cb_lane cb_kind cb_payload cb_max cb_prio delay max_gen =
     (if deps = [] then Inl (Broker [Lit ''a fan-in must have at least one dependency''])
      else if max_gen = 0 then
        Inl (Broker [Lit ''a fan-in watcher needs at least one generation (max_generations >= 1)''])
      else Inr \<lparr> fw_fanin_id = fid, fw_dependencies = deps, fw_generation = 1, fw_poll_delay_secs = delay,
        fw_max_generations = max_gen, fw_collected = [], fw_callback_lane = cb_lane, fw_callback_kind = cb_kind,
        fw_callback_payload = cb_payload, fw_callback_max_attempts = cb_max, fw_callback_priority = cb_prio \<rparr>)"

text \<open>The two scans of \<^verbatim>\<open>validate\<close> with their hash sets; the result is the offending id.\<close>

fun duplicate_dependency :: "job_id set \<Rightarrow> job_id list \<Rightarrow> job_id option" where
  "duplicate_dependency seen [] = None"
| "duplicate_dependency seen (d # ds) = (if d \<in> seen then Some d else duplicate_dependency (insert d seen) ds)"

fun captured_fault :: "job_id set \<Rightarrow> job_id set \<Rightarrow> (job_id \<times> bytes) list \<Rightarrow> message option" where
  "captured_fault deps seen [] = None"
| "captured_fault deps seen ((d, b) # cs) =
     (if d \<notin> deps then Some (Lit ''captured unknown dependency '' # job_id_msg d)
      else if d \<in> seen then Some (Lit ''duplicate captured dependency '' # job_id_msg d)
      else captured_fault deps (insert d seen) cs)"

definition malformed :: "fan_in_watcher_payload \<Rightarrow> message \<Rightarrow> message" where
  "malformed p m = [Lit ''fan-in watcher payload for '', Lit (fw_fanin_id p), Lit '' is malformed: ''] @ m"

definition watcher_validate :: "fan_in_watcher_payload \<Rightarrow> message + unit" where
  "watcher_validate p =
     (if fw_fanin_id p = [] then Inl [Lit ''fan-in watcher payload is malformed: fanin_id is empty'']
      else if fw_dependencies p = [] then Inl (malformed p [Lit ''no dependencies''])
      else if fw_generation p = 0 then Inl (malformed p [Lit ''generation must be positive''])
      else if fw_max_generations p = 0 \<or> fw_max_generations p < fw_generation p then
        Inl (malformed p [Lit ''generation '', FNat (unat (fw_generation p)), Lit '' exceeds max '',
          FNat (unat (fw_max_generations p))])
      else if fw_callback_kind p = [] then Inl (malformed p [Lit ''callback kind is empty''])
      else case validated (fw_callback_lane p) of
        Inl err \<Rightarrow> Inl (malformed p (Lit ''invalid callback lane: '' # display_lane_error err))
      | Inr l \<Rightarrow>
          (case duplicate_dependency {} (fw_dependencies p) of
             Some d \<Rightarrow> Inl (malformed p (Lit ''duplicate dependency '' # job_id_msg d))
           | None \<Rightarrow>
               (case captured_fault (set (fw_dependencies p)) {} (fw_collected p) of
                  Some m \<Rightarrow> Inl (malformed p m)
                | None \<Rightarrow> Inr ())))"

section \<open>Assemblies\<close>

datatype fan_in_impossible = DeadLetteredDep job_id | MissingResult job_id

datatype finding = Produced bytes | Impossible fan_in_impossible

datatype 'a lk_decision = LkPending 'a | LkReady "bytes list" | LkImpossible fan_in_impossible

record 'a lengkap =
  lk_from_slots :: "bytes option list \<Rightarrow> 'a"
  lk_into_slots :: "'a \<Rightarrow> bytes option list"
  lk_unresolved_slots :: "'a \<Rightarrow> nat list"
  lk_adjudicate :: "'a \<Rightarrow> (nat \<times> finding) list \<Rightarrow> string + 'a lk_decision"

fun restore_slots :: "job_id list \<Rightarrow> (job_id \<times> bytes) list \<Rightarrow> bytes option list \<Rightarrow> bytes option list result" where
  "restore_slots deps [] slots = Inr slots"
| "restore_slots deps ((d, b) # cs) slots =
     (case position (\<lambda>c. c = d) deps of
        None \<Rightarrow> Inl (Broker (Lit ''fan-in checkpoint contains unknown dependency '' # job_id_msg d))
      | Some i \<Rightarrow>
          if slots ! i \<noteq> None then Inl (Broker (Lit ''fan-in checkpoint repeats dependency '' # job_id_msg d))
          else restore_slots deps cs (slots[i := Some b]))"

definition restore_fan_in_assembly :: "'a lengkap \<Rightarrow> job_id list \<Rightarrow> (job_id \<times> bytes) list \<Rightarrow> 'a result" where
  "restore_fan_in_assembly L deps collected =
     (case restore_slots deps collected (replicate (length deps) None) of
        Inl e \<Rightarrow> Inl e
      | Inr slots \<Rightarrow> Inr (lk_from_slots L slots))"

text \<open>The slots a crate hands back are indexed by dependency position; \<open>None\<close> is the panic of an
  index out of bounds.\<close>

fun checkpoint_previous ::
  "job_id list \<Rightarrow> (job_id \<times> bytes) list \<Rightarrow> bytes option list \<Rightarrow>
   ((job_id \<times> bytes) list \<times> bytes option list) result option" where
  "checkpoint_previous deps [] slots = Some (Inr ([], slots))"
| "checkpoint_previous deps ((d, b0) # ps) slots =
     (case position (\<lambda>c. c = d) deps of
        None \<Rightarrow> Some (Inl (Broker (Lit ''fan-in checkpoint contains unknown dependency '' # job_id_msg d)))
      | Some i \<Rightarrow>
          if length slots \<le> i then None
          else (case slots ! i of
                  None \<Rightarrow> Some (Inl (Broker (Lit ''fan-in checkpoint lost previously captured dependency '' # job_id_msg d)))
                | Some b \<Rightarrow>
                    (case checkpoint_previous deps ps (slots[i := None]) of
                       None \<Rightarrow> None
                     | Some (Inl e) \<Rightarrow> Some (Inl e)
                     | Some (Inr (cp, rest)) \<Rightarrow> Some (Inr ((d, b) # cp, rest)))))"

definition checkpoint_fan_in_assembly ::
  "'a lengkap \<Rightarrow> job_id list \<Rightarrow> (job_id \<times> bytes) list \<Rightarrow> 'a \<Rightarrow> (job_id \<times> bytes) list result option" where
  "checkpoint_fan_in_assembly L deps previous assembly =
     (case checkpoint_previous deps previous (lk_into_slots L assembly) of
        None \<Rightarrow> None
      | Some (Inl e) \<Rightarrow> Some (Inl e)
      | Some (Inr (cp, slots)) \<Rightarrow>
          Some (Inr (cp @ List.map_filter (\<lambda>(d, v). map_option (Pair d) v) (zip deps slots))))"

section \<open>The JSON encodings\<close>

record 'v fan_in_json =
  fj_value :: "bytes \<Rightarrow> string + 'v"
  fj_results :: "'v \<Rightarrow> bytes list \<Rightarrow> string + bytes"
  fj_watcher :: "fan_in_watcher_payload \<Rightarrow> string + bytes"

definition fan_in_results_payload :: "'v fan_in_json \<Rightarrow> bytes \<Rightarrow> bytes list \<Rightarrow> bytes result" where
  "fan_in_results_payload J callback_payload results =
     (case fj_value J callback_payload of
        Inl e \<Rightarrow> Inl (Serialization [Lit e])
      | Inr context \<Rightarrow> map_err (\<lambda>e. Serialization [Lit e]) (fj_results J context results))"

definition WATCHER_KIND :: string where
  "WATCHER_KIND = ''worklane:fan_in_watcher''"

section \<open>A run of the watcher\<close>

text \<open>The evidence for the unresolved slots, in slot order; the scan stops at the first dependency
  that can never be aggregated.\<close>

datatype 'x step = Go 'x | Stop string | Crash panic_payload

fun gather_findings ::
  "host \<Rightarrow> ('s, 'r, 'p) client \<Rightarrow> 'r result_store \<Rightarrow> job_id list \<Rightarrow> nat list \<Rightarrow> ('s, 'r, 'p, 'g) world \<Rightarrow>
   (nat \<times> finding) list step" where
  "gather_findings H C R deps [] w = Go []"
| "gather_findings H C R deps (slot # slots) w =
     (if length deps \<le> slot then
        Crash (PanicString (hs_show H [Lit ''index out of bounds: the len is '', FNat (length deps),
          Lit '' but the index is '', FNat slot]))
      else
        (let d = deps ! slot in
         case bk_classify (cl_broker C) d (w_broker w) of
           Inl e \<Rightarrow> Stop (hs_show H (display_error e))
         | Inr DeadLettered \<Rightarrow> Go [(slot, Impossible (DeadLetteredDep d))]
         | Inr Live \<Rightarrow> gather_findings H C R deps slots w
         | Inr CompletedOrUnknown \<Rightarrow>
             (case rs_get R d (w_results w) of
                Inl e \<Rightarrow> Stop (hs_show H (display_error e))
              | Inr None \<Rightarrow> Go [(slot, Impossible (MissingResult d))]
              | Inr (Some b) \<Rightarrow>
                  (case gather_findings H C R deps slots w of
                     Go fs \<Rightarrow> Go ((slot, Produced b) # fs)
                   | Stop e \<Rightarrow> Stop e
                   | Crash p \<Rightarrow> Crash p))))"

datatype watcher_step =
    Reschedule fan_in_watcher_payload
  | Fire "bytes list"
  | Fail message
  | FailText string
  | Die panic_payload

definition next_generation ::
  "'a lengkap \<Rightarrow> fan_in_watcher_payload \<Rightarrow> 'a \<Rightarrow> watcher_step" where
  "next_generation L p assembly =
     (if fw_max_generations p \<le> fw_generation p then
        Fail [Lit ''Fan-in '', Lit (fw_fanin_id p), Lit '' exceeded max generations ('',
          FNat (unat (fw_max_generations p)), Lit '')'']
      else
        (case checkpoint_fan_in_assembly L (fw_dependencies p) (fw_collected p) assembly of
           None \<Rightarrow> Die (PanicString ''index out of bounds'')
         | Some (Inl e) \<Rightarrow> Fail (display_error e)
         | Some (Inr cp) \<Rightarrow>
             Reschedule (p\<lparr> fw_generation := u32_saturating_add (fw_generation p) 1, fw_collected := cp \<rparr>)))"

fun impossible_message :: "fan_in_watcher_payload \<Rightarrow> fan_in_impossible \<Rightarrow> message" where
  "impossible_message p (DeadLetteredDep d) =
     [Lit ''Fan-in '', Lit (fw_fanin_id p), Lit '' cannot complete: dependency ''] @ job_id_msg d @
     [Lit '' was dead-lettered'']"
| "impossible_message p (MissingResult d) =
     [Lit ''Fan-in '', Lit (fw_fanin_id p), Lit '' cannot aggregate: dependency ''] @ job_id_msg d @
     [Lit '' completed but its result was evicted before capture (increase the result TTL)'']"

definition watcher_decide ::
  "host \<Rightarrow> 'a lengkap \<Rightarrow> ('s, 'r, 'p) client \<Rightarrow> 'r result_store \<Rightarrow> fan_in_watcher_payload \<Rightarrow>
   ('s, 'r, 'p, 'g) world \<Rightarrow> watcher_step" where
  "watcher_decide H L C R p w =
     (case watcher_validate p of
        Inl m \<Rightarrow> Fail m
      | Inr u \<Rightarrow>
          (case restore_fan_in_assembly L (fw_dependencies p) (fw_collected p) of
             Inl e \<Rightarrow> Fail (display_error e)
           | Inr assembly \<Rightarrow>
               (case gather_findings H C R (fw_dependencies p) (lk_unresolved_slots L assembly) w of
                  Stop e \<Rightarrow> FailText e
                | Crash x \<Rightarrow> Die x
                | Go findings \<Rightarrow>
                    (case lk_adjudicate L assembly findings of
                       Inl err \<Rightarrow> Fail [Lit ''fan-in '', Lit (fw_fanin_id p),
                         Lit '' internal adjudication inconsistency: '', Lit err]
                     | Inr (LkPending assembly') \<Rightarrow> next_generation L p assembly'
                     | Inr (LkImpossible cause) \<Rightarrow> Fail (impossible_message p cause)
                     | Inr (LkReady results) \<Rightarrow>
                         if length results \<noteq> length (fw_dependencies p) then
                           Fail [Lit ''fan-in '', Lit (fw_fanin_id p), Lit '' internal inconsistency: ready result count '',
                             FNat (length results), Lit '' differs from dependency count '',
                             FNat (length (fw_dependencies p))]
                         else Fire results))))"

definition fire_callback ::
  "host \<Rightarrow> 'v fan_in_json \<Rightarrow> ('s, 'r, 'p) client \<Rightarrow> fan_in_watcher_payload \<Rightarrow> bytes list \<Rightarrow>
   ('s, 'r, 'p, 'g) world \<Rightarrow> unit job_run \<times> ('s, 'r, 'p, 'g) world" where
  "fire_callback H J C p results w =
     (let err = (\<lambda>e. JobErr (hs_show H (display_error e))) in
      case fan_in_results_payload J (fw_callback_payload p) results of
        Inl e \<Rightarrow> (err e, w)
      | Inr bytes \<Rightarrow>
          (case validated (fw_callback_lane p) of
             Inl le \<Rightarrow> (JobErr (hs_show H (display_lane_error le)), w)
           | Inr l \<Rightarrow>
               (case check_lane C l of
                  Inl e \<Rightarrow> (err e, w)
                | Inr u \<Rightarrow>
                    (case maybe_offload H C bytes w of
                       (Inl e, w1) \<Rightarrow> (err e, w1)
                     | (Inr stored, w1) \<Rightarrow>
                         (let (i, w2) = fresh_uuid H w1;
                              job = with_priority (fw_callback_priority p)
                                (with_unique_key (hs_show H [Lit ''fanin:'', Lit (fw_fanin_id p), Lit '':callback''])
                                  (new_job_new (JobId i) l (fw_callback_kind p) stored (fw_callback_max_attempts p)))
                          in case client_enqueue_batch C [job] w2 of
                               (Inl e, w3) \<Rightarrow> (err e, cleanup_offload C stored w3)
                             | (Inr ids, w3) \<Rightarrow> (JobOk (), w3))))))"

definition watcher_act ::
  "host \<Rightarrow> 'v fan_in_json \<Rightarrow> ('s, 'r, 'p) client \<Rightarrow> lane \<Rightarrow> fan_in_watcher_payload \<Rightarrow> watcher_step \<Rightarrow>
   ('s, 'r, 'p, 'g) world \<Rightarrow> unit job_run \<times> ('s, 'r, 'p, 'g) world" where
  "watcher_act H J C l p st w =
     (case st of
        Fail m \<Rightarrow> (JobErr (hs_show H m), w)
      | FailText s \<Rightarrow> (JobErr s, w)
      | Die x \<Rightarrow> (JobPanic x, w)
      | Fire results \<Rightarrow> fire_callback H J C p results w
      | Reschedule p' \<Rightarrow>
          (let key = hs_show H [Lit ''fiw:'', Lit (fw_fanin_id p), Lit '':'', FNat (unat (fw_generation p'))] in
           case enqueue_inner H C (fj_watcher J) WATCHER_KIND l (from_secs (unat (fw_poll_delay_secs p))) (Some key) p' w of
             (Inl e, w1) \<Rightarrow> (JobErr (hs_show H (display_error e)), w1)
           | (Inr i, w1) \<Rightarrow> (JobOk (), w1)))"

definition watcher_run ::
  "host \<Rightarrow> 'a lengkap \<Rightarrow> 'v fan_in_json \<Rightarrow> ('s, 'r, 'p) client \<Rightarrow> 'r result_store \<Rightarrow> job_context \<Rightarrow>
   fan_in_watcher_payload \<Rightarrow> ('s, 'r, 'p, 'g) world \<Rightarrow> unit job_run \<times> ('s, 'r, 'p, 'g) world" where
  "watcher_run H L J C R ctx p w = watcher_act H J C (ctx_lane ctx) p (watcher_decide H L C R p w) w"

section \<open>Submitting a fan-in\<close>

fun collect_dependencies :: "job_id set \<Rightarrow> new_job list \<Rightarrow> new_job list result" where
  "collect_dependencies seen [] = Inr []"
| "collect_dependencies seen (j # js) =
     (if nj_unique_key j \<noteq> None then
        Inl (Broker [Lit (''a fan-in dependency must not set a unique_key: the atomic batch '' @
          ''enqueue could deduplicate the member away, leaving the watcher '' @
          ''with a dependency id that was never persisted'')])
      else if nj_id j \<in> seen then
        Inl (Broker (Lit ''a fan-in dependency id appears more than once: '' # job_id_msg (nj_id j)))
      else (case collect_dependencies (insert (nj_id j) seen) js of
              Inl e \<Rightarrow> Inl e | Inr ds \<Rightarrow> Inr (j # ds)))"

text \<open>The end of \<^verbatim>\<open>fan_in_with_policy\<close>, from the lane checks on: the whole topology is one batch.\<close>

definition submit_fan_in ::
  "host \<Rightarrow> ('s, 'r, 'p) client \<Rightarrow> new_job list \<Rightarrow> ('s, 'r, 'p, 'g) world \<Rightarrow> unit result \<times> ('s, 'r, 'p, 'g) world" where
  "submit_fan_in H C batch w =
     (case check_lanes C batch of
        Inl e \<Rightarrow> (Inl e, w)
      | Inr u \<Rightarrow>
          (case offload_all H C batch w of
             (Inl e, w1) \<Rightarrow> (Inl e, w1)
           | (Inr batch', w1) \<Rightarrow>
               (case client_enqueue_batch C batch' w1 of
                  (Inl e, w2) \<Rightarrow> (Inl e, cleanup_offloads C (map (\<lambda>j. nj_payload j) batch') w2)
                | (Inr ids, w2) \<Rightarrow> (Inr (), w2))))"

definition fan_in_with_policy ::
  "host \<Rightarrow> 'v fan_in_json \<Rightarrow> ('s, 'r, 'p) client \<Rightarrow> ('c \<Rightarrow> string + bytes) \<Rightarrow> string \<Rightarrow> string \<Rightarrow> new_job list \<Rightarrow> 'c \<Rightarrow>
   fan_in_policy \<Rightarrow> ('s, 'r, 'p, 'g) world \<Rightarrow> unit result \<times> ('s, 'r, 'p, 'g) world" where
  "fan_in_with_policy H J C ctx_to_vec cb_kind fid dependencies context policy w =
     (if fp_poll_delay_secs policy = 0 then
        (Inl (Broker [Lit (''FanInPolicy.poll_delay_secs must be >= 1; a zero delay would re-poll '' @
           ''with no wait between generations'')]), w)
      else case collect_dependencies {} dependencies of
        Inl e \<Rightarrow> (Inl e, w)
      | Inr deps \<Rightarrow>
         (case to_payload ctx_to_vec context of
            Inl e \<Rightarrow> (Inl e, w)
          | Inr ctx_bytes \<Rightarrow>
             (case fan_in_watcher_payload_new fid (map (\<lambda>j. nj_id j) deps) (lane_str (cl_lane C)) cb_kind ctx_bytes
                (cl_default_max_attempts C) (cl_priority C) (fp_poll_delay_secs policy) (fp_max_generations policy) of
                Inl e \<Rightarrow> (Inl e, w)
              | Inr watcher_payload \<Rightarrow>
                 (case build_job H C (fj_watcher J) WATCHER_KIND watcher_payload w of
                    (Inl e, w1) \<Rightarrow> (Inl e, w1)
                  | (Inr watcher_job, w1) \<Rightarrow> submit_fan_in H C (deps @ [watcher_job]) w1))))"

definition fan_in ::
  "host \<Rightarrow> 'v fan_in_json \<Rightarrow> ('s, 'r, 'p) client \<Rightarrow> ('c \<Rightarrow> string + bytes) \<Rightarrow> string \<Rightarrow> string \<Rightarrow> new_job list \<Rightarrow> 'c \<Rightarrow>
   ('s, 'r, 'p, 'g) world \<Rightarrow> unit result \<times> ('s, 'r, 'p, 'g) world" where
  "fan_in H J C ctx_to_vec cb_kind fid dependencies context =
     fan_in_with_policy H J C ctx_to_vec cb_kind fid dependencies context default_fan_in_policy"

end
