(* ===== verification/Workflow_Laws.thy ===== *)
theory Workflow_Laws
  imports Workflow
begin

text \<open>
  What the fan-in watcher decides.  The specification \<open>fan_in_verdict\<close> reads the dependencies in
  order and says whether the fan-in fires, waits or fails; the watcher, which restores an assembly
  from its checkpoint, gathers findings slot by slot and lets the crate adjudicate, takes the same
  decision.  The checkpoint and its restoration are inverse to each other, and the generations of
  one fan-in are bounded.
\<close>

section \<open>What the crate promises\<close>

fun is_impossible :: "nat \<times> finding \<Rightarrow> bool" where
  "is_impossible (i, Impossible c) = True"
| "is_impossible (i, Produced b) = False"

fun apply_findings :: "bytes option list \<Rightarrow> (nat \<times> finding) list \<Rightarrow> bytes option list" where
  "apply_findings s [] = s"
| "apply_findings s ((i, Produced b) # fs) = apply_findings (s[i := Some b]) fs"
| "apply_findings s ((i, Impossible c) # fs) = apply_findings s fs"

definition adjudication ::
  "(bytes option list \<Rightarrow> 'a) \<Rightarrow> bytes option list \<Rightarrow> (nat \<times> finding) list \<Rightarrow> 'a lk_decision" where
  "adjudication from_slots s fs =
     (case List.find is_impossible fs of
        Some (i, Impossible c) \<Rightarrow> LkImpossible c
      | _ \<Rightarrow> (let s' = apply_findings s fs in
               if None \<in> set s' then LkPending (from_slots s') else LkReady (map the s')))"

text \<open>An assembly is its slots.  Findings for distinct unresolved slots, at most one of them an
  impossibility, are decided: impossible, or ready with the values in slot order once every slot is
  filled, or pending with the values filled in.\<close>

definition lengkap_ok :: "'a lengkap \<Rightarrow> bool" where
  "lengkap_ok L \<longleftrightarrow>
     (\<forall>s. lk_into_slots L (lk_from_slots L s) = s) \<and>
     (\<forall>s. lk_unresolved_slots L (lk_from_slots L s) = filter (\<lambda>i. s ! i = None) [0..<length s]) \<and>
     (\<forall>s fs. distinct (map fst fs) \<and> (\<forall>f\<in>set fs. fst f < length s \<and> s ! fst f = None) \<and>
        length (filter is_impossible fs) \<le> 1 \<longrightarrow>
        lk_adjudicate L (lk_from_slots L s) fs = Inr (adjudication (lk_from_slots L) s fs))"

definition slots_lengkap :: "bytes option list lengkap" where
  "slots_lengkap =
     \<lparr> lk_from_slots = (\<lambda>s. s), lk_into_slots = (\<lambda>s. s),
       lk_unresolved_slots = (\<lambda>s. filter (\<lambda>i. s ! i = None) [0..<length s]),
       lk_adjudicate = (\<lambda>s fs. Inr (adjudication (\<lambda>s. s) s fs)) \<rparr>"

lemma slots_lengkap_ok: "lengkap_ok slots_lengkap"
  by (simp add: lengkap_ok_def slots_lengkap_def)

section \<open>Positions and scans\<close>

lemma position_obtain:
  assumes "x \<in> set xs"
  obtains i where "position (\<lambda>c. c = x) xs = Some i" "i < length xs" "xs ! i = x"
proof (cases "position (\<lambda>c. c = x) xs")
  case None
  with assms show ?thesis by (auto simp: position_None_iff)
next
  case (Some i)
  then show ?thesis by (intro that [of i]) (simp_all add: position_Some_iff)
qed

lemma duplicate_dependency_None:
  "duplicate_dependency seen ds = None \<longleftrightarrow> distinct ds \<and> set ds \<inter> seen = {}"
  by (induction ds arbitrary: seen) auto

lemma captured_fault_None:
  "captured_fault deps seen cs = None \<longleftrightarrow>
     fst ` set cs \<subseteq> deps \<and> distinct (map fst cs) \<and> fst ` set cs \<inter> seen = {}"
  by (induction deps seen cs rule: captured_fault.induct) auto

lemma watcher_validate_ok:
  "watcher_validate p = Inr () \<longleftrightarrow>
     fw_fanin_id p \<noteq> [] \<and> fw_dependencies p \<noteq> [] \<and> fw_generation p \<noteq> 0 \<and>
     fw_generation p \<le> fw_max_generations p \<and> fw_callback_kind p \<noteq> [] \<and> is_ok (validated (fw_callback_lane p)) \<and>
     distinct (fw_dependencies p) \<and> fst ` set (fw_collected p) \<subseteq> set (fw_dependencies p) \<and>
     distinct (map fst (fw_collected p))"
proof -
  have gen: "\<not> (fw_max_generations p = 0 \<or> fw_max_generations p < fw_generation p) \<longleftrightarrow>
      fw_generation p \<le> fw_max_generations p" if "fw_generation p \<noteq> 0"
    using that by (auto simp: not_less word_le_0_iff)
  show ?thesis
    using duplicate_dependency_None [of "{}" "fw_dependencies p"]
      captured_fault_None [of "set (fw_dependencies p)" "{}" "fw_collected p"] gen
    by (cases "fw_generation p = 0")
      (auto simp: watcher_validate_def is_ok_iff split: sum.split option.split)
qed

section \<open>Slots as a map of dependencies\<close>

lemma map_upd_slot:
  assumes "distinct deps" and "i < length deps" and "deps ! i = d"
  shows "(map m deps)[i := x] = map (m(d := x)) deps"
  using assms by (auto intro!: nth_equalityI simp: nth_list_update nth_eq_iff_index_eq)

lemma restore_slots_map:
  assumes "distinct deps" and "fst ` set cs \<subseteq> set deps" and "distinct (map fst cs)"
    and "\<forall>d\<in>fst ` set cs. m d = None"
  shows "restore_slots deps cs (map m deps) = Inr (map (m ++ map_of cs) deps)"
  using assms(2-)
proof (induction cs arbitrary: m)
  case Nil
  then show ?case by simp
next
  case (Cons c cs)
  obtain d b where c: "c = (d, b)" by fastforce
  from Cons.prems(1) c have "d \<in> set deps" by auto
  then obtain i where i: "position (\<lambda>c. c = d) deps = Some i" "i < length deps" "deps ! i = d"
    by (rule position_obtain)
  have ih: "restore_slots deps cs (map (m(d \<mapsto> b)) deps) = Inr (map (m(d \<mapsto> b) ++ map_of cs) deps)"
    using Cons.prems c by (intro Cons.IH) (auto simp: image_iff)
  have eq: "m(d \<mapsto> b) ++ map_of cs = m ++ map_of (c # cs)"
  proof
    fix x
    have "map_of cs d = None" using Cons.prems(2) c by (auto simp: map_of_eq_None_iff)
    then show "(m(d \<mapsto> b) ++ map_of cs) x = (m ++ map_of (c # cs)) x"
      using c by (auto simp: map_add_def split: option.split)
  qed
  have "map m deps ! i = None" using Cons.prems(3) c i by simp
  then have "restore_slots deps (c # cs) (map m deps) = restore_slots deps cs (map (m(d \<mapsto> b)) deps)"
    using i map_upd_slot [OF assms(1) i(2,3), of m "Some b"] c by simp
  then show ?case by (simp only: ih eq)
qed

lemma restore_assembly:
  assumes "distinct deps" and "fst ` set cs \<subseteq> set deps" and "distinct (map fst cs)"
  shows "restore_fan_in_assembly L deps cs = Inr (lk_from_slots L (map (map_of cs) deps))"
proof -
  have "replicate (length deps) None = map (\<lambda>d. None :: bytes option) deps"
    by (simp add: map_replicate_const)
  with restore_slots_map [OF assms, of "\<lambda>d. None"] show ?thesis
    by (simp add: restore_fan_in_assembly_def map_add_def split: option.split)
qed

lemma checkpoint_previous_map:
  assumes "distinct deps" and "fst ` set ps \<subseteq> set deps" and "distinct (map fst ps)"
    and "\<forall>d\<in>fst ` set ps. m d \<noteq> None"
  shows "checkpoint_previous deps ps (map m deps) =
    Some (Inr (map (\<lambda>c. (fst c, the (m (fst c)))) ps, map (m |` (- fst ` set ps)) deps))"
  using assms(2-)
proof (induction ps arbitrary: m)
  case Nil
  then show ?case by (simp add: restrict_map_def)
next
  case (Cons c ps)
  obtain d b0 where c: "c = (d, b0)" by fastforce
  from Cons.prems(1) c have "d \<in> set deps" by auto
  then obtain i where i: "position (\<lambda>c. c = d) deps = Some i" "i < length deps" "deps ! i = d"
    by (rule position_obtain)
  from Cons.prems(3) c obtain b where b: "m d = Some b" by auto
  have "checkpoint_previous deps ps (map (m(d := None)) deps) =
    Some (Inr (map (\<lambda>c. (fst c, the ((m(d := None)) (fst c)))) ps, map ((m(d := None)) |` (- fst ` set ps)) deps))"
    using Cons.prems c by (intro Cons.IH) (auto simp: image_iff)
  moreover have "map (\<lambda>c. (fst c, the ((m(d := None)) (fst c)))) ps = map (\<lambda>c. (fst c, the (m (fst c)))) ps"
    using Cons.prems(2) c by (auto simp: image_iff)
  moreover have "(m(d := None)) |` (- fst ` set ps) = m |` (- fst ` set (c # ps))"
    using c by (auto simp: restrict_map_def fun_eq_iff)
  ultimately show ?case
    using i b map_upd_slot [OF assms(1) i(2,3), of m None] c by simp
qed

text \<open>The values a checkpoint adds, in dependency order.\<close>

definition new_captures :: "job_id list \<Rightarrow> (job_id \<rightharpoonup> bytes) \<Rightarrow> (job_id \<rightharpoonup> bytes) \<Rightarrow> (job_id \<times> bytes) list" where
  "new_captures deps old m = map (\<lambda>d. (d, the (m d))) (filter (\<lambda>d. old d = None \<and> m d \<noteq> None) deps)"

lemma map_filter_zip_slots:
  "List.map_filter (\<lambda>(d, v). map_option (Pair d) v) (zip deps (map m deps)) =
     map (\<lambda>d. (d, the (m d))) (filter (\<lambda>d. m d \<noteq> None) deps)"
  by (induction deps) (auto simp: List.map_filter_simps split: option.split)

lemma checkpoint_assembly:
  assumes L: "lengkap_ok L" and deps: "distinct deps" "fst ` set ps \<subseteq> set deps" "distinct (map fst ps)"
    and ext: "map_of ps \<subseteq>\<^sub>m m"
  shows "checkpoint_fan_in_assembly L deps ps (lk_from_slots L (map m deps)) =
    Some (Inr (ps @ new_captures deps (map_of ps) m))"
proof -
  have m: "m (fst c) = Some (snd c)" if "c \<in> set ps" for c
    using that ext deps(3) by (metis map_le_def domI map_of_is_SomeI prod.collapse)
  then have "\<forall>d\<in>fst ` set ps. m d \<noteq> None" by auto
  note prev = checkpoint_previous_map [OF deps this]
  have "map (\<lambda>c. (fst c, the (m (fst c)))) ps = ps"
    using m by (auto intro!: map_idI)
  moreover have "filter (\<lambda>d. (m |` (- fst ` set ps)) d \<noteq> None) deps = filter (\<lambda>d. map_of ps d = None \<and> m d \<noteq> None) deps"
    by (intro filter_cong) (auto simp: restrict_map_def map_of_eq_None_iff)
  moreover have "map (\<lambda>d. (d, the ((m |` (- fst ` set ps)) d))) (filter (\<lambda>d. map_of ps d = None \<and> m d \<noteq> None) deps) =
      new_captures deps (map_of ps) m"
    unfolding new_captures_def by (intro map_cong) (auto simp: restrict_map_def map_of_eq_None_iff)
  ultimately show ?thesis
    using L prev by (simp add: checkpoint_fan_in_assembly_def lengkap_ok_def map_filter_zip_slots)
qed

lemma new_captures_keys: "fst ` set (new_captures deps old m) = {d \<in> set deps. old d = None \<and> m d \<noteq> None}"
  by (auto simp: new_captures_def image_iff)

lemma map_of_new_captures:
  "map_of (new_captures deps old m) d = (if d \<in> set deps \<and> old d = None then m d else None)"
  by (induction deps) (auto simp: new_captures_def)

lemma captures_extend:
  assumes deps: "distinct deps" "fst ` set ps \<subseteq> set deps" "distinct (map fst ps)"
    and ext: "map_of ps \<subseteq>\<^sub>m m"
  shows "fst ` set (ps @ new_captures deps (map_of ps) m) \<subseteq> set deps"
    and "distinct (map fst (ps @ new_captures deps (map_of ps) m))"
    and "map (map_of (ps @ new_captures deps (map_of ps) m)) deps = map m deps"
proof -
  show "fst ` set (ps @ new_captures deps (map_of ps) m) \<subseteq> set deps"
    using deps(2) new_captures_keys [of deps "map_of ps" m] by (auto simp: image_Un)
  have "map fst (new_captures deps (map_of ps) m) = filter (\<lambda>d. map_of ps d = None \<and> m d \<noteq> None) deps"
    by (simp add: new_captures_def comp_def)
  then show "distinct (map fst (ps @ new_captures deps (map_of ps) m))"
    using deps by (auto simp: map_of_eq_None_iff)
  show "map (map_of (ps @ new_captures deps (map_of ps) m)) deps = map m deps"
  proof (rule map_cong [OF refl])
    fix d assume "d \<in> set deps"
    then show "map_of (ps @ new_captures deps (map_of ps) m) d = m d"
      using ext by (cases "map_of ps d")
        (auto simp: map_of_append map_add_def map_of_new_captures map_le_def dom_def split: option.split)
  qed
qed

section \<open>The verdict on a fan-in\<close>

text \<open>What the stores say of a dependency that is not captured yet.\<close>

datatype evidence = Known bytes | Waiting | Lost fan_in_impossible | Unread error

definition dep_evidence ::
  "('s, 'r, 'p) client \<Rightarrow> 'r result_store \<Rightarrow> ('s, 'r, 'p, 'g) world \<Rightarrow> job_id \<Rightarrow> evidence" where
  "dep_evidence C R w d =
     (case bk_classify (cl_broker C) d (w_broker w) of
        Inl e \<Rightarrow> Unread e
      | Inr DeadLettered \<Rightarrow> Lost (DeadLetteredDep d)
      | Inr Live \<Rightarrow> Waiting
      | Inr CompletedOrUnknown \<Rightarrow>
          (case rs_get R d (w_results w) of
             Inl e \<Rightarrow> Unread e
           | Inr (Some b) \<Rightarrow> Known b
           | Inr None \<Rightarrow> Lost (MissingResult d)))"

fun known_value :: "evidence \<Rightarrow> bytes option" where
  "known_value (Known b) = Some b"
| "known_value _ = None"

fun stops :: "evidence \<Rightarrow> bool" where
  "stops (Known b) = False"
| "stops Waiting = False"
| "stops (Lost c) = True"
| "stops (Unread e) = True"

fun stop_step :: "host \<Rightarrow> fan_in_watcher_payload \<Rightarrow> evidence \<Rightarrow> watcher_step" where
  "stop_step H p (Unread e) = FailText (hs_show H (display_error e))"
| "stop_step H p (Lost c) = Fail (impossible_message p c)"
| "stop_step H p _ = Fail []"

definition dep_value ::
  "('s, 'r, 'p) client \<Rightarrow> 'r result_store \<Rightarrow> fan_in_watcher_payload \<Rightarrow> ('s, 'r, 'p, 'g) world \<Rightarrow> job_id \<rightharpoonup> bytes" where
  "dep_value C R p w d =
     (case map_of (fw_collected p) d of Some b \<Rightarrow> Some b | None \<Rightarrow> known_value (dep_evidence C R w d))"

text \<open>The first open dependency that is lost or cannot be read fails the run; otherwise the fan-in
  fires when every dependency has a value, and waits, if it may, with the new values captured.\<close>

definition fan_in_verdict ::
  "host \<Rightarrow> ('s, 'r, 'p) client \<Rightarrow> 'r result_store \<Rightarrow> fan_in_watcher_payload \<Rightarrow> ('s, 'r, 'p, 'g) world \<Rightarrow> watcher_step" where
  "fan_in_verdict H C R p w =
     (let deps = fw_dependencies p; old = map_of (fw_collected p); val = dep_value C R p w in
      case List.find (\<lambda>d. old d = None \<and> stops (dep_evidence C R w d)) deps of
        Some d \<Rightarrow> stop_step H p (dep_evidence C R w d)
      | None \<Rightarrow>
          if \<forall>d\<in>set deps. val d \<noteq> None then Fire (map (\<lambda>d. the (val d)) deps)
          else if fw_max_generations p \<le> fw_generation p then
            Fail [Lit ''Fan-in '', Lit (fw_fanin_id p), Lit '' exceeded max generations ('',
              FNat (unat (fw_max_generations p)), Lit '')'']
          else Reschedule (p\<lparr> fw_generation := u32_saturating_add (fw_generation p) 1,
                 fw_collected := fw_collected p @ new_captures deps old val \<rparr>))"

lemma gather_step:
  assumes "i < length deps"
  shows "gather_findings H C R deps (i # is) w =
    (case dep_evidence C R w (deps ! i) of
       Unread e \<Rightarrow> Stop (hs_show H (display_error e))
     | Lost c \<Rightarrow> Go [(i, Impossible c)]
     | Waiting \<Rightarrow> gather_findings H C R deps is w
     | Known b \<Rightarrow> (case gather_findings H C R deps is w of Go fs \<Rightarrow> Go ((i, Produced b) # fs) | x \<Rightarrow> x))"
  using assms by (auto simp: dep_evidence_def split: sum.split job_state.split option.split step.split)

definition produced :: "('s, 'r, 'p) client \<Rightarrow> 'r result_store \<Rightarrow> ('s, 'r, 'p, 'g) world \<Rightarrow> job_id list \<Rightarrow> nat list \<Rightarrow> (nat \<times> finding) list" where
  "produced C R w deps is =
     map (\<lambda>i. (i, Produced (the (known_value (dep_evidence C R w (deps ! i))))))
       (filter (\<lambda>i. known_value (dep_evidence C R w (deps ! i)) \<noteq> None) is)"

lemma find_SomeD: "List.find P xs = Some x \<Longrightarrow> x \<in> set xs \<and> P x"
  by (auto simp: find_Some_iff)

lemma gather_all:
  assumes "\<forall>i\<in>set is. i < length deps"
  shows "gather_findings H C R deps is w =
    (case List.find (\<lambda>i. stops (dep_evidence C R w (deps ! i))) is of
       None \<Rightarrow> Go (produced C R w deps is)
     | Some i \<Rightarrow>
         (case dep_evidence C R w (deps ! i) of
            Unread e \<Rightarrow> Stop (hs_show H (display_error e))
          | Lost c \<Rightarrow> Go (produced C R w deps (takeWhile (\<lambda>j. \<not> stops (dep_evidence C R w (deps ! j))) is) @
              [(i, Impossible c)])
          | _ \<Rightarrow> Go []))"
  using assms
proof (induction "is")
  case Nil
  then show ?case by (simp add: produced_def)
next
  case (Cons i "is")
  with gather_step [of i deps H C R "is" w] show ?case
    by (cases "dep_evidence C R w (deps ! i)") (auto simp: produced_def dest: find_SomeD split: option.split evidence.split)
qed

lemma length_apply_findings [simp]: "length (apply_findings s fs) = length s"
  by (induction s fs rule: apply_findings.induct) auto

lemma apply_findings_nth:
  assumes "distinct (map fst fs)" and "\<forall>f\<in>set fs. fst f < length s \<and> \<not> is_impossible f" and "i < length s"
  shows "apply_findings s fs ! i = (case map_of fs i of Some (Produced b) \<Rightarrow> Some b | _ \<Rightarrow> s ! i)"
  using assms
proof (induction s fs rule: apply_findings.induct)
  case (2 s j b fs)
  then have "apply_findings (s[j := Some b]) fs ! i =
      (case map_of fs i of Some (Produced b) \<Rightarrow> Some b | _ \<Rightarrow> s[j := Some b] ! i)"
    by auto
  moreover have "map_of fs j = None" using 2(2) by (auto simp: map_of_eq_None_iff)
  ultimately show ?case using 2(3,4) by (cases "i = j") (auto split: option.split finding.split)
qed auto

lemma find_filter: "List.find P (filter Q xs) = List.find (\<lambda>x. Q x \<and> P x) xs"
  by (induction xs) auto

lemma find_map: "List.find P (map f xs) = map_option f (List.find (P \<circ> f) xs)"
  by (induction xs) auto

lemma find_append: "List.find P (xs @ ys) = (case List.find P xs of None \<Rightarrow> List.find P ys | Some x \<Rightarrow> Some x)"
  by (induction xs) auto

lemma find_deps: "List.find P deps = map_option ((!) deps) (List.find (P \<circ> (!) deps) [0..<length deps])"
  using find_map [of P "(!) deps" "[0..<length deps]"] by (simp add: map_nth)

lemma find_None_produced: "List.find is_impossible (produced C R w deps is) = None"
  by (auto simp: produced_def find_None_iff)

lemma filter_produced: "filter is_impossible (produced C R w deps is) = []"
  by (auto simp: produced_def filter_empty_conv)

lemma produced_slots: "map fst (produced C R w deps is) = filter (\<lambda>i. known_value (dep_evidence C R w (deps ! i)) \<noteq> None) is"
  by (simp add: produced_def comp_def)

lemma map_of_produced:
  "map_of (produced C R w deps is) i =
     (if i \<in> set is then map_option Produced (known_value (dep_evidence C R w (deps ! i))) else None)"
  by (induction "is") (auto simp: produced_def)

text \<open>The values known after a scan that lost nothing.\<close>

lemma apply_produced:
  assumes is_def: "is = filter (\<lambda>i. map_of (fw_collected p) (deps ! i) = None) [0..<length deps]"
  shows "apply_findings (map (map_of (fw_collected p)) deps) (produced C R w deps is) = map (dep_value C R p w) deps"
proof (rule nth_equalityI)
  fix i assume "i < length (apply_findings (map (map_of (fw_collected p)) deps) (produced C R w deps is))"
  then have i: "i < length deps" by simp
  have d: "distinct (map fst (produced C R w deps is))" by (simp add: produced_slots is_def)
  have b: "\<forall>f\<in>set (produced C R w deps is). fst f < length (map (map_of (fw_collected p)) deps) \<and> \<not> is_impossible f"
    by (auto simp: produced_def is_def)
  show "apply_findings (map (map_of (fw_collected p)) deps) (produced C R w deps is) ! i = map (dep_value C R p w) deps ! i"
    using apply_findings_nth [OF d b, of i] i
    by (auto simp: map_of_produced is_def dep_value_def split: option.split)
qed simp

text \<open>What the crate answers to the findings of a scan.\<close>

lemma adjudicate_scan:
  assumes L: "lengkap_ok L"
    and is_def: "is = filter (\<lambda>i. map_of (fw_collected p) (deps ! i) = None) [0..<length deps]"
  shows "lk_adjudicate L (lk_from_slots L (map (map_of (fw_collected p)) deps)) (produced C R w deps is) =
      Inr (if None \<in> set (map (dep_value C R p w) deps) then LkPending (lk_from_slots L (map (dep_value C R p w) deps))
           else LkReady (map (the \<circ> dep_value C R p w) deps))"
    and "i \<in> set is \<Longrightarrow> dep_evidence C R w (deps ! i) = Lost c \<Longrightarrow>
      lk_adjudicate L (lk_from_slots L (map (map_of (fw_collected p)) deps))
        (produced C R w deps (takeWhile (\<lambda>j. \<not> stops (dep_evidence C R w (deps ! j))) is) @ [(i, Impossible c)]) =
      Inr (LkImpossible c)"
proof -
  let ?s = "map (map_of (fw_collected p)) deps"
  have law: "lk_adjudicate L (lk_from_slots L ?s) fs = Inr (adjudication (lk_from_slots L) ?s fs)"
    if "distinct (map fst fs)" "fst ` set fs \<subseteq> set is" "length (filter is_impossible fs) \<le> 1" for fs
  proof -
    have "\<forall>f\<in>set fs. fst f < length ?s \<and> ?s ! fst f = None"
      using that(2) by (auto simp: is_def)
    with L that(1,3) show ?thesis unfolding lengkap_ok_def by blast
  qed
  have sub: "fst ` set (produced C R w deps js) \<subseteq> set js" for js
    by (auto simp: produced_def)
  have "distinct (map fst (produced C R w deps is))" by (simp add: produced_slots is_def)
  from law [OF this sub] show "lk_adjudicate L (lk_from_slots L ?s) (produced C R w deps is) =
      Inr (if None \<in> set (map (dep_value C R p w) deps) then LkPending (lk_from_slots L (map (dep_value C R p w) deps))
           else LkReady (map (the \<circ> dep_value C R p w) deps))"
    by (simp add: adjudication_def find_None_produced filter_produced apply_produced [OF is_def] Let_def)
  assume i: "i \<in> set is" and c: "dep_evidence C R w (deps ! i) = Lost c"
  let ?js = "takeWhile (\<lambda>j. \<not> stops (dep_evidence C R w (deps ! j))) is"
  let ?fs = "produced C R w deps ?js @ [(i, Impossible c)]"
  have js: "set ?js \<subseteq> set is" "i \<notin> set ?js" "distinct ?js"
    using c by (auto dest: set_takeWhileD simp: is_def distinct_takeWhile)
  have "distinct (map fst ?fs)" using js by (simp add: produced_slots)
  moreover have "fst ` set ?fs \<subseteq> set is" using sub [of ?js] js i by auto
  moreover have "length (filter is_impossible ?fs) \<le> 1" by (simp add: filter_produced)
  moreover have "List.find is_impossible ?fs = Some (i, Impossible c)"
    using find_None_produced [of C R w deps ?js] by (auto simp: find_append)
  ultimately show "lk_adjudicate L (lk_from_slots L ?s) ?fs = Inr (LkImpossible c)"
    using law [of ?fs] by (simp add: adjudication_def)
qed

section \<open>The watcher takes the verdict\<close>

lemma dep_value_extends: "map_of (fw_collected p) \<subseteq>\<^sub>m dep_value C R p w"
  by (auto simp: map_le_def dep_value_def split: option.split)

lemma decide_verdict:
  assumes L: "lengkap_ok L" and valid: "watcher_validate p = Inr ()"
  shows "watcher_decide H L C R p w = fan_in_verdict H C R p w"
proof -
  let ?deps = "fw_dependencies p" and ?old = "map_of (fw_collected p)"
  let ?stops = "\<lambda>d. stops (dep_evidence C R w d)"
  define "is" where is_def: "is = filter (\<lambda>i. ?old (?deps ! i) = None) [0..<length ?deps]"
  from valid have ok: "distinct ?deps" "fst ` set (fw_collected p) \<subseteq> set ?deps" "distinct (map fst (fw_collected p))"
    by (simp_all add: watcher_validate_ok)
  note restore = restore_assembly [OF ok, of L]
  have unresolved: "lk_unresolved_slots L (lk_from_slots L (map ?old ?deps)) = is"
    using L by (auto simp: lengkap_ok_def is_def intro!: filter_cong)
  have "\<forall>i\<in>set is. i < length ?deps" by (simp add: is_def)
  note gather = gather_all [OF this, of H C R w]
  have find: "List.find (\<lambda>d. ?old d = None \<and> ?stops d) ?deps =
      map_option ((!) ?deps) (List.find (\<lambda>i. ?stops (?deps ! i)) is)"
    unfolding find_deps [of _ ?deps] is_def find_filter by (simp add: comp_def)
  show ?thesis
  proof (cases "List.find (\<lambda>i. ?stops (?deps ! i)) is")
    case None
    have next_gen: "next_generation L p (lk_from_slots L (map (dep_value C R p w) ?deps)) =
      (if fw_max_generations p \<le> fw_generation p then
         Fail [Lit ''Fan-in '', Lit (fw_fanin_id p), Lit '' exceeded max generations ('',
           FNat (unat (fw_max_generations p)), Lit '')'']
       else Reschedule (p\<lparr> fw_generation := u32_saturating_add (fw_generation p) 1,
         fw_collected := fw_collected p @ new_captures ?deps ?old (dep_value C R p w) \<rparr>))"
      using checkpoint_assembly [OF L ok dep_value_extends [of p C R w]] by (simp add: next_generation_def)
    have all: "None \<in> dep_value C R p w ` set ?deps \<longleftrightarrow> \<not> (\<forall>d\<in>set ?deps. dep_value C R p w d \<noteq> None)"
      by force
    show ?thesis
      using None gather adjudicate_scan(1) [OF L is_def, of C R w] find next_gen all
      by (simp add: watcher_decide_def fan_in_verdict_def valid restore unresolved Let_def comp_def)
  next
    case (Some i)
    then have i: "i \<in> set is" "?stops (?deps ! i)" using find_SomeD by fastforce+
    show ?thesis
    proof (cases "dep_evidence C R w (?deps ! i)")
      case (Lost c)
      then show ?thesis
        using Some gather adjudicate_scan(2) [OF L is_def i(1) Lost] find
        by (simp add: watcher_decide_def fan_in_verdict_def valid restore unresolved Let_def)
    next
      case (Unread e)
      then show ?thesis
        using Some gather find by (simp add: watcher_decide_def fan_in_verdict_def valid restore unresolved Let_def)
    qed (use i in simp_all)
  qed
qed

section \<open>Generations\<close>

lemma verdict_reschedules:
  assumes valid: "watcher_validate p = Inr ()" and v: "fan_in_verdict H C R p w = Reschedule p'"
  shows "watcher_validate p' = Inr ()" and "unat (fw_generation p') = Suc (unat (fw_generation p))"
    and "fw_max_generations p' = fw_max_generations p" and "fw_dependencies p' = fw_dependencies p"
    and "map (map_of (fw_collected p')) (fw_dependencies p) = map (dep_value C R p w) (fw_dependencies p)"
    and "\<exists>new. fw_collected p' = fw_collected p @ new"
proof -
  let ?deps = "fw_dependencies p" and ?old = "map_of (fw_collected p)"
  from valid have ok: "distinct ?deps" "fst ` set (fw_collected p) \<subseteq> set ?deps" "distinct (map fst (fw_collected p))"
    by (simp_all add: watcher_validate_ok)
  from v have gen: "fw_generation p < fw_max_generations p"
    and p': "p' = p\<lparr> fw_generation := u32_saturating_add (fw_generation p) 1,
      fw_collected := fw_collected p @ new_captures ?deps ?old (dep_value C R p w) \<rparr>"
    by (auto simp: fan_in_verdict_def Let_def not_le elim!: stop_step.elims split: option.splits if_splits)
  have sat: "unat (u32_saturating_add (fw_generation p) 1) = Suc (unat (fw_generation p))"
    using gen unat_u32_le [of "fw_max_generations p"] by (simp add: unat_u32_saturating_add word_less_nat_alt)
  have le: "u32_saturating_add (fw_generation p) 1 \<le> fw_max_generations p"
    using gen sat by (simp add: word_le_nat_alt word_less_nat_alt)
  have nz: "u32_saturating_add (fw_generation p) 1 \<noteq> 0" using sat by auto
  note ext = captures_extend [OF ok dep_value_extends [of p C R w]]
  show "watcher_validate p' = Inr ()"
    using valid ext(1,2) le nz unfolding watcher_validate_ok p' by simp
  show "unat (fw_generation p') = Suc (unat (fw_generation p))" using sat p' by simp
  show "fw_max_generations p' = fw_max_generations p" "fw_dependencies p' = fw_dependencies p" using p' by simp_all
  show "map (map_of (fw_collected p')) ?deps = map (dep_value C R p w) ?deps" using ext(3) p' by simp
  show "\<exists>new. fw_collected p' = fw_collected p @ new" using p' by simp
qed

text \<open>The payload the watcher has reached after polling in the given worlds, one per generation.\<close>

fun polls ::
  "host \<Rightarrow> 'a lengkap \<Rightarrow> ('s, 'r, 'p) client \<Rightarrow> 'r result_store \<Rightarrow> fan_in_watcher_payload \<Rightarrow>
   ('s, 'r, 'p, 'g) world list \<Rightarrow> fan_in_watcher_payload option" where
  "polls H L C R p [] = Some p"
| "polls H L C R p (w # ws) =
     (case watcher_decide H L C R p w of Reschedule p' \<Rightarrow> polls H L C R p' ws | _ \<Rightarrow> None)"

lemma polls_spec:
  assumes "lengkap_ok L" and "watcher_validate p = Inr ()" and "polls H L C R p ws = Some p'"
  shows "watcher_validate p' = Inr () \<and> unat (fw_generation p') = unat (fw_generation p) + length ws \<and>
    fw_max_generations p' = fw_max_generations p \<and> fw_dependencies p' = fw_dependencies p \<and>
    (\<exists>new. fw_collected p' = fw_collected p @ new)"
  using assms(2,3)
proof (induction ws arbitrary: p)
  case (Cons w ws)
  from Cons.prems obtain p1 where p1: "watcher_decide H L C R p w = Reschedule p1" "polls H L C R p1 ws = Some p'"
    by (auto split: watcher_step.splits)
  then have "fan_in_verdict H C R p w = Reschedule p1"
    using decide_verdict [OF assms(1) Cons.prems(1)] by metis
  note step = verdict_reschedules [OF Cons.prems(1) this]
  from Cons.IH [OF step(1) p1(2)] step show ?case by auto
qed simp

end
