(* ===== verification/Workflow_Props.thy ===== *)
theory Workflow_Props
  imports Workflow_Laws Worker_Props
begin

text \<open>
  Properties of workflows: the submission of a fan-in to the in-memory broker, the decision of the
  watcher, its checkpoint, and the bound on its generations.
\<close>

section \<open>Submitting a fan-in\<close>

lemma collect_dependencies_Inr:
  "collect_dependencies seen js = Inr ds \<Longrightarrow>
     ds = js \<and> distinct (map (\<lambda>j. nj_id j) js) \<and> (\<forall>j\<in>set js. nj_unique_key j = None \<and> nj_id j \<notin> seen)"
  by (induction seen js arbitrary: ds rule: collect_dependencies.induct) (force split: if_splits sum.splits)+

lemma maybe_offload_broker:
  assumes "maybe_offload H C b w = (r, w1)"
  shows "w_broker w1 = w_broker w" and "w_now w1 = w_now w"
  using assms by (auto simp: maybe_offload_def fresh_uuid_def Let_def split: option.splits if_splits prod.splits sum.splits)

lemma offload_all_broker:
  "offload_all H C js w = (r, w1) \<Longrightarrow> w_broker w1 = w_broker w \<and> w_now w1 = w_now w"
proof (induction H C js w arbitrary: r w1 rule: offload_all.induct)
  case (2 H C j js w)
  obtain o1 w2 where o1: "maybe_offload H C (nj_payload j) w = (o1, w2)" by fastforce
  note m = maybe_offload_broker [OF o1]
  show ?case
  proof (cases o1)
    case (Inl e)
    with 2(2) o1 m show ?thesis by simp
  next
    case (Inr b)
    obtain o3 w3 where o3: "offload_all H C js w2 = (o3, w3)" by fastforce
    from 2(1) [OF _ Inr o3] o1 m 2(2) Inr o3 show ?thesis by (auto split: sum.splits)
  qed
qed simp

lemma offload_all_jobs:
  "offload_all H C js w = (Inr js', w1) \<Longrightarrow>
     list_all2 (\<lambda>j j'. \<exists>b. j' = j\<lparr> nj_payload := b \<rparr> \<and> (cl_payload_store C = None \<longrightarrow> b = nj_payload j)) js js'"
proof (induction H C js w arbitrary: js' w1 rule: offload_all.induct)
  case (2 H C j js w)
  from 2(2) obtain b w2 js2 where o: "maybe_offload H C (nj_payload j) w = (Inr b, w2)"
      "offload_all H C js w2 = (Inr js2, w1)" "js' = j\<lparr> nj_payload := b \<rparr> # js2"
    by (auto split: prod.splits sum.splits)
  have "cl_payload_store C = None \<longrightarrow> b = nj_payload j"
    using o(1) by (auto simp: maybe_offload_def Let_def split: if_splits)
  with 2(1) [OF o(1) [symmetric] refl o(2)] o(3) show ?case by auto
qed simp

lemma cleanup_offloads_broker [simp]: "w_broker (cleanup_offloads C bs w) = w_broker w"
proof -
  have "w_broker (cleanup_offload C b w) = w_broker w" for b and w :: "('a, 'b, 'c, 'd) world"
    by (simp add: cleanup_offload_def split: option.split)
  then show ?thesis by (induction C bs w rule: cleanup_offloads.induct) simp_all
qed

text \<open>A batch of jobs without uniqueness keys: every one of them is live afterwards, and one whose id
  was new has its own envelope.\<close>

lemma insert_all_live:
  assumes "mem_inv s" and "\<forall>j\<in>set js. nj_unique_key j = None"
  shows "(\<forall>i b. jobs_by_id (in_jobs s) i = Some b \<longrightarrow> jobs_by_id (in_jobs (snd (insert_all js t s))) i = Some b) \<and>
    (\<forall>j\<in>set js. jobs_by_id (in_jobs (snd (insert_all js t s))) (nj_id j) \<noteq> None)"
  using assms
proof (induction js arbitrary: s)
  case (Cons j js)
  obtain i s1 where one: "insert_one j t s = (i, s1)" by fastforce
  note law = insert_one_law [OF Cons.prems(1) one]
  have snd: "snd (insert_all (j # js) t s) = snd (insert_all js t s1)"
    using one by (simp add: case_prod_beta)
  have "i = nj_id j"
    using one Cons.prems(2) by (auto simp: insert_one_def Let_def split: if_splits)
  with law(4) have live: "jobs_by_id (in_jobs s1) (nj_id j) \<noteq> None" by simp
  have ih: "\<And>i b. jobs_by_id (in_jobs s1) i = Some b \<Longrightarrow> jobs_by_id (in_jobs (snd (insert_all js t s1))) i = Some b"
    "\<And>j. j \<in> set js \<Longrightarrow> jobs_by_id (in_jobs (snd (insert_all js t s1))) (nj_id j) \<noteq> None"
    using Cons.IH [OF law(1)] Cons.prems(2) by simp_all
  show ?case unfolding snd using law(3) ih live by (auto simp del: not_None_eq)
qed simp

lemma insert_all_snoc: "insert_all (js @ [j]) t s =
    (let (ids, s1) = insert_all js t s; (i, s2) = insert_one j t s1 in (ids @ [i], s2))"
  by (induction js arbitrary: s) (auto simp: Let_def split: prod.splits)

lemma insert_all_ids:
  assumes "mem_inv s" and "i \<notin> (\<lambda>j. nj_id j) ` set js" and "jobs_by_id (in_jobs s) i = None"
  shows "jobs_by_id (in_jobs (snd (insert_all js t s))) i = None"
  using assms
proof (induction js arbitrary: s)
  case (Cons j js)
  obtain k s1 where one: "insert_one j t s = (k, s1)" by fastforce
  note law = insert_one_law [OF Cons.prems(1) one]
  have "jobs_by_id (in_jobs s1) i = None"
    using law(5) [of i] Cons.prems(2,3) by (cases "jobs_by_id (in_jobs s1) i") auto
  with Cons.IH [OF law(1)] Cons.prems(2) one show ?case by (simp add: case_prod_beta)
qed simp

lemma insert_all_last:
  assumes "mem_inv s" and "nj_unique_key x = None" and "nj_id x \<notin> (\<lambda>j. nj_id j) ` set js"
    and "jobs_by_id (in_jobs s) (nj_id x) = None"
  shows "\<exists>a. jobs_by_id (in_jobs (snd (insert_all (js @ [x]) t s))) (nj_id x) = Some a \<and> sj_envelope a = into_envelope x"
proof -
  define s1 where "s1 = snd (insert_all js t s)"
  obtain i s2 where one: "insert_one x t s1 = (i, s2)" by fastforce
  have none: "jobs_by_id (in_jobs s1) (nj_id x) = None"
    unfolding s1_def by (rule insert_all_ids [OF assms(1,3,4)])
  have "mem_inv s1" unfolding s1_def by (rule mem_inv_insert_all [OF assms(1)])
  note law = insert_one_law [OF this one]
  have "i = nj_id x" using one assms(2) by (auto simp: insert_one_def Let_def split: if_splits)
  with law(4) obtain a where a: "jobs_by_id (in_jobs s2) (nj_id x) = Some a" by auto
  moreover have "snd (insert_all (js @ [x]) t s) = s2"
    using one by (simp add: insert_all_snoc s1_def case_prod_beta)
  ultimately show ?thesis using law(5) [OF none a] by simp
qed

lemma submit_fan_in_cases:
  assumes run: "submit_fan_in H C batch w = (res, w')" and batch: "cl_batch C = Some mem_enqueue_batch"
  obtains (nothing) e where "res = Inl e" "w_broker w' = w_broker w"
  | (submitted) batch' where "res = Inr ()"
      "list_all2 (\<lambda>j j'. \<exists>b. j' = j\<lparr> nj_payload := b \<rparr> \<and> (cl_payload_store C = None \<longrightarrow> b = nj_payload j)) batch batch'"
      "w_broker w' = snd (insert_all batch' (w_now w) (w_broker w))"
proof (cases "check_lanes C batch")
  case (Inl e)
  then have "res = Inl e" "w_broker w' = w_broker w" using run by (auto simp: submit_fan_in_def)
  then show ?thesis by (rule nothing)
next
  case lanes: (Inr u)
  obtain o1 w1 where off: "offload_all H C batch w = (o1, w1)" by fastforce
  note same = offload_all_broker [OF off]
  show ?thesis
  proof (cases o1)
    case (Inl e)
    with run lanes off same have "res = Inl e" "w_broker w' = w_broker w" by (auto simp: submit_fan_in_def)
    then show ?thesis by (rule nothing)
  next
    case (Inr batch')
    note jobs = offload_all_jobs [OF off [unfolded Inr]]
    have enq: "client_enqueue_batch C batch' w1 = on_broker (\<lambda>now. mem_enqueue_batch now batch') w1"
      using batch by (simp add: client_enqueue_batch_def)
    show ?thesis
    proof (cases "check_all batch'")
      case (Inl e)
      with run lanes off \<open>o1 = Inr batch'\<close> same enq have "res = Inl e" "w_broker w' = w_broker w"
        by (auto simp: submit_fan_in_def on_broker_def mem_enqueue_batch_def)
      then show ?thesis by (rule nothing)
    next
      case (Inr u)
      with run lanes off \<open>o1 = Inr batch'\<close> same enq
      have "res = Inr ()" "w_broker w' = snd (insert_all batch' (w_now w) (w_broker w))"
        by (auto simp: submit_fan_in_def on_broker_def mem_enqueue_batch_def case_prod_beta)
      with jobs show ?thesis by (intro submitted)
    qed
  qed
qed

definition watcher_job :: "host \<Rightarrow> ('s, 'r, 'p) client \<Rightarrow> bytes \<Rightarrow> ('s, 'r, 'p, 'g) world \<Rightarrow> new_job" where
  "watcher_job H C b w = with_priority (cl_priority C)
     (new_job_new (JobId (hs_uuid H (w_uuids w))) (cl_lane C) WATCHER_KIND b (cl_default_max_attempts C))"

lemma fan_in_payload_new:
  assumes "fan_in_watcher_payload_new fid ids l kind c ma pr d g = Inr p"
  shows "ids \<noteq> []" and "fw_dependencies p = ids" and "fw_generation p = 1" and "fw_collected p = []"
    and "fw_generation p \<le> fw_max_generations p" and "fw_fanin_id p = fid" and "fw_callback_kind p = kind"
    and "fw_callback_lane p = l"
proof -
  have "1 \<le> g" if "g \<noteq> 0" using that by (simp add: word_le_nat_alt unat_gt_0 Suc_le_eq)
  with assms show "ids \<noteq> []" "fw_dependencies p = ids" "fw_generation p = 1" "fw_collected p = []"
    "fw_generation p \<le> fw_max_generations p" "fw_fanin_id p = fid" "fw_callback_kind p = kind" "fw_callback_lane p = l"
    by (auto simp: fan_in_watcher_payload_new_def split: if_splits)
qed

text \<open>A fan-in either stops before submitting, or submits its dependencies and the watcher.\<close>

lemma fan_in_cases:
  assumes run: "fan_in_with_policy H J C enc cb_kind fid deps context policy w = (res, w')"
  obtains (refused) e where "res = Inl e" "w_broker w' = w_broker w"
  | (sent) c p b w1 where "collect_dependencies {} deps = Inr deps"
      "fan_in_watcher_payload_new fid (map (\<lambda>j. nj_id j) deps) (lane_str (cl_lane C)) cb_kind c
         (cl_default_max_attempts C) (cl_priority C) (fp_poll_delay_secs policy) (fp_max_generations policy) = Inr p"
      "fj_watcher J p = Inr b" "w_broker w1 = w_broker w" "w_now w1 = w_now w"
      "submit_fan_in H C (deps @ [watcher_job H C b w]) w1 = (res, w')"
proof -
  have ds: "ds = deps" if "collect_dependencies {} deps = Inr ds" for ds
    using collect_dependencies_Inr [OF that] by simp
  show thesis
    using run ds sent [of _ _ _ "w\<lparr> w_uuids := Suc (w_uuids w) \<rparr>"]
    by (auto simp: fan_in_with_policy_def build_job_def fresh_uuid_def to_payload_def watcher_job_def Let_def
        intro: refused split: if_splits sum.splits)
qed

lemma mem_view_none_iff: "mem_view t s i = None \<longleftrightarrow> jobs_by_id (in_jobs s) i = None"
  by (simp add: mem_view_def)

text \<open>C24: a fan-in is all or nothing.  Submitting one to the in-memory broker (under any
  configuration of the client, with or without a payload store) either fails with every live job as
  it was, or succeeds with every dependency live and, under the freshly minted id, a watcher on the
  client's lane whose payload names exactly the dependencies, in order, at generation 1 with nothing
  captured.  That payload passes the watcher's own validation exactly when the fan-in id and the
  callback kind are not empty and the lane is well formed: the constructor does not check the first
  two.\<close>

theorem fan_in_all_or_nothing:
  assumes inv: "mem_inv (w_broker w)" and batch: "cl_batch C = Some mem_enqueue_batch"
    and new: "mem_view 0 (w_broker w) (JobId (hs_uuid H (w_uuids w))) = None"
    and other: "JobId (hs_uuid H (w_uuids w)) \<notin> (\<lambda>j. nj_id j) ` set deps"
    and run: "fan_in_with_policy H J C enc cb_kind fid deps context policy w = (res, w')"
  shows "(res \<noteq> Inr () \<longrightarrow> mem_view t (w_broker w') = mem_view t (w_broker w)) \<and>
    (res = Inr () \<longrightarrow>
      deps \<noteq> [] \<and> (\<forall>j\<in>set deps. mem_view t (w_broker w') (nj_id j) \<noteq> None) \<and>
      (\<exists>p b v. fw_dependencies p = map (\<lambda>j. nj_id j) deps \<and> fw_generation p = 1 \<and> fw_collected p = [] \<and>
         fj_watcher J p = Inr b \<and>
         (watcher_validate p = Inr () \<longleftrightarrow> fid \<noteq> [] \<and> cb_kind \<noteq> [] \<and> is_ok (validated (lane_str (cl_lane C)))) \<and>
         mem_view t (w_broker w') (JobId (hs_uuid H (w_uuids w))) = Some v \<and>
         env_kind (jv_envelope v) = WATCHER_KIND \<and> env_lane (jv_envelope v) = cl_lane C \<and>
         (cl_payload_store C = None \<longrightarrow> env_payload (jv_envelope v) = b)))"
proof (cases rule: fan_in_cases [OF run, case_names refused sent])
  case refused
  then show ?thesis by simp
next
  case (sent c p b w1)
  let ?wid = "JobId (hs_uuid H (w_uuids w))"
  show ?thesis
  proof (cases rule: submit_fan_in_cases [OF sent(6) batch, case_names nothing submitted])
    case nothing
    with sent(4) show ?thesis by simp
  next
    case (submitted js)
    from submitted(2) obtain ds x where js: "js = ds @ [(watcher_job H C b w)\<lparr> nj_payload := x \<rparr>]"
      and x: "cl_payload_store C = None \<longrightarrow> x = nj_payload (watcher_job H C b w)"
      and ds: "list_all2 (\<lambda>j j'. \<exists>b. j' = j\<lparr> nj_payload := b \<rparr> \<and> (cl_payload_store C = None \<longrightarrow> b = nj_payload j)) deps ds"
      by (auto simp: list_all2_append1 list_all2_Cons1)
    have wj: "nj_id (watcher_job H C b w) = ?wid" "nj_unique_key (watcher_job H C b w) = None"
      by (simp_all add: watcher_job_def with_priority_def new_job_new_def)
    note col = collect_dependencies_Inr [OF sent(1)]
    have ids: "map (\<lambda>j. nj_id j) ds = map (\<lambda>j. nj_id j) deps" "map (\<lambda>j. nj_unique_key j) ds = map (\<lambda>j. nj_unique_key j) deps"
      using ds by (induction rule: list_all2_induct) auto
    then have sets: "(\<lambda>j. nj_id j) ` set ds = (\<lambda>j. nj_id j) ` set deps"
      "(\<lambda>j. nj_unique_key j) ` set ds = (\<lambda>j. nj_unique_key j) ` set deps"
      by (metis list.set_map)+
    have keys: "\<forall>j\<in>set ds. nj_unique_key j = None" using sets(2) col by (auto simp: image_iff)
    have broker: "w_broker w' = snd (insert_all js (w_now w1) (w_broker w))" using submitted(3) sent(4) by simp
    have "\<forall>j\<in>set js. nj_unique_key j = None" using js keys wj by simp
    from insert_all_live [OF inv this] broker have "\<forall>j\<in>set js. jobs_by_id (in_jobs (w_broker w')) (nj_id j) \<noteq> None" by simp
    then have "\<forall>i \<in> (\<lambda>j. nj_id j) ` set ds. jobs_by_id (in_jobs (w_broker w')) i \<noteq> None" unfolding js by simp
    then have live: "\<forall>j\<in>set deps. mem_view t (w_broker w') (nj_id j) \<noteq> None" unfolding sets mem_view_none_iff by simp
    have "jobs_by_id (in_jobs (w_broker w)) ?wid = None" using new by (simp add: mem_view_none_iff)
    with insert_all_last [OF inv, of "(watcher_job H C b w)\<lparr> nj_payload := x \<rparr>" ds "w_now w1"] other sets(1) wj broker js
    obtain a where a: "jobs_by_id (in_jobs (w_broker w')) ?wid = Some a"
      "sj_envelope a = into_envelope ((watcher_job H C b w)\<lparr> nj_payload := x \<rparr>)" by auto
    then have v: "mem_view t (w_broker w') ?wid = Some (jview_of t a)" by (simp add: mem_view_def)
    have env: "env_kind (sj_envelope a) = WATCHER_KIND" "env_lane (sj_envelope a) = cl_lane C" "env_payload (sj_envelope a) = x"
      unfolding a(2) by (simp_all add: into_envelope_def job_envelope_new_def watcher_job_def with_priority_def new_job_new_def)
    have pay: "nj_payload (watcher_job H C b w) = b" by (simp add: watcher_job_def with_priority_def new_job_new_def)
    note p = fan_in_payload_new [OF sent(2)]
    have "watcher_validate p = Inr () \<longleftrightarrow> fid \<noteq> [] \<and> cb_kind \<noteq> [] \<and> is_ok (validated (lane_str (cl_lane C)))"
      using p col by (simp add: watcher_validate_ok)
    with p live v env x pay sent(3) submitted(1) show ?thesis by auto
  qed
qed

definition demo_json :: "unit fan_in_json" where
  "demo_json = \<lparr> fj_value = (\<lambda>b. Inr ()), fj_results = (\<lambda>v rs. Inr (concat rs)), fj_watcher = (\<lambda>p. Inr [1]) \<rparr>"

definition demo_batch_client :: "(inner, unit, unit) client" where
  "demo_batch_client = client_new (memory_broker mem_config_default) (Some mem_enqueue_batch)"

definition demo_fan_in :: "unit result \<times> (inner, unit, unit, nat) world" where
  "demo_fan_in = fan_in_with_policy demo_host demo_json demo_batch_client (\<lambda>u. Inr [2]) ''cb'' ''f'' [demo_job 2] ()
     default_fan_in_policy (demo_world demo_store 0)"

theorem fan_in_all_or_nothing_witness:
  "fst demo_fan_in = Inr () \<and> mem_view 3 (w_broker (snd demo_fan_in)) (JobId 2) \<noteq> None \<and>
   (\<exists>p b v. fw_dependencies p = [JobId 2] \<and> watcher_validate p = Inr () \<and> fj_watcher demo_json p = Inr b \<and>
      mem_view 3 (w_broker (snd demo_fan_in)) (JobId 0) = Some v \<and> env_payload (jv_envelope v) = b)"
proof -
  let ?w = "demo_world demo_store 0 :: (inner, unit, unit, nat) world"
  have inv: "mem_inv (w_broker ?w)" by (simp add: demo_world_def mem_reach_inv [OF demo_store_reach])
  have C: "cl_batch demo_batch_client = Some mem_enqueue_batch" "cl_payload_store demo_batch_client = None"
    by (simp_all add: demo_batch_client_def client_new_def)
  have u: "hs_uuid demo_host (w_uuids ?w) = 0" by (simp add: demo_host_def demo_world_def)
  have new: "mem_view 0 (w_broker ?w) (JobId (hs_uuid demo_host (w_uuids ?w))) = None" unfolding u by code_simp
  have other: "JobId (hs_uuid demo_host (w_uuids ?w)) \<notin> (\<lambda>j. nj_id j) ` set [demo_job 2]"
    unfolding u by (simp add: demo_job_def new_job_new_def)
  have ok: "fst demo_fan_in = Inr ()" by code_simp
  have lane: "is_ok (validated (lane_str (cl_lane demo_batch_client)))" by code_simp
  have run: "fan_in_with_policy demo_host demo_json demo_batch_client (\<lambda>u. Inr [2]) ''cb'' ''f'' [demo_job 2] ()
     default_fan_in_policy ?w = (Inr (), snd demo_fan_in)"
    using ok unfolding demo_fan_in_def by (simp add: prod_eq_iff)
  have id: "nj_id (demo_job 2) = JobId 2" by (simp add: demo_job_def new_job_new_def)
  from fan_in_all_or_nothing [OF inv C(1) new other run, of 3] ok lane C(2) show ?thesis
    unfolding u by (auto simp: id)
qed

section \<open>The watcher\<close>

text \<open>C25: the watcher takes the verdict.  On a valid payload, over any broker and result store and with
  a completion crate that behaves as documented, one run of the watcher is the effect of the
  verdict on its dependencies read in order: the first one that is dead-lettered, has lost its
  result before capture or cannot be read fails the run; when every dependency has a value, captured
  earlier or read now, the callback is fired with the values in dependency order; otherwise the next
  generation is scheduled with the new values appended to the captured ones, unless the generations
  are used up.\<close>

theorem fan_in_watcher_refines_verdict:
  assumes "lengkap_ok L" and "watcher_validate p = Inr ()"
  shows "watcher_run H L J C R ctx p w = watcher_act H J C (ctx_lane ctx) p (fan_in_verdict H C R p w) w"
  by (simp add: watcher_run_def decide_verdict [OF assms])

definition demo_results :: "unit result_store" where
  "demo_results = \<lparr> rs_store = (\<lambda>i b r. (Inr (), r)), rs_get = (\<lambda>i r. Inr (Some [5])) \<rparr>"

definition demo_watcher :: fan_in_watcher_payload where
  "demo_watcher =
     \<lparr> fw_fanin_id = ''f'', fw_dependencies = [JobId 2, JobId 3, JobId 1], fw_generation = 1, fw_poll_delay_secs = 10,
       fw_max_generations = 3, fw_collected = [(JobId 3, [9])], fw_callback_lane = ''q'', fw_callback_kind = ''cb'',
       fw_callback_payload = [], fw_callback_max_attempts = 1, fw_callback_priority = 0 \<rparr>"

theorem fan_in_watcher_refines_verdict_witness:
  "watcher_run demo_host slots_lengkap demo_json demo_batch_client demo_results demo_job_ctx demo_watcher (demo_world demo_store 0) =
     watcher_act demo_host demo_json demo_batch_client demo_lane demo_watcher
       (fan_in_verdict demo_host demo_batch_client demo_results demo_watcher (demo_world demo_store 0)) (demo_world demo_store 0) \<and>
   fan_in_verdict demo_host demo_batch_client demo_results demo_watcher (demo_world demo_store 0) =
     Reschedule (demo_watcher\<lparr> fw_generation := 2, fw_collected := [(JobId 3, [9]), (JobId 2, [5])] \<rparr>)"
proof -
  have valid: "watcher_validate demo_watcher = Inr ()" by code_simp
  have lane: "ctx_lane demo_job_ctx = demo_lane" by code_simp
  have "fan_in_verdict demo_host demo_batch_client demo_results demo_watcher (demo_world demo_store 0) =
      Reschedule (demo_watcher\<lparr> fw_generation := 2, fw_collected := [(JobId 3, [9]), (JobId 2, [5])] \<rparr>)"
    by code_simp
  with fan_in_watcher_refines_verdict [OF slots_lengkap_ok valid, of demo_host demo_json demo_batch_client demo_results
      demo_job_ctx "demo_world demo_store 0"] lane
  show ?thesis by simp
qed

text \<open>C26: the generations of a fan-in are bounded and keep what they captured.  However the world
  changes between the polls, the watcher that starts from a valid payload reschedules itself with
  valid payloads only; each poll uses up one generation, so that there are never more polls than the
  bound allows; the dependencies stay the same, and every value captured by an earlier generation is
  still captured, whatever became of it in the result store.\<close>

theorem fan_in_polls_bounded:
  assumes "lengkap_ok L" and "watcher_validate p = Inr ()" and "polls H L C R p ws = Some p'"
  shows "watcher_validate p' = Inr () \<and>
    unat (fw_generation p') = unat (fw_generation p) + length ws \<and>
    length ws < unat (fw_max_generations p) \<and>
    fw_dependencies p' = fw_dependencies p \<and> (\<exists>new. fw_collected p' = fw_collected p @ new)"
proof -
  note spec = polls_spec [OF assms]
  then have "fw_generation p' \<le> fw_max_generations p" "fw_generation p \<noteq> 0"
    using assms(2) by (auto simp: watcher_validate_ok)
  then have "unat (fw_generation p') \<le> unat (fw_max_generations p)" "0 < unat (fw_generation p)"
    by (simp_all add: word_le_nat_alt unat_gt_0)
  with spec show ?thesis by auto
qed

theorem fan_in_polls_bounded_witness:
  "\<exists>p'. polls demo_host slots_lengkap demo_batch_client demo_results demo_watcher
       [demo_world demo_store 0, demo_world demo_store 1] = Some p' \<and>
     unat (fw_generation p') = 3 \<and> watcher_validate p' = Inr ()"
proof -
  have valid: "watcher_validate demo_watcher = Inr ()" by code_simp
  have "polls demo_host slots_lengkap demo_batch_client demo_results demo_watcher
       [demo_world demo_store 0, demo_world demo_store 1] \<noteq> None" by code_simp
  then obtain p' where p': "polls demo_host slots_lengkap demo_batch_client demo_results demo_watcher
       [demo_world demo_store 0, demo_world demo_store 1] = Some p'" by blast
  have "unat (fw_generation demo_watcher) = 1" by (simp add: demo_watcher_def)
  with fan_in_polls_bounded [OF slots_lengkap_ok valid p'] p' show ?thesis by auto
qed

text \<open>C27: checkpoints restore.  A checkpoint of an assembly that still holds everything captured
  before succeeds, keeps the earlier captures in front in their order, and restoring it gives the
  same assembly back.\<close>

theorem fan_in_checkpoint_round_trip:
  assumes "lengkap_ok L" and "distinct deps" and "fst ` set previous \<subseteq> set deps" and "distinct (map fst previous)"
    and "map_of previous \<subseteq>\<^sub>m m"
  shows "\<exists>new. checkpoint_fan_in_assembly L deps previous (lk_from_slots L (map m deps)) = Some (Inr (previous @ new)) \<and>
    restore_fan_in_assembly L deps (previous @ new) = Inr (lk_from_slots L (map m deps))"
proof (intro exI conjI)
  show "checkpoint_fan_in_assembly L deps previous (lk_from_slots L (map m deps)) =
      Some (Inr (previous @ new_captures deps (map_of previous) m))"
    by (rule checkpoint_assembly [OF assms])
  show "restore_fan_in_assembly L deps (previous @ new_captures deps (map_of previous) m) = Inr (lk_from_slots L (map m deps))"
    using restore_assembly [OF assms(2) captures_extend(1,2) [OF assms(2-5)], of L]
    unfolding captures_extend(3) [OF assms(2-5)] .
qed

theorem fan_in_checkpoint_round_trip_witness:
  "\<exists>new. checkpoint_fan_in_assembly slots_lengkap [JobId 1, JobId 2, JobId 3] [(JobId 3, [3])] [Some [1], None, Some [3]] =
       Some (Inr ((JobId 3, [3]) # new)) \<and>
     restore_fan_in_assembly slots_lengkap [JobId 1, JobId 2, JobId 3] ((JobId 3, [3]) # new) = Inr [Some [1], None, Some [3]]"
proof -
  define m where "m = [JobId 3 \<mapsto> [3 :: u8], JobId 1 \<mapsto> [1]]"
  have ext: "map_of [(JobId 3, [3 :: u8])] \<subseteq>\<^sub>m m" by (simp add: m_def map_le_def)
  have slots: "lk_from_slots slots_lengkap (map m [JobId 1, JobId 2, JobId 3]) = [Some [1], None, Some [3]]"
    by (simp add: m_def slots_lengkap_def)
  have "\<exists>new. checkpoint_fan_in_assembly slots_lengkap [JobId 1, JobId 2, JobId 3] [(JobId 3, [3])]
      (lk_from_slots slots_lengkap (map m [JobId 1, JobId 2, JobId 3])) = Some (Inr ([(JobId 3, [3])] @ new)) \<and>
    restore_fan_in_assembly slots_lengkap [JobId 1, JobId 2, JobId 3] ([(JobId 3, [3])] @ new) =
      Inr (lk_from_slots slots_lengkap (map m [JobId 1, JobId 2, JobId 3]))"
    by (rule fan_in_checkpoint_round_trip [OF slots_lengkap_ok _ _ _ ext]) simp_all
  then show ?thesis unfolding slots by simp
qed

end
