(* ===== verification/Scheduler.thy ===== *)
theory Scheduler
  imports Worker_Exec Spi
begin

text \<open>
  The recurring scheduler, \<^verbatim>\<open>worklane-scheduler/src/lib.rs\<close>.  A \<^verbatim>\<open>DateTime<Utc>\<close> is its number of
  nanoseconds since the epoch.  The crates \<^verbatim>\<open>cron\<close>, \<^verbatim>\<open>chrono\<close> and \<^verbatim>\<open>chrono-tz\<close> are the parameter \<open>cron_lib\<close>:
  parsing an expression, the first occurrence after an instant in a time zone, and the conversion of
  a timestamp.  The scheduler's clock is the sequence of its readings; between two calls on the
  store, other instances may change it (\<open>sw_others\<close>).  The daemon is driven by the list of
  outcomes of its waits: \<open>True\<close> when the shutdown signal ends the wait.
\<close>

section \<open>Parameters and state\<close>

record ('c, 'z) cron_lib =
  cr_parse :: "string \<Rightarrow> string + 'c"
  cr_next :: "'c \<Rightarrow> 'z \<Rightarrow> int \<Rightarrow> int option"
  cr_from_timestamp :: "int \<Rightarrow> nat \<Rightarrow> int option"
  cr_utc :: 'z

text \<open>What the crates document: an occurrence lies strictly after the instant it is searched from,
  and a converted timestamp is the instant of its seconds and nanoseconds.\<close>

definition cron_ok :: "('c, 'z) cron_lib \<Rightarrow> bool" where
  "cron_ok X \<longleftrightarrow>
     (\<forall>c z t t'. cr_next X c z t = Some t' \<longrightarrow> t < t') \<and>
     (\<forall>s n t. cr_from_timestamp X s n = Some t \<longrightarrow> t = s * 10 ^ 9 + int n)"

record 's scheduled_store =
  ss_enqueue_scheduled :: "duration \<Rightarrow> string \<Rightarrow> int \<Rightarrow> new_job \<Rightarrow> 's \<Rightarrow> bool result \<times> 's"
  ss_remove_schedule :: "string \<Rightarrow> 's \<Rightarrow> unit result \<times> 's"

record ('c, 'z) schedule_entry =
  se_id :: string
  se_cron :: 'c
  se_tz :: 'z
  se_lane :: lane
  se_kind :: string
  se_payload :: bytes
  se_max_attempts :: u32
  se_dedup :: bool

record ('s, 'c, 'z) scheduler =
  sc_store :: "'s scheduled_store"
  sc_clock :: "nat \<Rightarrow> duration"
  sc_default_max_attempts :: u32
  sc_lane :: lane
  sc_timezone :: 'z
  sc_entries :: "('c, 'z) schedule_entry list"
  sc_resilient :: bool
  sc_pre_dispatch :: "(new_job \<Rightarrow> new_job) option"

text \<open>The world: the store with its own clock and the other instances, the readings and UUIDs used
  so far, the fires (schedule, occurrence, whether it was claimed) and the waits.\<close>

record 's sched_world =
  sw_store :: 's
  sw_others :: "nat \<Rightarrow> 's \<Rightarrow> 's"
  sw_store_clock :: "nat \<Rightarrow> duration"
  sw_calls :: nat
  sw_reads :: nat
  sw_uuids :: nat
  sw_fires :: "(string \<times> int \<times> bool) list"
  sw_waits :: "duration list"

section \<open>Configuration\<close>

definition with_scheduled_store :: "('c, 'z) cron_lib \<Rightarrow> (nat \<Rightarrow> duration) \<Rightarrow> 's scheduled_store \<Rightarrow> ('s, 'c, 'z) scheduler" where
  "with_scheduled_store X wall store =
     \<lparr> sc_store = store, sc_clock = wall, sc_default_max_attempts = DEFAULT_MAX_ATTEMPTS, sc_lane = default_lane,
       sc_timezone = cr_utc X, sc_entries = [], sc_resilient = False, sc_pre_dispatch = None \<rparr>"

definition scheduler_new ::
  "('c, 'z) cron_lib \<Rightarrow> (nat \<Rightarrow> duration) \<Rightarrow> 's scheduled_store option \<Rightarrow> ('s, 'c, 'z) scheduler result" where
  "scheduler_new X wall store =
     (case store of
        None \<Rightarrow> Inl (Broker [Lit ''broker does not support scheduled enqueue''])
      | Some st \<Rightarrow> Inr (with_scheduled_store X wall st))"

definition with_timezone :: "'z \<Rightarrow> ('s, 'c, 'z) scheduler \<Rightarrow> ('s, 'c, 'z) scheduler" where
  "with_timezone z sch = sch\<lparr> sc_timezone := z \<rparr>"

definition with_pre_dispatch :: "(new_job \<Rightarrow> new_job) \<Rightarrow> ('s, 'c, 'z) scheduler \<Rightarrow> ('s, 'c, 'z) scheduler" where
  "with_pre_dispatch hook sch = sch\<lparr> sc_pre_dispatch := Some hook \<rparr>"

definition scheduler_with_resilient :: "bool \<Rightarrow> ('s, 'c, 'z) scheduler \<Rightarrow> ('s, 'c, 'z) scheduler" where
  "scheduler_with_resilient b sch = sch\<lparr> sc_resilient := b \<rparr>"

definition scheduler_with_clock :: "(nat \<Rightarrow> duration) \<Rightarrow> ('s, 'c, 'z) scheduler \<Rightarrow> ('s, 'c, 'z) scheduler" where
  "scheduler_with_clock clk sch = sch\<lparr> sc_clock := clk \<rparr>"

definition scheduler_with_max_attempts :: "u32 \<Rightarrow> ('s, 'c, 'z) scheduler \<Rightarrow> ('s, 'c, 'z) scheduler" where
  "scheduler_with_max_attempts n sch = sch\<lparr> sc_default_max_attempts := n \<rparr>"

definition scheduler_with_lane :: "lane \<Rightarrow> ('s, 'c, 'z) scheduler \<Rightarrow> ('s, 'c, 'z) scheduler" where
  "scheduler_with_lane l sch = sch\<lparr> sc_lane := l \<rparr>"

definition scheduler_add ::
  "('c, 'z) cron_lib \<Rightarrow> ('a \<Rightarrow> string + bytes) \<Rightarrow> string \<Rightarrow> string \<Rightarrow> string \<Rightarrow> lane \<Rightarrow> bool \<Rightarrow> 'a \<Rightarrow>
   ('s, 'c, 'z) scheduler \<Rightarrow> ('s, 'c, 'z) scheduler result" where
  "scheduler_add X to_vec kind i cron_expr l dedup payload sch =
     (if list_ex (\<lambda>e. se_id e = i) (sc_entries sch) then
        Inl (Registration [Lit ''a schedule with id '', FDebugStr i, Lit '' is already registered''])
      else case cr_parse X cron_expr of
        Inl err \<Rightarrow> Inl (Registration [Lit ''invalid cron expression '', FDebugStr cron_expr, Lit '': '', Lit err])
      | Inr cron \<Rightarrow>
          (case to_payload to_vec payload of
             Inl e \<Rightarrow> Inl e
           | Inr b \<Rightarrow>
               Inr (sch\<lparr> sc_entries := sc_entries sch @
                 [\<lparr> se_id = i, se_cron = cron, se_tz = sc_timezone sch, se_lane = l, se_kind = kind, se_payload = b,
                    se_max_attempts = sc_default_max_attempts sch, se_dedup = dedup \<rparr>] \<rparr>)))"

definition schedule ::
  "('c, 'z) cron_lib \<Rightarrow> ('a \<Rightarrow> string + bytes) \<Rightarrow> string \<Rightarrow> string \<Rightarrow> string \<Rightarrow> 'a \<Rightarrow>
   ('s, 'c, 'z) scheduler \<Rightarrow> ('s, 'c, 'z) scheduler result" where
  "schedule X to_vec kind i cron_expr payload sch =
     scheduler_add X to_vec kind i cron_expr (sc_lane sch) False payload sch"

definition schedule_to ::
  "('c, 'z) cron_lib \<Rightarrow> ('a \<Rightarrow> string + bytes) \<Rightarrow> string \<Rightarrow> string \<Rightarrow> string \<Rightarrow> lane \<Rightarrow> 'a \<Rightarrow>
   ('s, 'c, 'z) scheduler \<Rightarrow> ('s, 'c, 'z) scheduler result" where
  "schedule_to X to_vec kind i cron_expr l payload sch =
     scheduler_add X to_vec kind i cron_expr l False payload sch"

definition schedule_unique ::
  "('c, 'z) cron_lib \<Rightarrow> ('a \<Rightarrow> string + bytes) \<Rightarrow> string \<Rightarrow> string \<Rightarrow> string \<Rightarrow> 'a \<Rightarrow>
   ('s, 'c, 'z) scheduler \<Rightarrow> ('s, 'c, 'z) scheduler result" where
  "schedule_unique X to_vec kind i cron_expr payload sch =
     scheduler_add X to_vec kind i cron_expr (sc_lane sch) True payload sch"

section \<open>Time\<close>

text \<open>The seconds of the reading must fit an \<^verbatim>\<open>i64\<close>, and \<^verbatim>\<open>chrono\<close> must accept them.\<close>

definition now_utc :: "('c, 'z) cron_lib \<Rightarrow> ('s, 'c, 'z) scheduler \<Rightarrow> 's sched_world \<Rightarrow> int result \<times> 's sched_world" where
  "now_utc X sch w =
     (let d = sc_clock sch (sw_reads w); w1 = w\<lparr> sw_reads := Suc (sw_reads w) \<rparr>;
          out_of_range = Inl (Broker [Lit ''clock time is out of range for scheduling''])
      in if int (d div 10 ^ 9) > I64_MAX then (out_of_range, w1)
         else case cr_from_timestamp X (int (d div 10 ^ 9)) (d mod 10 ^ 9) of
                None \<Rightarrow> (out_of_range, w1)
              | Some t \<Rightarrow> (Inr t, w1))"

definition next_after :: "('c, 'z) cron_lib \<Rightarrow> ('c, 'z) schedule_entry \<Rightarrow> int \<Rightarrow> int result" where
  "next_after X e after =
     (case cr_next X (se_cron e) (se_tz e) after of
        Some t \<Rightarrow> Inr t
      | None \<Rightarrow> Inl (Broker [Lit ''schedule '', FDebugStr (se_id e), Lit '' has no further occurrence'']))"

text \<open>\<^verbatim>\<open>DateTime::timestamp\<close>: whole seconds, rounded down.\<close>

definition timestamp :: "int \<Rightarrow> int" where
  "timestamp t = t div 10 ^ 9"

section \<open>Firing\<close>

definition scheduled_job :: "host \<Rightarrow> ('s, 'c, 'z) scheduler \<Rightarrow> ('c, 'z) schedule_entry \<Rightarrow> int \<Rightarrow> uuid \<Rightarrow> new_job" where
  "scheduled_job H sch e ts u =
     (let job = new_job_new (JobId u) (se_lane e) (se_kind e) (se_payload e) (se_max_attempts e);
          job1 = (if se_dedup e then with_unique_key (hs_show H [Lit (se_id e), Lit '':'', FInt ts]) job else job)
      in case sc_pre_dispatch sch of None \<Rightarrow> job1 | Some hook \<Rightarrow> hook job1)"

definition fire ::
  "host \<Rightarrow> ('s, 'c, 'z) scheduler \<Rightarrow> ('c, 'z) schedule_entry \<Rightarrow> int \<Rightarrow> 's sched_world \<Rightarrow> unit result \<times> 's sched_world" where
  "fire H sch e occurrence w =
     (let ts = timestamp occurrence;
          job = scheduled_job H sch e ts (hs_uuid H (sw_uuids w));
          s = sw_others w (sw_calls w) (sw_store w);
          (r, s') = ss_enqueue_scheduled (sc_store sch) (sw_store_clock w (sw_calls w)) (se_id e) ts job s;
          w1 = w\<lparr> sw_uuids := Suc (sw_uuids w), sw_calls := Suc (sw_calls w), sw_store := s' \<rparr>
      in case r of
           Inl err \<Rightarrow> (Inl err, w1)
         | Inr claimed \<Rightarrow> (Inr (), w1\<lparr> sw_fires := sw_fires w @ [(se_id e, occurrence, claimed)] \<rparr>))"

section \<open>The daemon\<close>

fun seed_cursors :: "('c, 'z) cron_lib \<Rightarrow> ('c, 'z) schedule_entry list \<Rightarrow> int \<Rightarrow> int list result" where
  "seed_cursors X [] now = Inr []"
| "seed_cursors X (e # es) now =
     (case next_after X e now of
        Inl err \<Rightarrow> Inl err
      | Inr c \<Rightarrow> (case seed_cursors X es now of Inl err \<Rightarrow> Inl err | Inr cs \<Rightarrow> Inr (c # cs)))"

text \<open>The body of the inner loop for a due entry: it fires, and its cursor moves to the first
  occurrence past the time read after the fire.\<close>

definition advance_cursor ::
  "('c, 'z) cron_lib \<Rightarrow> ('s, 'c, 'z) scheduler \<Rightarrow> ('c, 'z) schedule_entry \<Rightarrow> 's sched_world \<Rightarrow> int result \<times> 's sched_world" where
  "advance_cursor X sch e w =
     (case now_utc X sch w of
        (Inl err, w1) \<Rightarrow> (Inl err, w1)
      | (Inr after, w1) \<Rightarrow> (next_after X e after, w1))"

definition fire_advance ::
  "('c, 'z) cron_lib \<Rightarrow> host \<Rightarrow> ('s, 'c, 'z) scheduler \<Rightarrow> ('c, 'z) schedule_entry \<Rightarrow> int \<Rightarrow> 's sched_world \<Rightarrow>
   int result \<times> 's sched_world" where
  "fire_advance X H sch e c w =
     (case fire H sch e c w of
        (Inl err, w1) \<Rightarrow> if sc_resilient sch then advance_cursor X sch e w1 else (Inl err, w1)
      | (Inr u, w1) \<Rightarrow> advance_cursor X sch e w1)"

fun fire_due ::
  "('c, 'z) cron_lib \<Rightarrow> host \<Rightarrow> ('s, 'c, 'z) scheduler \<Rightarrow> ('c, 'z) schedule_entry list \<Rightarrow> int list \<Rightarrow> int \<Rightarrow>
   's sched_world \<Rightarrow> int list result \<times> 's sched_world" where
  "fire_due X H sch (e # es) (c # cs) now w =
     (case (if c \<le> now then fire_advance X H sch e c w else (Inr c, w)) of
        (Inl err, w1) \<Rightarrow> (Inl err, w1)
      | (Inr c', w1) \<Rightarrow>
          (case fire_due X H sch es cs now w1 of
             (Inl err, w2) \<Rightarrow> (Inl err, w2)
           | (Inr cs', w2) \<Rightarrow> (Inr (c' # cs'), w2)))"
| "fire_due X H sch [] cs now w = (Inr [], w)"
| "fire_due X H sch (e # es) [] now w = (Inr [], w)"

definition sleep_wait :: "int \<Rightarrow> int \<Rightarrow> duration" where
  "sleep_wait earliest now = max (nat (earliest - now)) (from_millis 1)"

text \<open>The loop, one entry of the list per wait; \<open>None\<close> is a daemon that is still running when the
  list ends.\<close>

fun sched_loop ::
  "('c, 'z) cron_lib \<Rightarrow> host \<Rightarrow> ('s, 'c, 'z) scheduler \<Rightarrow> bool list \<Rightarrow> int list \<Rightarrow> 's sched_world \<Rightarrow>
   unit result option \<times> 's sched_world" where
  "sched_loop X H sch [] cursors w = (None, w)"
| "sched_loop X H sch (stop # waits) cursors w =
     (case cursors of
        [] \<Rightarrow> if stop then (Some (Inr ()), w) else sched_loop X H sch waits cursors w
      | c # cs \<Rightarrow>
          (case now_utc X sch w of
             (Inl err, w1) \<Rightarrow> (Some (Inl err), w1)
           | (Inr now, w1) \<Rightarrow>
               (let w2 = w1\<lparr> sw_waits := sw_waits w1 @ [sleep_wait (foldl min c cs) now] \<rparr> in
                if stop then (Some (Inr ()), w2)
                else (case now_utc X sch w2 of
                        (Inl err, w3) \<Rightarrow> (Some (Inl err), w3)
                      | (Inr now', w3) \<Rightarrow>
                          (case fire_due X H sch (sc_entries sch) cursors now' w3 of
                             (Inl err, w4) \<Rightarrow> (Some (Inl err), w4)
                           | (Inr cursors', w4) \<Rightarrow> sched_loop X H sch waits cursors' w4)))))"

definition sched_run ::
  "('c, 'z) cron_lib \<Rightarrow> host \<Rightarrow> ('s, 'c, 'z) scheduler \<Rightarrow> bool list \<Rightarrow> 's sched_world \<Rightarrow>
   unit result option \<times> 's sched_world" where
  "sched_run X H sch waits w =
     (if sc_entries sch = [] then sched_loop X H sch waits [] w
      else case now_utc X sch w of
             (Inl err, w1) \<Rightarrow> (Some (Inl err), w1)
           | (Inr now, w1) \<Rightarrow>
               (case seed_cursors X (sc_entries sch) now of
                  Inl err \<Rightarrow> (Some (Inl err), w1)
                | Inr cursors \<Rightarrow> sched_loop X H sch waits cursors w1))"

end
