(* ===== verification/Scheduler_Props.thy ===== *)
theory Scheduler_Props
  imports Scheduler Memory_Props Worker_Props
begin

text \<open>
  Properties of the scheduler.  Over any store, whatever the other instances do to it: what one
  run fires, and when.  Over a store that keeps occurrence watermarks (the locale
  \<open>watermark_store\<close>, interpreted by the in-memory broker): an occurrence is claimed at most once
  in the whole cluster.
\<close>

section \<open>The invariant of the daemon\<close>

definition occs :: "string \<Rightarrow> 's sched_world \<Rightarrow> int list" where
  "occs i w = map (\<lambda>f. fst (snd f)) (filter (\<lambda>f. fst f = i) (sw_fires w))"

text \<open>\<open>c\<close> is the next occurrence of \<open>e\<close> after a reading of the clock since the \<open>n0\<close>-th.\<close>

definition due_after :: "('c, 'z) cron_lib \<Rightarrow> ('s, 'c, 'z) scheduler \<Rightarrow> nat \<Rightarrow> nat \<Rightarrow> ('c, 'z) schedule_entry \<Rightarrow> int \<Rightarrow> bool" where
  "due_after X sch n0 n1 e c \<longleftrightarrow>
     (\<exists>n. n0 \<le> n \<and> n < n1 \<and> cr_next X (se_cron e) (se_tz e) (int (sc_clock sch n)) = Some c)"

definition cursor_ok :: "('c, 'z) cron_lib \<Rightarrow> ('s, 'c, 'z) scheduler \<Rightarrow> nat \<Rightarrow> 's sched_world \<Rightarrow> ('c, 'z) schedule_entry \<Rightarrow> int \<Rightarrow> bool" where
  "cursor_ok X sch n0 w e c \<longleftrightarrow> due_after X sch n0 (sw_reads w) e c \<and> (\<forall>x\<in>set (occs (se_id e) w). x < c)"

definition fires_ok :: "('c, 'z) cron_lib \<Rightarrow> ('s, 'c, 'z) scheduler \<Rightarrow> nat \<Rightarrow> 's sched_world \<Rightarrow> bool" where
  "fires_ok X sch n0 w \<longleftrightarrow>
     (\<forall>i. sorted_wrt (<) (occs i w)) \<and>
     (\<forall>f\<in>set (sw_fires w). fst (snd f) \<le> int (sc_clock sch (sw_reads w - 1)) \<and>
        (\<exists>e\<in>set (sc_entries sch). se_id e = fst f \<and> due_after X sch n0 (sw_reads w) e (fst (snd f))))"

lemma due_after_mono: "due_after X sch n0 n1 e c \<Longrightarrow> n1 \<le> n2 \<Longrightarrow> due_after X sch n0 n2 e c"
  unfolding due_after_def by (meson order_less_le_trans)

lemma now_utc_spec:
  assumes "cron_ok X" and "now_utc X sch w = (r, w1)"
  shows "w1 = w\<lparr> sw_reads := Suc (sw_reads w) \<rparr>" and "r = Inr t \<Longrightarrow> t = int (sc_clock sch (sw_reads w))"
proof -
  define d where "d = sc_clock sch (sw_reads w)"
  show "w1 = w\<lparr> sw_reads := Suc (sw_reads w) \<rparr>"
    using assms(2) unfolding now_utc_def Let_def by (auto split: if_split_asm option.split_asm)
  assume r: "r = Inr t"
  from assms(2) r have "cr_from_timestamp X (int (d div 10 ^ 9)) (d mod 10 ^ 9) = Some t"
    unfolding now_utc_def Let_def d_def [symmetric] by (simp split: if_split_asm option.split_asm del: power_numeral)
  with assms(1) have "t = int (d div 10 ^ 9) * 10 ^ 9 + int (d mod 10 ^ 9)" unfolding cron_ok_def by blast
  also have "\<dots> = int d div 10 ^ 9 * 10 ^ 9 + int d mod 10 ^ 9"
    by (simp only: zdiv_int zmod_int of_nat_power of_nat_numeral)
  also have "\<dots> = int d" by (rule div_mult_mod_eq)
  finally show "t = int (sc_clock sch (sw_reads w))" unfolding d_def .
qed

lemma fires_ok_later:
  assumes "fires_ok X sch n0 w" and "sw_fires w' = sw_fires w" and "sw_reads w \<le> sw_reads w'" and "mono (sc_clock sch)"
  shows "fires_ok X sch n0 w'"
proof -
  have le: "int (sc_clock sch (sw_reads w - 1)) \<le> int (sc_clock sch (sw_reads w' - 1))"
    using assms(3,4) by (simp add: monoD diff_le_mono)
  have "occs i w' = occs i w" for i using assms(2) by (simp add: occs_def)
  moreover have "fst (snd f) \<le> int (sc_clock sch (sw_reads w' - 1)) \<and>
      (\<exists>e\<in>set (sc_entries sch). se_id e = fst f \<and> due_after X sch n0 (sw_reads w') e (fst (snd f)))"
    if "f \<in> set (sw_fires w)" for f
  proof -
    from assms(1) that obtain e where "fst (snd f) \<le> int (sc_clock sch (sw_reads w - 1))" "e \<in> set (sc_entries sch)"
      "se_id e = fst f" "due_after X sch n0 (sw_reads w) e (fst (snd f))"
      unfolding fires_ok_def by blast
    with le due_after_mono [OF this(4) assms(3)] show ?thesis by (meson order_trans)
  qed
  ultimately show ?thesis using assms(1,2) by (simp add: fires_ok_def)
qed

lemma cursor_ok_later:
  "cursor_ok X sch n0 w e c \<Longrightarrow> occs (se_id e) w' = occs (se_id e) w \<Longrightarrow> sw_reads w \<le> sw_reads w' \<Longrightarrow>
   cursor_ok X sch n0 w' e c"
  by (auto simp: cursor_ok_def intro: due_after_mono)

lemma fire_log:
  assumes "fire H sch e c w = (r, w1)"
  shows "sw_reads w1 = sw_reads w"
    and "sw_fires w1 = sw_fires w \<or> (\<exists>b. sw_fires w1 = sw_fires w @ [(se_id e, c, b)])"
  using assms by (auto simp: fire_def Let_def split: prod.splits sum.splits)

text \<open>One due entry.\<close>

lemma occs_cong: "sw_fires w' = sw_fires w \<Longrightarrow> occs i w' = occs i w"
  by (simp add: occs_def)

lemma fire_step:
  assumes clk: "mono (sc_clock sch)" and e: "e \<in> set (sc_entries sch)"
    and ok: "fires_ok X sch n0 w" "cursor_ok X sch n0 w e c"
    and due: "c \<le> int (sc_clock sch m)" "m < sw_reads w"
    and f: "fire H sch e c w = (r, w1)"
  shows "fires_ok X sch n0 w1" and "sw_reads w1 = sw_reads w" and "i \<noteq> se_id e \<Longrightarrow> occs i w1 = occs i w"
    and "\<forall>x\<in>set (occs (se_id e) w1). x \<le> c"
proof -
  note log = fire_log [OF f]
  show reads: "sw_reads w1 = sw_reads w" by (rule log(1))
  have m: "sc_clock sch m \<le> sc_clock sch (sw_reads w - 1)"
    by (rule monoD [OF clk]) (use due(2) in simp)
  have c: "c \<le> int (sc_clock sch (sw_reads w - 1))" using due(1) m by linarith
  have old: "\<forall>x\<in>set (occs (se_id e) w). x < c" and da: "due_after X sch n0 (sw_reads w) e c"
    using ok(2) by (simp_all add: cursor_ok_def)
  consider "sw_fires w1 = sw_fires w" | b where "sw_fires w1 = sw_fires w @ [(se_id e, c, b)]" using log(2) by blast
  then have "fires_ok X sch n0 w1 \<and> (i \<noteq> se_id e \<longrightarrow> occs i w1 = occs i w) \<and> (\<forall>x\<in>set (occs (se_id e) w1). x \<le> c)"
  proof cases
    case 1
    with fires_ok_later [OF ok(1) 1 _ clk] reads occs_cong [OF 1] old show ?thesis by (simp add: order_less_imp_le)
  next
    case (2 b)
    then have o: "occs j w1 = occs j w @ (if j = se_id e then [c] else [])" for j by (simp add: occs_def)
    have "sorted_wrt (<) (occs j w1)" for j
      using ok(1) old unfolding o by (simp add: fires_ok_def sorted_wrt_append)
    moreover have "fst (snd f) \<le> int (sc_clock sch (sw_reads w1 - 1)) \<and>
        (\<exists>e\<in>set (sc_entries sch). se_id e = fst f \<and> due_after X sch n0 (sw_reads w1) e (fst (snd f)))"
      if "f \<in> set (sw_fires w1)" for f
    proof (cases "f \<in> set (sw_fires w)")
      case True
      with ok(1) reads show ?thesis by (simp add: fires_ok_def)
    next
      case False
      with that 2 have "f = (se_id e, c, b)" by simp
      with c e da reads show ?thesis by auto
    qed
    ultimately have "fires_ok X sch n0 w1" by (simp add: fires_ok_def)
    with o old show ?thesis by (auto intro: order_less_imp_le)
  qed
  then show "fires_ok X sch n0 w1" "i \<noteq> se_id e \<Longrightarrow> occs i w1 = occs i w" "\<forall>x\<in>set (occs (se_id e) w1). x \<le> c"
    by blast+
qed

lemma advance_step:
  assumes X: "cron_ok X" and clk: "mono (sc_clock sch)"
    and ok: "fires_ok X sch n0 w" and n0: "n0 \<le> sw_reads w"
    and due: "c \<le> int (sc_clock sch m)" "m \<le> sw_reads w" "\<forall>x\<in>set (occs (se_id e) w). x \<le> c"
    and run: "advance_cursor X sch e w = (r, w')"
  shows "fires_ok X sch n0 w'" and "sw_fires w' = sw_fires w" and "sw_reads w' = Suc (sw_reads w)"
    and "r = Inr c' \<Longrightarrow> cursor_ok X sch n0 w' e c'"
proof -
  obtain n w2 where n: "now_utc X sch w = (n, w2)" by fastforce
  note nu = now_utc_spec [OF X n]
  from run n have w': "w' = w2" by (simp add: advance_cursor_def split: sum.splits)
  show fires: "sw_fires w' = sw_fires w" and reads: "sw_reads w' = Suc (sw_reads w)" using nu(1) w' by simp_all
  show "fires_ok X sch n0 w'" using fires_ok_later [OF ok fires _ clk] reads by simp
  assume "r = Inr c'"
  with run n obtain t where t: "n = Inr t" "next_after X e t = Inr c'"
    by (auto simp: advance_cursor_def split: sum.splits)
  then have nx: "cr_next X (se_cron e) (se_tz e) (int (sc_clock sch (sw_reads w))) = Some c'"
    using nu(2) [OF t(1)] by (simp add: next_after_def split: option.splits)
  with X have "int (sc_clock sch (sw_reads w)) < c'" unfolding cron_ok_def by blast
  moreover have "sc_clock sch m \<le> sc_clock sch (sw_reads w)" using clk due(2) by (rule monoD)
  ultimately have "c < c'" using due(1) by linarith
  with due(3) have "\<forall>x\<in>set (occs (se_id e) w'). x < c'" unfolding occs_cong [OF fires] by fastforce
  moreover have "due_after X sch n0 (sw_reads w') e c'"
    using nx n0 reads unfolding due_after_def by (intro exI [of _ "sw_reads w"]) simp
  ultimately show "cursor_ok X sch n0 w' e c'" by (simp add: cursor_ok_def)
qed

lemma fire_advance_step:
  assumes X: "cron_ok X" and clk: "mono (sc_clock sch)" and e: "e \<in> set (sc_entries sch)"
    and ok: "fires_ok X sch n0 w" "cursor_ok X sch n0 w e c"
    and due: "c \<le> int (sc_clock sch m)" "n0 \<le> m" "m < sw_reads w"
    and run: "fire_advance X H sch e c w = (r, w')"
  shows "fires_ok X sch n0 w' \<and> sw_reads w \<le> sw_reads w' \<and> (i \<noteq> se_id e \<longrightarrow> occs i w' = occs i w) \<and>
    (r = Inr c' \<longrightarrow> cursor_ok X sch n0 w' e c')"
proof -
  obtain r1 w1 where f: "fire H sch e c w = (r1, w1)" by fastforce
  note st = fire_step [OF clk e ok due(1,3) f]
  from run f consider "w' = w1" "\<exists>err. r = Inl err" | "advance_cursor X sch e w1 = (r, w')"
    by (cases r1) (auto simp: fire_advance_def split: if_splits)
  then show ?thesis
  proof cases
    case 1
    with st show ?thesis by auto
  next
    case 2
    have "n0 \<le> sw_reads w1" "m \<le> sw_reads w1" using due st(2) by simp_all
    note ad = advance_step [OF X clk st(1) this(1) due(1) this(2) st(4) 2]
    with st(2,3) occs_cong [OF ad(2)] show ?thesis by simp
  qed
qed

text \<open>The inner loop.\<close>

lemma fire_due_step:
  assumes X: "cron_ok X" and clk: "mono (sc_clock sch)" and m: "n0 \<le> m"
  shows "set es \<subseteq> set (sc_entries sch) \<Longrightarrow> distinct (map (\<lambda>e. se_id e) es) \<Longrightarrow> m < sw_reads w \<Longrightarrow>
    fires_ok X sch n0 w \<Longrightarrow> list_all2 (cursor_ok X sch n0 w) es cs \<Longrightarrow>
    fire_due X H sch es cs (int (sc_clock sch m)) w = (r, w') \<Longrightarrow>
    fires_ok X sch n0 w' \<and> sw_reads w \<le> sw_reads w' \<and>
    (\<forall>i. i \<notin> (\<lambda>e. se_id e) ` set es \<longrightarrow> occs i w' = occs i w) \<and>
    (\<forall>cs'. r = Inr cs' \<longrightarrow> list_all2 (cursor_ok X sch n0 w') es cs')"
proof (induction es arbitrary: cs w r w')
  case Nil
  then show ?case by auto
next
  case (Cons e es)
  from Cons.prems(5) obtain c cs1 where cs: "cs = c # cs1" "cursor_ok X sch n0 w e c" "list_all2 (cursor_ok X sch n0 w) es cs1"
    by (auto simp: list_all2_Cons1)
  obtain r1 w1 where first: "(if c \<le> int (sc_clock sch m) then fire_advance X H sch e c w else (Inr c, w)) = (r1, w1)" by fastforce
  have e: "e \<in> set (sc_entries sch)" using Cons.prems(1) by simp
  have st: "fires_ok X sch n0 w1 \<and> sw_reads w \<le> sw_reads w1 \<and> (i \<noteq> se_id e \<longrightarrow> occs i w1 = occs i w) \<and>
      (r1 = Inr c' \<longrightarrow> cursor_ok X sch n0 w1 e c')" for i c'
  proof (cases "c \<le> int (sc_clock sch m)")
    case True
    with first have "fire_advance X H sch e c w = (r1, w1)" by simp
    from fire_advance_step [OF X clk e Cons.prems(4) cs(2) True m Cons.prems(3) this] show ?thesis .
  next
    case False
    with first have "r1 = Inr c" "w1 = w" by simp_all
    with Cons.prems(4) cs(2) show ?thesis by auto
  qed
  then have s1: "fires_ok X sch n0 w1" and s2: "sw_reads w \<le> sw_reads w1"
    and s3: "\<And>i. i \<noteq> se_id e \<Longrightarrow> occs i w1 = occs i w" and s4: "\<And>c'. r1 = Inr c' \<Longrightarrow> cursor_ok X sch n0 w1 e c'"
    by blast+
  show ?case
  proof (cases r1)
    case (Inl err)
    with Cons.prems(6) first have "w' = w1" "r = Inl err" by (simp_all add: cs(1))
    with s1 s2 s3 show ?thesis by simp
  next
    case (Inr c1)
    obtain r2 w2 where rest: "fire_due X H sch es cs1 (int (sc_clock sch m)) w1 = (r2, w2)" by fastforce
    have keep: "list_all2 (cursor_ok X sch n0 w1) es cs1"
      using cs(3)
    proof (rule list.rel_mono_strong)
      fix e' c' assume e': "e' \<in> set es" and c': "cursor_ok X sch n0 w e' c'"
      from e' Cons.prems(2) have "se_id e' \<noteq> se_id e" by (simp add: image_iff) metis
      from cursor_ok_later [OF c' s3 [OF this] s2] show "cursor_ok X sch n0 w1 e' c'" .
    qed
    have "m < sw_reads w1" using Cons.prems(3) s2 by simp
    from Cons.IH [OF _ _ this s1 keep rest] Cons.prems(1,2)
    have ih: "fires_ok X sch n0 w2" "sw_reads w1 \<le> sw_reads w2"
      "\<And>i. i \<notin> (\<lambda>e. se_id e) ` set es \<Longrightarrow> occs i w2 = occs i w1"
      "\<And>cs'. r2 = Inr cs' \<Longrightarrow> list_all2 (cursor_ok X sch n0 w2) es cs'"
      by simp_all
    from Cons.prems(6) first Inr rest have out: "w' = w2" "r = (case r2 of Inl err \<Rightarrow> Inl err | Inr cs' \<Rightarrow> Inr (c1 # cs'))"
      by (auto simp: cs(1) split: sum.splits)
    have "cursor_ok X sch n0 w1 e c1" using s4 Inr by simp
    from cursor_ok_later [OF this ih(3) ih(2)] Cons.prems(2) have "cursor_ok X sch n0 w2 e c1" by simp
    with ih(4) out have "list_all2 (cursor_ok X sch n0 w') (e # es) cs'" if "r = Inr cs'" for cs'
      using that by (auto split: sum.splits)
    moreover have "occs i w' = occs i w" if "i \<notin> (\<lambda>e. se_id e) ` set (e # es)" for i
      using that ih(3) [of i] s3 [of i] out(1) by simp
    ultimately show ?thesis using ih(1,2) s2 out(1) by simp
  qed
qed

lemma sched_loop_step:
  assumes X: "cron_ok X" and clk: "mono (sc_clock sch)" and dist: "distinct (map (\<lambda>e. se_id e) (sc_entries sch))"
  shows "n0 \<le> sw_reads w \<Longrightarrow> fires_ok X sch n0 w \<Longrightarrow> list_all2 (cursor_ok X sch n0 w) (sc_entries sch) cs \<Longrightarrow>
    sched_loop X H sch waits cs w = (out, w') \<Longrightarrow> fires_ok X sch n0 w' \<and> sw_reads w \<le> sw_reads w'"
proof (induction waits arbitrary: cs w)
  case Nil
  then show ?case by simp
next
  case (Cons stop waits)
  show ?case
  proof (cases "cs = [] \<or> stop")
    case True
    show ?thesis
    proof (cases cs)
      case Nil
      with True Cons show ?thesis by (auto split: if_splits)
    next
      case (Cons c cs1)
      with True have stop by simp
      obtain n w1 where n: "now_utc X sch w = (n, w1)" by fastforce
      note nu = now_utc_spec(1) [OF X n]
      have "sw_fires w' = sw_fires w" "sw_reads w' = Suc (sw_reads w)"
        using Cons.prems(4) \<open>cs = c # cs1\<close> \<open>stop\<close> n nu by (auto simp: Let_def split: sum.splits)
      with fires_ok_later [OF Cons.prems(2) _ _ clk] show ?thesis by simp
    qed
  next
    case False
    then obtain c cs1 where cs: "cs = c # cs1" and stop: "\<not> stop" by (cases cs) auto
    obtain n1 w1 where n1: "now_utc X sch w = (n1, w1)" by fastforce
    note u1 = now_utc_spec(1) [OF X n1]
    show ?thesis
    proof (cases n1)
      case (Inl err)
      with Cons.prems(4) cs n1 have "w' = w1" by simp
      with u1 fires_ok_later [OF Cons.prems(2) _ _ clk, of w1] show ?thesis by simp
    next
      case (Inr now)
      define w2 where "w2 = w1\<lparr> sw_waits := sw_waits w1 @ [sleep_wait (foldl min c cs1) now] \<rparr>"
      obtain n2 w3 where n2: "now_utc X sch w2 = (n2, w3)" by fastforce
      note u2 = now_utc_spec [OF X n2]
      have w3: "sw_fires w3 = sw_fires w" "sw_reads w2 = Suc (sw_reads w)" "sw_reads w3 = Suc (Suc (sw_reads w))"
        using u1 u2(1) by (simp_all add: w2_def)
      note ok3 = fires_ok_later [OF Cons.prems(2) w3(1) _ clk]
      show ?thesis
      proof (cases n2)
        case (Inl err)
        with Cons.prems(4) cs n1 Inr stop n2 have "w' = w3" by (simp add: w2_def Let_def)
        with ok3 w3 show ?thesis by simp
      next
        case now': (Inr now')
        have t: "now' = int (sc_clock sch (sw_reads w2))" using u2(2) now' by simp
        obtain r w4 where fd: "fire_due X H sch (sc_entries sch) cs now' w3 = (r, w4)" by fastforce
        have keep: "list_all2 (cursor_ok X sch n0 w3) (sc_entries sch) cs"
          using Cons.prems(3) by (rule list_all2_mono) (rule cursor_ok_later, auto simp: occs_cong [OF w3(1)] w3)
        have m: "n0 \<le> sw_reads w2" "sw_reads w2 < sw_reads w3" using Cons.prems(1) w3 by simp_all
        have ok3': "fires_ok X sch n0 w3" using ok3 w3 by simp
        note st = fire_due_step [OF X clk m(1) subset_refl dist m(2) ok3' keep fd [unfolded t]]
        have res: "sched_loop X H sch (stop # waits) cs w =
          (case r of Inl err \<Rightarrow> (Some (Inl err), w4) | Inr cs' \<Rightarrow> sched_loop X H sch waits cs' w4)"
          using cs n1 Inr stop n2 now' fd by (simp add: w2_def Let_def)
        show ?thesis
        proof (cases r)
          case (Inl err)
          with res Cons.prems(4) st w3 show ?thesis by simp
        next
          case (Inr cs')
          have "n0 \<le> sw_reads w4" "sw_reads w \<le> sw_reads w4" using m st w3 by simp_all
          with Cons.IH [of w4 cs'] st Inr res Cons.prems(4) show ?thesis by simp
        qed
      qed
    qed
  qed
qed

lemma sched_loop_returns: "True \<in> set waits \<Longrightarrow> fst (sched_loop X H sch waits cs w) \<noteq> None"
proof (induction waits arbitrary: cs w)
  case (Cons stop waits)
  then show ?case by (cases cs) (auto simp: Let_def split: prod.split sum.split)
qed simp

lemma seed_cursors_ok:
  assumes "seed_cursors X es (int (sc_clock sch n)) = Inr cs" and "n0 \<le> n" and "n < sw_reads w" and "sw_fires w = []"
  shows "list_all2 (cursor_ok X sch n0 w) es cs"
  using assms(1)
proof (induction es arbitrary: cs)
  case (Cons e es)
  then obtain c cs1 where "next_after X e (int (sc_clock sch n)) = Inr c" "seed_cursors X es (int (sc_clock sch n)) = Inr cs1"
    "cs = c # cs1" by (auto split: sum.splits)
  with Cons.IH [of cs1] assms(2-4) show ?case
    by (auto simp: cursor_ok_def due_after_def occs_def next_after_def split: option.splits)
qed simp

text \<open>C28: what a scheduler fires.  With a clock that never goes back, and whatever the store answers and
  other instances do to it, a run of the daemon fires the occurrences of each schedule in strictly
  increasing order, so none twice; each fired instant is an occurrence its cron expression has after
  some reading of the clock, lies strictly after the time of the start (what fell at or
  before it is not fired) and is never fired before its time.  Once the shutdown signal ends a wait the daemon
  has returned.\<close>

theorem scheduler_fires_in_order:
  assumes "cron_ok X" and "mono (sc_clock sch)" and "distinct (map (\<lambda>e. se_id e) (sc_entries sch))"
    and "sw_fires w = []" and "sched_run X H sch waits w = (out, w')"
  shows "sorted_wrt (<) (occs i w') \<and>
    (\<forall>f\<in>set (sw_fires w'). int (sc_clock sch (sw_reads w)) < fst (snd f) \<and>
       fst (snd f) \<le> int (sc_clock sch (sw_reads w' - 1)) \<and>
       (\<exists>e\<in>set (sc_entries sch). se_id e = fst f \<and> due_after X sch (sw_reads w) (sw_reads w') e (fst (snd f)))) \<and>
    (True \<in> set waits \<longrightarrow> out \<noteq> None)"
proof -
  have ok0: "fires_ok X sch (sw_reads w) u" if "sw_fires u = []" for u
    using that by (simp add: fires_ok_def occs_def)
  obtain n w1 where n: "now_utc X sch w = (n, w1)" by fastforce
  note nu = now_utc_spec [OF assms(1) n]
  have w1: "sw_fires w1 = []" "sw_reads w1 = Suc (sw_reads w)" using nu(1) assms(4) by simp_all
  have "fires_ok X sch (sw_reads w) w'"
  proof (cases "sc_entries sch = []")
    case True
    with sched_loop_step [OF assms(1-3) order_refl ok0 [OF assms(4)], of "[]" H waits out w'] assms(5) show ?thesis
      by (simp add: sched_run_def)
  next
    case False
    show ?thesis
    proof (cases n)
      case (Inl err)
      with False n assms(5) ok0 [OF w1(1)] show ?thesis by (simp add: sched_run_def)
    next
      case (Inr t)
      show ?thesis
      proof (cases "seed_cursors X (sc_entries sch) t")
        case (Inl err)
        with False n Inr assms(5) ok0 [OF w1(1)] show ?thesis by (simp add: sched_run_def)
      next
        case seeded: (Inr cs)
        from nu(2) Inr seeded have "seed_cursors X (sc_entries sch) (int (sc_clock sch (sw_reads w))) = Inr cs" by simp
        from seed_cursors_ok [OF this order_refl _ w1(1)] w1(2)
        have "list_all2 (cursor_ok X sch (sw_reads w) w1) (sc_entries sch) cs" by simp
        with sched_loop_step [OF assms(1-3) _ ok0 [OF w1(1)] this] w1(2) False n Inr seeded assms(5) show ?thesis
          by (simp add: sched_run_def)
      qed
    qed
  qed
  moreover have "int (sc_clock sch (sw_reads w)) < c" if "due_after X sch (sw_reads w) k e c" for e c k
  proof -
    from that obtain m where m: "sw_reads w \<le> m" "cr_next X (se_cron e) (se_tz e) (int (sc_clock sch m)) = Some c"
      unfolding due_after_def by blast
    with assms(1) have "int (sc_clock sch m) < c" unfolding cron_ok_def by blast
    with monoD [OF assms(2) m(1)] show ?thesis by linarith
  qed
  moreover have "True \<in> set waits \<longrightarrow> out \<noteq> None"
    using assms(5) sched_loop_returns [of waits X H sch]
    by (auto simp: sched_run_def split: if_splits prod.splits sum.splits) (metis fst_conv)+
  ultimately show ?thesis unfolding fires_ok_def by blast
qed

section \<open>Watermarks\<close>

text \<open>A store that remembers the last claimed occurrence of each schedule with its other data.\<close>

locale watermark_store =
  fixes S :: "'s scheduled_store"
    and mark :: "'s \<Rightarrow> string \<rightharpoonup> int"
    and data :: "'s \<Rightarrow> 'd"
  assumes mark_data: "data s' = data s \<Longrightarrow> mark s' = mark s"
    and won_law: "ss_enqueue_scheduled S t i k job s = (Inr True, s') \<Longrightarrow>
      (\<forall>p. mark s i = Some p \<longrightarrow> p < k) \<and> mark s' = (mark s)(i \<mapsto> k)"
    and lost_law: "ss_enqueue_scheduled S t i k job s = (Inr False, s') \<Longrightarrow>
      (\<exists>p. mark s i = Some p \<and> k \<le> p) \<and> data s' = data s"
    and refused_law: "ss_enqueue_scheduled S t i k job s = (Inl e, s') \<Longrightarrow> data s' = data s"
begin

definition reached :: "string \<Rightarrow> int \<Rightarrow> 's \<Rightarrow> bool" where
  "reached i k s \<longleftrightarrow> (\<exists>p. mark s i = Some p \<and> k \<le> p)"

lemma claim_reaches:
  assumes "ss_enqueue_scheduled S t i k job s = (Inr won, s')"
  shows "reached i k s'"
  using assms won_law [of t i k job s s'] lost_law [of t i k job s s'] mark_data [of s' s]
  by (cases won) (auto simp: reached_def)

lemma claim_keeps:
  assumes "ss_enqueue_scheduled S t j k' job s = (r, s')" and "reached i k s"
  shows "reached i k s'"
proof (cases r)
  case (Inl e)
  with assms refused_law mark_data [of s' s] show ?thesis by (simp add: reached_def)
next
  case (Inr won)
  show ?thesis
  proof (cases won)
    case True
    with won_law [of t j k' job s s'] assms Inr show ?thesis by (cases "i = j") (auto simp: reached_def)
  next
    case False
    with lost_law [of t j k' job s s'] mark_data [of s' s] assms Inr show ?thesis by (simp add: reached_def)
  qed
qed

lemma reached_loses:
  assumes "ss_enqueue_scheduled S t i k' job s = (Inr won, s')" and "reached i k s" and "k' \<le> k"
  shows "\<not> won" and "data s' = data s"
proof -
  show "\<not> won"
  proof
    assume won
    with won_law [of t i k' job s s'] assms show False by (auto simp: reached_def)
  qed
  with lost_law [of t i k' job s s'] assms(1) show "data s' = data s" by simp
qed

end

definition mem_scheduled_store :: "inner scheduled_store" where
  "mem_scheduled_store = \<lparr> ss_enqueue_scheduled = mem_enqueue_scheduled, ss_remove_schedule = mem_remove_schedule \<rparr>"

lemma mem_scheduled_store_simps [simp]:
  "ss_enqueue_scheduled mem_scheduled_store = mem_enqueue_scheduled"
  "ss_remove_schedule mem_scheduled_store = mem_remove_schedule"
  by (simp_all add: mem_scheduled_store_def)

interpretation mem_marks: watermark_store mem_scheduled_store in_schedules "\<lambda>s. s"
proof (unfold_locales, goal_cases)
  case (1 s' s)
  then show ?case by simp
next
  case (2 t i k job s s')
  then have c: "mem_enqueue_scheduled t i k job s = (Inr True, s')" by simp
  from mem_enqueue_scheduled_watermark [OF c] show ?case by (auto simp: fun_eq_iff)
next
  case (3 t i k job s s')
  then show ?case by (auto simp: mem_enqueue_scheduled_def Let_def split: if_splits option.splits)
next
  case (4 t i k job s e s')
  then show ?case by (auto simp: mem_enqueue_scheduled_def Let_def split: if_splits)
qed

text \<open>Claims of other instances, in any order.\<close>

fun run_claims :: "(duration \<times> string \<times> int \<times> new_job) list \<Rightarrow> inner \<Rightarrow> inner" where
  "run_claims [] s = s"
| "run_claims ((t, i, k, job) # cs) s = run_claims cs (snd (mem_enqueue_scheduled t i k job s))"

lemma run_claims_keep: "mem_marks.reached i k s \<Longrightarrow> mem_marks.reached i k (run_claims cs s)"
proof (induction cs s rule: run_claims.induct)
  case (2 t j k' job cs s)
  obtain r s1 where c: "mem_enqueue_scheduled t j k' job s = (r, s1)" by fastforce
  with mem_marks.claim_keeps [of t j k' job s r s1] 2 show ?case by simp
qed simp

lemma mem_claim_answers: "\<exists>won s'. mem_enqueue_scheduled t i k job s = (Inr won, s')"
  unfolding mem_enqueue_scheduled_def Let_def by (metis (full_types))

lemma mem_fire:
  assumes store: "sc_store sch = mem_scheduled_store" and run: "fire H sch e k w = (r, w1)"
  shows "\<exists>won. mem_enqueue_scheduled (sw_store_clock w (sw_calls w)) (se_id e) (timestamp k)
      (scheduled_job H sch e (timestamp k) (hs_uuid H (sw_uuids w))) (sw_others w (sw_calls w) (sw_store w)) =
      (Inr won, sw_store w1) \<and> r = Inr () \<and> sw_fires w1 = sw_fires w @ [(se_id e, k, won)]"
proof -
  from mem_claim_answers obtain won s' where c: "mem_enqueue_scheduled (sw_store_clock w (sw_calls w)) (se_id e) (timestamp k)
      (scheduled_job H sch e (timestamp k) (hs_uuid H (sw_uuids w))) (sw_others w (sw_calls w) (sw_store w)) = (Inr won, s')"
    by blast
  with run have "r = Inr ()" "sw_store w1 = s'" "sw_fires w1 = sw_fires w @ [(se_id e, k, won)]"
    by (auto simp: fire_def Let_def store)
  with c show ?thesis by simp
qed

text \<open>C29: an occurrence is claimed at most once in the cluster.  Two instances, each with its own
  configuration, clock and entry, share the in-memory store and a schedule id.  After the first has
  fired an occurrence, and however many claims of any instances on any schedules come in between,
  the second firing the same or an earlier occurrence returns without an error, is told that the
  occurrence is taken, and leaves the store as it was: no job is enqueued for it.\<close>

theorem scheduler_claims_once:
  assumes "sc_store A = mem_scheduled_store" and "sc_store B = mem_scheduled_store"
    and "se_id e' = se_id e" and "timestamp k' \<le> timestamp k"
    and "fire H A e k w = (r, w1)" and "fire H' B e' k' w' = (r', w1')"
    and "sw_others w' (sw_calls w') (sw_store w') = run_claims cs (sw_store w1)"
  shows "r' = Inr () \<and> sw_fires w1' = sw_fires w' @ [(se_id e', k', False)] \<and> sw_store w1' = run_claims cs (sw_store w1)"
proof -
  from mem_fire [OF assms(1,5)] obtain won where
    "mem_enqueue_scheduled (sw_store_clock w (sw_calls w)) (se_id e) (timestamp k)
      (scheduled_job H A e (timestamp k) (hs_uuid H (sw_uuids w))) (sw_others w (sw_calls w) (sw_store w)) =
      (Inr won, sw_store w1)" by blast
  then have "mem_marks.reached (se_id e) (timestamp k) (sw_store w1)"
    by (intro mem_marks.claim_reaches) simp
  from run_claims_keep [OF this] have reached: "mem_marks.reached (se_id e') (timestamp k) (run_claims cs (sw_store w1))"
    by (simp add: assms(3))
  from mem_fire [OF assms(2,6)] obtain won' where w': "r' = Inr ()" "sw_fires w1' = sw_fires w' @ [(se_id e', k', won')]"
    "mem_enqueue_scheduled (sw_store_clock w' (sw_calls w')) (se_id e') (timestamp k')
      (scheduled_job H' B e' (timestamp k') (hs_uuid H' (sw_uuids w'))) (run_claims cs (sw_store w1)) =
      (Inr won', sw_store w1')" unfolding assms(7) by blast
  from mem_marks.reached_loses [OF _ reached assms(4)] w'(3) have "\<not> won'" "sw_store w1' = run_claims cs (sw_store w1)"
    by simp_all
  with w'(1,2) show ?thesis by simp
qed

section \<open>Witnesses\<close>

text \<open>A schedule every ten seconds, in one time zone.\<close>

definition demo_cron :: "(unit, unit) cron_lib" where
  "demo_cron = \<lparr> cr_parse = (\<lambda>s. Inr ()), cr_next = (\<lambda>c z t. Some ((t div (10 ^ 10) + 1) * 10 ^ 10)),
     cr_from_timestamp = (\<lambda>s n. Some (s * 10 ^ 9 + int n)), cr_utc = () \<rparr>"

lemma demo_cron_ok: "cron_ok demo_cron"
proof -
  have "t < (t div (10 ^ 10) + 1) * 10 ^ 10" for t :: int
  proof -
    have "t = t div 10 ^ 10 * 10 ^ 10 + t mod 10 ^ 10" by simp
    moreover have "t mod 10 ^ 10 < 10 ^ 10" by simp
    ultimately have "t < t div 10 ^ 10 * 10 ^ 10 + 10 ^ 10" by linarith
    then show ?thesis by (simp only: distrib_right mult_1)
  qed
  then show ?thesis by (simp only: cron_ok_def demo_cron_def cron_lib.simps option.inject) blast
qed

definition demo_scheduler :: "(inner, unit, unit) scheduler" where
  "demo_scheduler = (with_scheduled_store demo_cron (\<lambda>n. n * (4 * 10 ^ 9)) mem_scheduled_store)
     \<lparr> sc_entries := [\<lparr> se_id = ''tick'', se_cron = (), se_tz = (), se_lane = demo_lane, se_kind = ''k'', se_payload = [7],
         se_max_attempts = 3, se_dedup = False \<rparr>] \<rparr>"

definition demo_sched_world :: "inner sched_world" where
  "demo_sched_world = \<lparr> sw_store = mem_with_clock, sw_others = (\<lambda>n s. s), sw_store_clock = (\<lambda>n. 0), sw_calls = 0,
     sw_reads = 0, sw_uuids = 0, sw_fires = [], sw_waits = [] \<rparr>"

theorem scheduler_fires_in_order_witness:
  "\<exists>w'. sched_run demo_cron demo_host demo_scheduler [False, False, False, False, True] demo_sched_world = (Some (Inr ()), w') \<and>
     occs ''tick'' w' = [10 ^ 10, 3 * 10 ^ 10] \<and> sorted_wrt (<) (occs ''tick'' w')"
proof -
  have clk: "mono (sc_clock demo_scheduler)"
    by (simp add: demo_scheduler_def with_scheduled_store_def mono_def)
  have ids: "distinct (map (\<lambda>e. se_id e) (sc_entries demo_scheduler))" by (simp add: demo_scheduler_def)
  have none: "sw_fires demo_sched_world = []" by (simp add: demo_sched_world_def)
  obtain out w' where run: "sched_run demo_cron demo_host demo_scheduler [False, False, False, False, True] demo_sched_world = (out, w')"
    by fastforce
  have "fst (sched_run demo_cron demo_host demo_scheduler [False, False, False, False, True] demo_sched_world) = Some (Inr ())"
    by code_simp
  moreover have "occs ''tick'' (snd (sched_run demo_cron demo_host demo_scheduler [False, False, False, False, True] demo_sched_world)) =
      [10 ^ 10, 3 * 10 ^ 10]" by code_simp
  moreover from scheduler_fires_in_order [OF demo_cron_ok clk ids none run, of "''tick''"]
  have "sorted_wrt (<) (occs ''tick'' w')" by (rule conjunct1)
  ultimately show ?thesis using run by simp
qed

theorem scheduler_claims_once_witness:
  "\<exists>w1 w1'. fire demo_host demo_scheduler (hd (sc_entries demo_scheduler)) (10 ^ 10) demo_sched_world = (Inr (), w1) \<and>
     fire demo_host (scheduler_with_resilient True demo_scheduler) (hd (sc_entries demo_scheduler)) (10 ^ 10)
       (demo_sched_world\<lparr> sw_store := sw_store w1 \<rparr>) = (Inr (), w1') \<and>
     sw_fires w1 = [(''tick'', 10 ^ 10, True)] \<and> sw_fires w1' = [(''tick'', 10 ^ 10, False)] \<and> sw_store w1' = sw_store w1"
proof -
  let ?e = "hd (sc_entries demo_scheduler)" and ?B = "scheduler_with_resilient True demo_scheduler"
  have st: "sc_store demo_scheduler = mem_scheduled_store" "sc_store ?B = mem_scheduled_store"
    by (simp_all add: demo_scheduler_def with_scheduled_store_def scheduler_with_resilient_def)
  have id: "se_id ?e = ''tick''" by (simp add: demo_scheduler_def)
  obtain r w1 where a: "fire demo_host demo_scheduler ?e (10 ^ 10) demo_sched_world = (r, w1)" by fastforce
  obtain r' w1' where b: "fire demo_host ?B ?e (10 ^ 10) (demo_sched_world\<lparr> sw_store := sw_store w1 \<rparr>) = (r', w1')" by fastforce
  have "fst (fire demo_host demo_scheduler ?e (10 ^ 10) demo_sched_world) = Inr ()" by code_simp
  moreover have "sw_fires (snd (fire demo_host demo_scheduler ?e (10 ^ 10) demo_sched_world)) = [(''tick'', 10 ^ 10, True)]"
    by code_simp
  moreover have s: "sw_others (demo_sched_world\<lparr> sw_store := sw_store w1 \<rparr>) (sw_calls (demo_sched_world\<lparr> sw_store := sw_store w1 \<rparr>))
      (sw_store (demo_sched_world\<lparr> sw_store := sw_store w1 \<rparr>)) = run_claims [] (sw_store w1)"
    by (simp add: demo_sched_world_def)
  have n: "sw_fires (demo_sched_world\<lparr> sw_store := sw_store w1 \<rparr>) = []" by (simp add: demo_sched_world_def)
  from scheduler_claims_once [OF st refl order_refl a b s] a b id n calculation show ?thesis by simp
qed

end
