(* ===== verification/Sqlite_Broker.thy ===== *)
theory Sqlite_Broker
  imports Broker_Contract Retention Claim_Check
begin

text \<open>
  The SQLite broker, the crate \<^verbatim>\<open>worklane-sqlite\<close>.  The database is its five tables, each the
  list of its rows in \<^verbatim>\<open>rowid\<close> order; a statement of the sources is a function on the tables.
  The engine may refuse any statement: \<open>sq_faults\<close> is the script of its answers, \<open>Some\<close> the text of
  the \<^verbatim>\<open>rusqlite\<close> error.  An operation is a state transformer with a result (\<open>sql_then\<close> is what
  \<^verbatim>\<open>?\<close> does), and \<open>transaction\<close> is \<^verbatim>\<open>unchecked_transaction\<close> up to \<^verbatim>\<open>commit\<close>: on any error
  the tables are as they were.  The transactions are immediate (the write lock is taken at
  \<^verbatim>\<open>BEGIN\<close>), so an operation is one step.  \<^verbatim>\<open>serde_json\<close> and the text of a UUID are the
  parameter \<open>codec\<close>.
\<close>

record job_row =
  jr_seq :: int
  jr_id :: string
  jr_receipt :: "string option"
  jr_lane :: string
  jr_priority :: int
  jr_available_at :: int
  jr_leased_until :: "int option"
  jr_envelope :: bytes
  jr_deliveries :: int

record dead_row =
  dr_seq :: int
  dr_id :: string
  dr_lane :: string
  dr_envelope :: bytes
  dr_error :: string
  dr_unique_key :: "string option"
  dr_dead_at :: int

record sqlite_db =
  db_version :: int
  db_jobs :: "job_row list"
  db_dead :: "dead_row list"
  db_unique_keys :: "(string \<times> int) list"
  db_results :: "string \<rightharpoonup> bytes"
  db_schedules :: "string \<rightharpoonup> int"

text \<open>The broker's database, the script of the engine, and the one-shot flag of the retention
  warning.\<close>

record sqlite_state =
  sq_db :: sqlite_db
  sq_faults :: "string option list"
  sq_dlq_warned :: bool

record codec =
  cd_to_vec :: "job_envelope \<Rightarrow> string + bytes"
  cd_from_slice :: "bytes \<Rightarrow> string + job_envelope"
  cd_receipt :: "receipt \<Rightarrow> string + string"
  cd_uuid :: uuid_codec

datatype conn_pool = FilePool | MemoryPool

record sqlite_config =
  sb_codec :: codec
  sb_pool :: conn_pool
  sb_lease :: duration
  sb_retention :: retention_policy
  sb_max_deliveries :: "u32 option"

abbreviation sb_encode :: "sqlite_config \<Rightarrow> job_envelope \<Rightarrow> bytes result" where
  "sb_encode cfg \<equiv> encode_envelope (cd_to_vec (sb_codec cfg))"

abbreviation sb_decode :: "sqlite_config \<Rightarrow> bytes \<Rightarrow> job_envelope result" where
  "sb_decode cfg \<equiv> decode_envelope (cd_from_slice (sb_codec cfg))"

abbreviation sb_receipt :: "sqlite_config \<Rightarrow> receipt \<Rightarrow> string result" where
  "sb_receipt cfg \<equiv> receipt_key (cd_receipt (sb_codec cfg))"

abbreviation sb_id :: "sqlite_config \<Rightarrow> job_id \<Rightarrow> string" where
  "sb_id cfg i \<equiv> uc_show (cd_uuid (sb_codec cfg)) (job_uuid i)"

section \<open>Statements and transactions\<close>

type_synonym 'a sql = "sqlite_state \<Rightarrow> 'a result \<times> sqlite_state"

definition sql_ok :: "'a \<Rightarrow> 'a sql" where
  "sql_ok x s = (Inr x, s)"

definition sql_lift :: "'a result \<Rightarrow> 'a sql" where
  "sql_lift r s = (r, s)"

definition sql_then :: "'a sql \<Rightarrow> ('a \<Rightarrow> 'b sql) \<Rightarrow> 'b sql" where
  "sql_then m f s = (case m s of (Inl e, s') \<Rightarrow> (Inl e, s') | (Inr x, s') \<Rightarrow> f x s')"

definition sql_err :: "string \<Rightarrow> error" where
  "sql_err e = Broker [Lit (redact_credentials e)]"

text \<open>One call into the engine: its answer is taken from the script (an exhausted script answers
  every call), then the statement runs, with the error of a violated constraint on the left.\<close>

definition sql_stmt :: "(string \<Rightarrow> error) \<Rightarrow> (sqlite_db \<Rightarrow> string + 'a \<times> sqlite_db) \<Rightarrow> 'a sql" where
  "sql_stmt err f s =
     (let s1 = s\<lparr> sq_faults := tl (sq_faults s) \<rparr> in
      case sq_faults s of
        Some e # _ \<Rightarrow> (Inl (err e), s1)
      | _ \<Rightarrow> (case f (sq_db s) of
                Inl e \<Rightarrow> (Inl (err e), s1)
              | Inr (x, db) \<Rightarrow> (Inr x, s1\<lparr> sq_db := db \<rparr>)))"

definition sql_query :: "(sqlite_db \<Rightarrow> 'a) \<Rightarrow> 'a sql" where
  "sql_query q = sql_stmt sql_err (\<lambda>db. Inr (q db, db))"

definition sql_exec :: "(sqlite_db \<Rightarrow> sqlite_db) \<Rightarrow> unit sql" where
  "sql_exec f = sql_stmt sql_err (\<lambda>db. Inr ((), f db))"

definition transaction :: "'a sql \<Rightarrow> 'a sql" where
  "transaction body =
     sql_then (sql_exec id) (\<lambda>_ s.
       case sql_then body (\<lambda>x. sql_then (sql_exec id) (\<lambda>_. sql_ok x)) s of
         (Inl e, s') \<Rightarrow> (Inl e, s'\<lparr> sq_db := sq_db s \<rparr>)
       | (Inr x, s') \<Rightarrow> (Inr x, s'))"

text \<open>A pooled connection is checked out first; the checkout has its own error.\<close>

definition with_conn :: "conn_pool \<Rightarrow> 'a sql \<Rightarrow> 'a sql" where
  "with_conn pool f =
     (case pool of
        FilePool \<Rightarrow>
          sql_then (sql_stmt (\<lambda>e. Broker [Lit ''sqlite pool checkout failed: '', Lit e]) (\<lambda>db. Inr ((), db)))
            (\<lambda>_. f)
      | MemoryPool \<Rightarrow> f)"

section \<open>Opening a database\<close>

definition sqlite_fresh_db :: sqlite_db where
  "sqlite_fresh_db =
     \<lparr> db_version = 0, db_jobs = [], db_dead = [], db_unique_keys = [], db_results = Map.empty,
       db_schedules = Map.empty \<rparr>"

text \<open>The baseline creates tables and indexes that do not exist yet; the tables of a fresh
  database are empty before as after.\<close>

definition BASELINE_STATEMENTS :: nat where "BASELINE_STATEMENTS = 10"

primrec sql_repeat :: "nat \<Rightarrow> unit sql \<Rightarrow> unit sql" where
  "sql_repeat 0 m = sql_ok ()"
| "sql_repeat (Suc n) m = sql_then m (\<lambda>_. sql_repeat n m)"

definition migrate :: "unit sql" where
  "migrate =
     sql_then (sql_query db_version) (\<lambda>version.
       case check_schema_version (if version \<noteq> 0 then Some version else None) of
         Fresh \<Rightarrow>
           sql_then (sql_repeat BASELINE_STATEMENTS (sql_exec id)) (\<lambda>_.
             sql_exec (\<lambda>db. db\<lparr> db_version := SCHEMA_VERSION \<rparr>))
       | Match \<Rightarrow> sql_ok ()
       | Mismatch v \<Rightarrow> sql_lift (Inl (Broker [Lit ''sqlite storage schema version '', FInt v,
           Lit '' is not the supported baseline '', FInt SCHEMA_VERSION,
           Lit ''; worklane is pre-1.0 and does not migrate between schema generations '',
           Lit [CHR 0xE2, CHR 0x80, CHR 0x94], Lit '' drop and recreate the database''])))"

definition configure :: "unit sql" where
  "configure = sql_exec id"

definition sqlite_with_pool :: "codec \<Rightarrow> conn_pool \<Rightarrow> sqlite_config" where
  "sqlite_with_pool K pool =
     \<lparr> sb_codec = K, sb_pool = pool, sb_lease = DEFAULT_LEASE, sb_retention = retention_new,
       sb_max_deliveries = None \<rparr>"

definition sqlite_open_with_pool_size :: "codec \<Rightarrow> sqlite_config sql" where
  "sqlite_open_with_pool_size K =
     sql_then (sql_stmt (\<lambda>e. Broker [Lit ''sqlite pool build failed: '', Lit e]) (\<lambda>db. Inr ((), db))) (\<lambda>_.
     sql_then (with_conn FilePool migrate) (\<lambda>_.
       sql_ok (sqlite_with_pool K FilePool)))"

definition sqlite_open_in_memory :: "codec \<Rightarrow> sqlite_config sql" where
  "sqlite_open_in_memory K =
     sql_then (sql_exec id) (\<lambda>_.
     sql_then configure (\<lambda>_.
     sql_then migrate (\<lambda>_.
       sql_ok (sqlite_with_pool K MemoryPool))))"

definition sqlite_with_lease :: "duration \<Rightarrow> sqlite_config \<Rightarrow> sqlite_config" where
  "sqlite_with_lease l cfg = cfg\<lparr> sb_lease := l \<rparr>"

definition sqlite_with_dead_letter_retention :: "retention_policy \<Rightarrow> sqlite_config \<Rightarrow> sqlite_config" where
  "sqlite_with_dead_letter_retention p cfg = cfg\<lparr> sb_retention := p \<rparr>"

definition sqlite_with_max_deliveries :: "u32 \<Rightarrow> sqlite_config \<Rightarrow> sqlite_config" where
  "sqlite_with_max_deliveries m cfg = cfg\<lparr> sb_max_deliveries := Some m \<rparr>"

section \<open>Jobs\<close>

text \<open>The next \<^verbatim>\<open>rowid\<close> of a table: one more than the largest in use.\<close>

definition next_rowid :: "int list \<Rightarrow> int" where
  "next_rowid seqs = fold max seqs 0 + 1"

definition find_valid_row :: "sqlite_config \<Rightarrow> receipt \<Rightarrow> int \<Rightarrow> (int \<times> bytes) sql" where
  "find_valid_row cfg r now =
     sql_then (sql_lift (sb_receipt cfg r)) (\<lambda>key.
     sql_then (sql_query (\<lambda>db. find (\<lambda>row. jr_receipt row = Some key) (db_jobs db))) (\<lambda>row.
       case row of
         Some row \<Rightarrow>
           (case jr_leased_until row of
              Some leased_until \<Rightarrow>
                if leased_until > now then sql_ok (jr_seq row, jr_envelope row) else sql_lift (Inl (stale r))
            | None \<Rightarrow> sql_lift (Inl (stale r)))
       | None \<Rightarrow> sql_lift (Inl (stale r))))"

text \<open>\<^verbatim>\<open>INSERT INTO jobs\<close> with \<^verbatim>\<open>ON CONFLICT(id) DO NOTHING\<close> (\<^verbatim>\<open>OR IGNORE\<close> in \<open>requeue\<close>): the
  \<^verbatim>\<open>rowid\<close> of the row, or nothing where the id is taken.\<close>

definition insert_row :: "string \<Rightarrow> string \<Rightarrow> int \<Rightarrow> int \<Rightarrow> bytes \<Rightarrow> sqlite_db \<Rightarrow> int option \<times> sqlite_db" where
  "insert_row i lane priority available_at blob db =
     (if list_ex (\<lambda>row. jr_id row = i) (db_jobs db) then (None, db)
      else let seq = next_rowid (map jr_seq (db_jobs db)) in
        (Some seq,
         db\<lparr> db_jobs := db_jobs db @
           [\<lparr> jr_seq = seq, jr_id = i, jr_receipt = None, jr_lane = lane, jr_priority = priority,
              jr_available_at = available_at, jr_leased_until = None, jr_envelope = blob,
              jr_deliveries = 0 \<rparr>] \<rparr>))"

definition key_taken :: "string \<Rightarrow> sqlite_db \<Rightarrow> bool" where
  "key_taken key db \<longleftrightarrow> key \<in> set (map fst (db_unique_keys db))"

definition add_key :: "string \<Rightarrow> int \<Rightarrow> sqlite_db \<Rightarrow> sqlite_db" where
  "add_key key seq db = db\<lparr> db_unique_keys := db_unique_keys db @ [(key, seq)] \<rparr>"

definition insert_unique_key :: "string \<Rightarrow> int \<Rightarrow> unit sql" where
  "insert_unique_key key seq =
     sql_stmt sql_err (\<lambda>db.
       if key_taken key db then Inl ''UNIQUE constraint failed: unique_keys.unique_key''
       else Inr ((), add_key key seq db))"

text \<open>The join of \<^verbatim>\<open>unique_keys\<close> with \<^verbatim>\<open>jobs\<close>: the envelope of the live job that holds the key.\<close>

definition key_holder :: "string \<Rightarrow> sqlite_db \<Rightarrow> bytes option" where
  "key_holder key db =
     (case List.map_filter (\<lambda>(k, seq). if k = key then find (\<lambda>row. jr_seq row = seq) (db_jobs db) else None)
             (db_unique_keys db) of
        row # _ \<Rightarrow> Some (jr_envelope row)
      | [] \<Rightarrow> None)"

definition insert_job :: "sqlite_config \<Rightarrow> new_job \<Rightarrow> int \<Rightarrow> job_id sql" where
  "insert_job cfg job available_at =
     sql_then (case nj_unique_key job of Some key \<Rightarrow> sql_query (key_holder key) | None \<Rightarrow> sql_ok None) (\<lambda>existing.
       case existing of
         Some blob \<Rightarrow> sql_then (sql_lift (sb_decode cfg blob)) (\<lambda>envelope. sql_ok (env_id envelope))
       | None \<Rightarrow>
           (let envelope = into_envelope job in
            sql_then (sql_lift (sb_encode cfg envelope)) (\<lambda>blob.
            sql_then (sql_stmt sql_err (\<lambda>db. Inr (insert_row (sb_id cfg (nj_id job))
                (lane_str (env_lane envelope)) (int (unat (env_priority envelope))) available_at blob db))) (\<lambda>inserted.
              case inserted of
                None \<Rightarrow> sql_ok (nj_id job)
              | Some seq \<Rightarrow>
                  sql_then (case nj_unique_key job of Some key \<Rightarrow> insert_unique_key key seq | None \<Rightarrow> sql_ok ())
                    (\<lambda>_. sql_ok (nj_id job))))))"

primrec insert_jobs :: "sqlite_config \<Rightarrow> duration \<Rightarrow> new_job list \<Rightarrow> job_id list sql" where
  "insert_jobs cfg now [] = sql_ok []"
| "insert_jobs cfg now (job # jobs) =
     sql_then (insert_job cfg job (nanos (dur_saturating_add now (nj_delay job)))) (\<lambda>i.
     sql_then (insert_jobs cfg now jobs) (\<lambda>ids. sql_ok (i # ids)))"

section \<open>Dead letters\<close>

definition free_unique_key :: "int \<Rightarrow> unit sql" where
  "free_unique_key seq = sql_exec (\<lambda>db. db\<lparr> db_unique_keys := filter (\<lambda>(k, n). n \<noteq> seq) (db_unique_keys db) \<rparr>)"

definition delete_job :: "int \<Rightarrow> unit sql" where
  "delete_job seq = sql_exec (\<lambda>db. db\<lparr> db_jobs := filter (\<lambda>row. jr_seq row \<noteq> seq) (db_jobs db) \<rparr>)"

definition prune_by_age :: "string \<Rightarrow> int \<Rightarrow> sqlite_db \<Rightarrow> sqlite_db" where
  "prune_by_age lane cutoff db =
     db\<lparr> db_dead := filter (\<lambda>d. \<not> (dr_lane d = lane \<and> dr_dead_at d < cutoff)) (db_dead db) \<rparr>"

definition prune_by_count :: "string \<Rightarrow> int \<Rightarrow> sqlite_db \<Rightarrow> sqlite_db" where
  "prune_by_count lane keep db =
     (let kept = take (nat keep) (rev (sort (map dr_seq (filter (\<lambda>d. dr_lane d = lane) (db_dead db)))))
      in db\<lparr> db_dead := filter (\<lambda>d. \<not> (dr_lane d = lane \<and> dr_seq d \<notin> set kept)) (db_dead db) \<rparr>)"

definition prune_dead_letters :: "string \<Rightarrow> retention_policy \<Rightarrow> int \<Rightarrow> unit sql" where
  "prune_dead_letters lane policy now =
     (if is_unbounded policy then sql_ok ()
      else
        sql_then (case age_cutoff_nanos policy now of
            Some cutoff \<Rightarrow> sql_exec (prune_by_age lane cutoff) | None \<Rightarrow> sql_ok ()) (\<lambda>_.
          case keep_count policy of
            Some keep \<Rightarrow> sql_exec (prune_by_count lane keep) | None \<Rightarrow> sql_ok ()))"

definition insert_dead :: "string \<Rightarrow> string \<Rightarrow> bytes \<Rightarrow> string \<Rightarrow> string option \<Rightarrow> int \<Rightarrow> unit sql" where
  "insert_dead i lane blob err key now =
     sql_stmt sql_err (\<lambda>db.
       if list_ex (\<lambda>d. dr_id d = i) (db_dead db) then Inl ''UNIQUE constraint failed: dead.id''
       else Inr ((), db\<lparr> db_dead := db_dead db @
         [\<lparr> dr_seq = next_rowid (map dr_seq (db_dead db)), dr_id = i, dr_lane = lane, dr_envelope = blob,
            dr_error = err, dr_unique_key = key, dr_dead_at = now \<rparr>] \<rparr>))"

definition key_of_seq :: "int \<Rightarrow> sqlite_db \<Rightarrow> string option" where
  "key_of_seq seq db = map_option fst (find (\<lambda>(k, n). n = seq) (db_unique_keys db))"

definition dead_letter_seq :: "sqlite_config \<Rightarrow> int \<Rightarrow> bytes \<Rightarrow> string \<Rightarrow> int \<Rightarrow> unit sql" where
  "dead_letter_seq cfg seq blob err now =
     sql_then (sql_lift (sb_decode cfg blob)) (\<lambda>envelope.
     sql_then (sql_query (key_of_seq seq)) (\<lambda>key.
     sql_then (insert_dead (sb_id cfg (env_id envelope)) (lane_str (env_lane envelope)) blob err key now) (\<lambda>_.
     sql_then (free_unique_key seq) (\<lambda>_.
     sql_then (delete_job seq) (\<lambda>_.
       prune_dead_letters (lane_str (env_lane envelope)) (sb_retention cfg) now)))))"

section \<open>The operations of the broker\<close>

definition sqlite_enqueue_with_tx :: "sqlite_config \<Rightarrow> duration \<Rightarrow> new_job \<Rightarrow> job_id sql" where
  "sqlite_enqueue_with_tx cfg now job = insert_job cfg job (nanos (dur_saturating_add now (nj_delay job)))"

definition sqlite_enqueue :: "sqlite_config \<Rightarrow> duration \<Rightarrow> new_job \<Rightarrow> job_id sql" where
  "sqlite_enqueue cfg now job =
     with_conn (sb_pool cfg)
       (transaction (insert_job cfg job (nanos (dur_saturating_add now (nj_delay job)))))"

definition sqlite_enqueue_batch :: "sqlite_config \<Rightarrow> duration \<Rightarrow> new_job list \<Rightarrow> job_id list sql" where
  "sqlite_enqueue_batch cfg now jobs = with_conn (sb_pool cfg) (transaction (insert_jobs cfg now jobs))"

definition row_visible :: "string \<Rightarrow> int \<Rightarrow> job_row \<Rightarrow> bool" where
  "row_visible lane now row \<longleftrightarrow>
     jr_lane row = lane \<and> jr_available_at row \<le> now \<and>
     (case jr_leased_until row of None \<Rightarrow> True | Some until \<Rightarrow> until \<le> now)"

text \<open>\<^verbatim>\<open>ORDER BY priority DESC, available_at ASC, seq ASC LIMIT 1\<close>.\<close>

definition row_before :: "job_row \<Rightarrow> job_row \<Rightarrow> bool" where
  "row_before a b \<longleftrightarrow>
     jr_priority a > jr_priority b \<or>
     (jr_priority a = jr_priority b \<and>
      (jr_available_at a < jr_available_at b \<or>
       (jr_available_at a = jr_available_at b \<and> jr_seq a < jr_seq b)))"

fun first_row :: "job_row list \<Rightarrow> job_row option" where
  "first_row [] = None"
| "first_row (row # rows) =
     (case first_row rows of
        None \<Rightarrow> Some row
      | Some best \<Rightarrow> if row_before best row then Some best else Some row)"

definition next_candidate :: "string \<Rightarrow> int \<Rightarrow> sqlite_db \<Rightarrow> job_row option" where
  "next_candidate lane now db = first_row (filter (row_visible lane now) (db_jobs db))"

definition update_row :: "int \<Rightarrow> (job_row \<Rightarrow> job_row) \<Rightarrow> sqlite_db \<Rightarrow> sqlite_db" where
  "update_row seq f db = db\<lparr> db_jobs := map (\<lambda>row. if jr_seq row = seq then f row else row) (db_jobs db) \<rparr>"

definition lease_row :: "string \<Rightarrow> int \<Rightarrow> job_row \<Rightarrow> job_row" where
  "lease_row key until row =
     row\<lparr> jr_receipt := Some key, jr_leased_until := Some until, jr_deliveries := jr_deliveries row + 1 \<rparr>"

text \<open>The unbounded path: one \<^verbatim>\<open>UPDATE ... RETURNING envelope\<close>.\<close>

definition lease_next :: "string \<Rightarrow> int \<Rightarrow> string \<Rightarrow> int \<Rightarrow> bytes option sql" where
  "lease_next key until lane now =
     sql_stmt sql_err (\<lambda>db. Inr
       (case next_candidate lane now db of
          None \<Rightarrow> (None, db)
        | Some row \<Rightarrow> (Some (jr_envelope row), update_row (jr_seq row) (lease_row key until) db)))"

text \<open>The bounded path: the loop with the number of dead letters it may still sweep.\<close>

primrec sweep_loop ::
  "sqlite_config \<Rightarrow> receipt \<Rightarrow> string \<Rightarrow> int \<Rightarrow> string \<Rightarrow> int \<Rightarrow> u32 \<Rightarrow> nat \<Rightarrow> reservation option sql" where
  "sweep_loop cfg r key until lane now max_d 0 = sql_ok None"
| "sweep_loop cfg r key until lane now max_d (Suc n) =
     sql_then (sql_query (next_candidate lane now)) (\<lambda>row.
       case row of
         None \<Rightarrow> sql_ok None
       | Some row \<Rightarrow>
           if min I64_MAX (jr_deliveries row + 1) > int (unat max_d)
           then sql_then (dead_letter_seq cfg (jr_seq row) (jr_envelope row)
                  (''exceeded max deliveries ('' @ show_nat (unat max_d) @ '')'') now) (\<lambda>_.
                  sweep_loop cfg r key until lane now max_d n)
           else sql_then (sql_exec (update_row (jr_seq row) (lease_row key until))) (\<lambda>_.
                sql_then (sql_lift (sb_decode cfg (jr_envelope row))) (\<lambda>envelope.
                  sql_ok (Some (reservation_new envelope r (sb_lease cfg))))))"

definition sqlite_reserve :: "sqlite_config \<Rightarrow> duration \<Rightarrow> receipt \<Rightarrow> lane \<Rightarrow> reservation option sql" where
  "sqlite_reserve cfg now r lane =
     (let until = nanos (dur_saturating_add now (sb_lease cfg)) in
      with_conn (sb_pool cfg)
        (sql_then (sql_lift (sb_receipt cfg r)) (\<lambda>key.
           case sb_max_deliveries cfg of
             None \<Rightarrow>
               sql_then (lease_next key until (lane_str lane) (nanos now)) (\<lambda>blob.
                 case blob of
                   Some b \<Rightarrow> sql_then (sql_lift (sb_decode cfg b)) (\<lambda>envelope.
                     sql_ok (Some (reservation_new envelope r (sb_lease cfg))))
                 | None \<Rightarrow> sql_ok None)
           | Some max_d \<Rightarrow>
               transaction (sweep_loop cfg r key until (lane_str lane) (nanos now) max_d MAX_DEAD_LETTER_SWEEP))))"

definition sqlite_ack :: "sqlite_config \<Rightarrow> duration \<Rightarrow> receipt \<Rightarrow> unit sql" where
  "sqlite_ack cfg now r =
     with_conn (sb_pool cfg) (transaction
       (sql_then (find_valid_row cfg r (nanos now)) (\<lambda>(seq, _).
        sql_then (free_unique_key seq) (\<lambda>_. delete_job seq))))"

definition reschedule_row :: "int \<Rightarrow> job_row \<Rightarrow> job_row" where
  "reschedule_row available_at row =
     row\<lparr> jr_available_at := available_at, jr_leased_until := None, jr_receipt := None \<rparr>"

definition sqlite_retry :: "sqlite_config \<Rightarrow> duration \<Rightarrow> receipt \<Rightarrow> duration \<Rightarrow> unit sql" where
  "sqlite_retry cfg now r delay =
     with_conn (sb_pool cfg) (transaction
       (sql_then (find_valid_row cfg r (nanos now)) (\<lambda>(seq, blob).
        sql_then (sql_lift (sb_decode cfg blob)) (\<lambda>envelope.
        sql_then (sql_lift (sb_encode cfg (bump_attempts envelope))) (\<lambda>new_blob.
          sql_exec (update_row seq (\<lambda>row.
            reschedule_row (nanos (dur_saturating_add now delay)) row\<lparr> jr_envelope := new_blob \<rparr>)))))))"

definition sqlite_defer :: "sqlite_config \<Rightarrow> duration \<Rightarrow> receipt \<Rightarrow> duration \<Rightarrow> unit sql" where
  "sqlite_defer cfg now r delay =
     with_conn (sb_pool cfg) (transaction
       (sql_then (find_valid_row cfg r (nanos now)) (\<lambda>(seq, blob).
          sql_exec (update_row seq (reschedule_row (nanos (dur_saturating_add now delay)))))))"

definition sqlite_fail :: "sqlite_config \<Rightarrow> duration \<Rightarrow> receipt \<Rightarrow> string \<Rightarrow> unit sql" where
  "sqlite_fail cfg now r err s =
     with_conn (sb_pool cfg) (transaction
       (sql_then (find_valid_row cfg r (nanos now)) (\<lambda>(seq, blob).
          dead_letter_seq cfg seq blob err (nanos now))))
       (s\<lparr> sq_dlq_warned := snd (warn_once (sb_retention cfg) (sq_dlq_warned s)) \<rparr>)"

text \<open>The guarded \<^verbatim>\<open>UPDATE\<close> of \<open>extend\<close> and the number of rows it changed.\<close>

definition extend_rows :: "string \<Rightarrow> int \<Rightarrow> int \<Rightarrow> sqlite_db \<Rightarrow> nat \<times> sqlite_db" where
  "extend_rows key until now db =
     (let hit = (\<lambda>row. jr_receipt row = Some key \<and>
                   (case jr_leased_until row of Some u \<Rightarrow> u > now | None \<Rightarrow> False))
      in (length (filter hit (db_jobs db)),
          db\<lparr> db_jobs := map (\<lambda>row. if hit row then row\<lparr> jr_leased_until := Some until \<rparr> else row) (db_jobs db) \<rparr>))"

definition sqlite_extend :: "sqlite_config \<Rightarrow> duration \<Rightarrow> receipt \<Rightarrow> unit sql" where
  "sqlite_extend cfg now r =
     with_conn (sb_pool cfg)
       (sql_then (sql_lift (sb_receipt cfg r)) (\<lambda>key.
        sql_then (sql_stmt sql_err (\<lambda>db. Inr (extend_rows key (nanos (dur_saturating_add now (sb_lease cfg))) (nanos now) db)))
          (\<lambda>changed. if changed = 0 then sql_lift (Inl (stale r)) else sql_ok ())))"

definition sqlite_classify :: "sqlite_config \<Rightarrow> job_id \<Rightarrow> job_state sql" where
  "sqlite_classify cfg i =
     with_conn (sb_pool cfg)
       (sql_then (sql_query (\<lambda>db.
            if list_ex (\<lambda>row. jr_id row = sb_id cfg i) (db_jobs db) then Some 1
            else if list_ex (\<lambda>d. dr_id d = sb_id cfg i) (db_dead db) then Some 2 else None))
          (\<lambda>state. sql_ok (classify_state state)))"

section \<open>Dead-letter store, statistics, schedules, results\<close>

primrec decode_letters :: "sqlite_config \<Rightarrow> dead_row list \<Rightarrow> dead_letter list result" where
  "decode_letters cfg [] = Inr []"
| "decode_letters cfg (d # ds) =
     and_then (sb_decode cfg (dr_envelope d)) (\<lambda>envelope.
     and_then (decode_letters cfg ds) (\<lambda>out. Inr (dead_letter_new envelope (dr_error d) # out)))"

definition sqlite_dead_letters :: "sqlite_config \<Rightarrow> dead_letter list sql" where
  "sqlite_dead_letters cfg =
     with_conn (sb_pool cfg)
       (sql_then (sql_query (\<lambda>db. sort_key dr_seq (db_dead db))) (\<lambda>rows. sql_lift (decode_letters cfg rows)))"

definition sqlite_read_dead_letters :: "sqlite_config \<Rightarrow> lane \<Rightarrow> nat \<Rightarrow> dead_letter list sql" where
  "sqlite_read_dead_letters cfg lane limit =
     with_conn (sb_pool cfg)
       (sql_then (sql_query (\<lambda>db. take (nat (i64_of_nat_sat limit))
            (sort_key dr_seq (filter (\<lambda>d. dr_lane d = lane_str lane) (db_dead db)))))
          (\<lambda>rows. sql_lift (decode_letters cfg rows)))"

definition sqlite_count_dead_letters :: "sqlite_config \<Rightarrow> lane \<Rightarrow> nat sql" where
  "sqlite_count_dead_letters cfg lane =
     with_conn (sb_pool cfg) (sql_query (\<lambda>db. length (filter (\<lambda>d. dr_lane d = lane_str lane) (db_dead db))))"

definition live_id_conflict :: "job_id \<Rightarrow> error" where
  "live_id_conflict i = LiveJobIdConflict ([Lit ''cannot requeue job ''] @ job_id_msg i @
     [Lit '': a live job with the same id already exists''])"

definition unique_key_held :: "job_id \<Rightarrow> string \<Rightarrow> error" where
  "unique_key_held i uk = UniqueKeyHeld ([Lit ''cannot requeue job ''] @ job_id_msg i @
     [Lit '': unique key '', FDebugStr uk, Lit '' is held by another live job''])"

definition sqlite_requeue :: "sqlite_config \<Rightarrow> duration \<Rightarrow> job_id \<Rightarrow> unit sql" where
  "sqlite_requeue cfg now i =
     (let key = sb_id cfg i in
      with_conn (sb_pool cfg) (transaction
        (sql_then (sql_query (\<lambda>db. find (\<lambda>d. dr_id d = key) (db_dead db))) (\<lambda>row.
         case row of
           None \<Rightarrow> sql_lift (Inl (Broker (Lit ''no dead-letter record for job '' # job_id_msg i)))
         | Some d \<Rightarrow>
        sql_then (sql_query (\<lambda>db. list_ex (\<lambda>row. jr_id row = key) (db_jobs db))) (\<lambda>live_id_held.
         if live_id_held then sql_lift (Inl (live_id_conflict i)) else
        sql_then (case dr_unique_key d of Some uk \<Rightarrow> sql_query (key_taken uk) | None \<Rightarrow> sql_ok False) (\<lambda>held.
         if held then sql_lift (Inl (unique_key_held i (the (dr_unique_key d)))) else
        sql_then (sql_lift (sb_decode cfg (dr_envelope d))) (\<lambda>envelope.
        sql_then (sql_stmt sql_err (\<lambda>db. Inr (insert_row (sb_id cfg (env_id envelope)) (dr_lane d)
            (int (unat (env_priority envelope))) (nanos now) (dr_envelope d) db))) (\<lambda>inserted.
         case inserted of
           None \<Rightarrow> sql_lift (Inl (live_id_conflict i))
         | Some seq \<Rightarrow>
        sql_then (case dr_unique_key d of
            Some uk \<Rightarrow> sql_stmt sql_err (\<lambda>db. Inr (if key_taken uk db then (False, db) else (True, add_key uk seq db)))
          | None \<Rightarrow> sql_ok True) (\<lambda>keyed.
         if \<not> keyed then sql_lift (Inl (unique_key_held i (the (dr_unique_key d)))) else
         sql_exec (\<lambda>db. db\<lparr> db_dead := filter (\<lambda>d. dr_id d \<noteq> key) (db_dead db) \<rparr>))))))))))"

definition sqlite_purge_dead_letters :: "sqlite_config \<Rightarrow> lane \<Rightarrow> nat sql" where
  "sqlite_purge_dead_letters cfg lane =
     with_conn (sb_pool cfg) (sql_stmt sql_err (\<lambda>db. Inr
       (length (filter (\<lambda>d. dr_lane d = lane_str lane) (db_dead db)),
        db\<lparr> db_dead := filter (\<lambda>d. dr_lane d \<noteq> lane_str lane) (db_dead db) \<rparr>)))"

definition sqlite_pending_count :: "sqlite_config \<Rightarrow> lane \<Rightarrow> nat sql" where
  "sqlite_pending_count cfg lane =
     with_conn (sb_pool cfg) (sql_query (\<lambda>db. length (filter (\<lambda>row. jr_lane row = lane_str lane) (db_jobs db))))"

text \<open>The guarded upsert of a schedule's watermark, and whether it changed a row.\<close>

definition claim_occurrence :: "string \<Rightarrow> int \<Rightarrow> sqlite_db \<Rightarrow> bool \<times> sqlite_db" where
  "claim_occurrence schedule_id occurrence db =
     (case db_schedules db schedule_id of
        Some claimed \<Rightarrow>
          if claimed < occurrence then (True, db\<lparr> db_schedules := (db_schedules db)(schedule_id \<mapsto> occurrence) \<rparr>)
          else (False, db)
      | None \<Rightarrow> (True, db\<lparr> db_schedules := (db_schedules db)(schedule_id \<mapsto> occurrence) \<rparr>))"

definition sqlite_enqueue_scheduled ::
  "sqlite_config \<Rightarrow> duration \<Rightarrow> string \<Rightarrow> int \<Rightarrow> new_job \<Rightarrow> bool sql" where
  "sqlite_enqueue_scheduled cfg now schedule_id occurrence job =
     with_conn (sb_pool cfg) (transaction
       (sql_then (sql_stmt sql_err (\<lambda>db. Inr (claim_occurrence schedule_id occurrence db))) (\<lambda>changed.
          if changed
          then sql_then (insert_job cfg job (nanos (dur_saturating_add now (nj_delay job)))) (\<lambda>_. sql_ok True)
          else sql_ok False)))"

definition sqlite_remove_schedule :: "sqlite_config \<Rightarrow> string \<Rightarrow> unit sql" where
  "sqlite_remove_schedule cfg schedule_id =
     with_conn (sb_pool cfg)
       (sql_exec (\<lambda>db. db\<lparr> db_schedules := (db_schedules db)(schedule_id := None) \<rparr>))"

text \<open>The result store has an error of its own.\<close>

definition result_sql_err :: "string \<Rightarrow> error" where
  "result_sql_err e = ResultStore [Lit (redact_credentials e)]"

definition sqlite_result_open :: "codec \<Rightarrow> sqlite_config sql" where
  "sqlite_result_open K =
     sql_then (sql_stmt result_sql_err (\<lambda>db. Inr ((), db))) (\<lambda>_.
     sql_then configure (\<lambda>_.
     sql_then migrate (\<lambda>_.
       sql_ok (sqlite_with_pool K MemoryPool))))"

definition sqlite_result_store :: "sqlite_config \<Rightarrow> job_id \<Rightarrow> bytes \<Rightarrow> unit sql" where
  "sqlite_result_store cfg i blob =
     with_conn (sb_pool cfg) (sql_stmt result_sql_err (\<lambda>db.
       Inr ((), db\<lparr> db_results := (db_results db)(sb_id cfg i \<mapsto> blob) \<rparr>)))"

definition sqlite_result_get :: "sqlite_config \<Rightarrow> job_id \<Rightarrow> bytes option sql" where
  "sqlite_result_get cfg i =
     with_conn (sb_pool cfg) (sql_stmt result_sql_err (\<lambda>db. Inr (db_results db (sb_id cfg i), db)))"

text \<open>The broker as its clients see it.\<close>

definition sqlite_broker :: "sqlite_config \<Rightarrow> sqlite_state broker" where
  "sqlite_broker cfg =
     \<lparr> bk_enqueue = sqlite_enqueue cfg, bk_reserve = sqlite_reserve cfg, bk_ack = sqlite_ack cfg,
       bk_retry = sqlite_retry cfg, bk_defer = sqlite_defer cfg, bk_extend = sqlite_extend cfg,
       bk_fail = sqlite_fail cfg, bk_classify = (\<lambda>i s. fst (sqlite_classify cfg i s)) \<rparr>"

end
