(* ===== verification/Sqlite_Engine.thy ===== *)
theory Sqlite_Engine
  imports Sqlite_Broker
begin

text \<open>
  What the script of the engine can do to a program of the SQLite broker: a program that fails
  leaves the tables alone (\<open>sql_atomic\<close>), and one that succeeds has done what it does on an engine
  that refuses nothing (\<open>sql_fair\<close>, the states \<open>calm\<close>).  Both are closed under the ways the sources
  compose statements.
\<close>

named_theorems sql_fair_rules \<open>programs whose success does not depend on the script\<close>
named_theorems sql_atomic_rules \<open>programs that leave the tables alone when they fail\<close>
named_theorems sql_calm_simps \<open>the programs on an engine that refuses nothing\<close>

section \<open>Statements on a calm engine\<close>

definition calm :: "sqlite_db \<Rightarrow> bool \<Rightarrow> sqlite_state" where
  "calm db w = \<lparr> sq_db = db, sq_faults = [], sq_dlq_warned = w \<rparr>"

lemma calm_sel [simp]:
  "sq_db (calm db w) = db" "sq_faults (calm db w) = []" "sq_dlq_warned (calm db w) = w"
  "(calm db w)\<lparr> sq_db := db' \<rparr> = calm db' w" "(calm db w)\<lparr> sq_dlq_warned := w' \<rparr> = calm db w'"
  by (simp_all add: calm_def)

lemma calm_inject [simp]: "calm db w = calm db' w' \<longleftrightarrow> db = db' \<and> w = w'"
  by (auto simp: calm_def)

lemma calm_eq: "sq_faults s = [] \<Longrightarrow> s = calm (sq_db s) (sq_dlq_warned s)"
  by (simp add: calm_def)

lemma sql_stmt_calm [sql_calm_simps]:
  "sql_stmt err f (calm db w) =
     (case f db of Inl e \<Rightarrow> (Inl (err e), calm db w) | Inr (x, db') \<Rightarrow> (Inr x, calm db' w))"
  by (auto simp: sql_stmt_def calm_def split: sum.splits prod.splits)

lemma sql_query_calm [sql_calm_simps]: "sql_query q (calm db w) = (Inr (q db), calm db w)"
  by (simp add: sql_query_def sql_stmt_calm)

lemma sql_exec_calm [sql_calm_simps]: "sql_exec f (calm db w) = (Inr (), calm (f db) w)"
  by (simp add: sql_exec_def sql_stmt_calm)

lemma sql_ok_calm [sql_calm_simps]: "sql_ok x s = (Inr x, s)"
  by (simp add: sql_ok_def)

lemma sql_lift_calm [sql_calm_simps]: "sql_lift r s = (r, s)"
  by (simp add: sql_lift_def)

lemma sql_then_calm [sql_calm_simps]:
  "m s = (Inr x, s') \<Longrightarrow> sql_then m f s = f x s'"
  "m s = (Inl e, s') \<Longrightarrow> sql_then m f s = (Inl e, s')"
  by (simp_all add: sql_then_def)

lemma sql_then_lift: "sql_then (sql_lift (Inr x)) f = f x"
  by (intro ext) (simp add: sql_then_def sql_lift_def)

lemma with_conn_calm [sql_calm_simps]: "with_conn p f (calm db w) = f (calm db w)"
  by (cases p) (simp_all add: with_conn_def sql_calm_simps)

lemma transaction_calm [sql_calm_simps]:
  "body (calm db w) = (Inr x, calm db' w') \<Longrightarrow> transaction body (calm db w) = (Inr x, calm db' w')"
  "body (calm db w) = (Inl e, calm db' w') \<Longrightarrow> transaction body (calm db w) = (Inl e, calm db w')"
  by (simp_all add: transaction_def sql_calm_simps)

section \<open>Programs and the script\<close>

definition sql_fair :: "'a sql \<Rightarrow> bool" where
  "sql_fair m \<longleftrightarrow>
     (\<forall>s x s'. m s = (Inr x, s') \<longrightarrow> sq_dlq_warned s' = sq_dlq_warned s \<and>
        m (calm (sq_db s) (sq_dlq_warned s)) = (Inr x, calm (sq_db s') (sq_dlq_warned s)))"

definition sql_atomic :: "'a sql \<Rightarrow> bool" where
  "sql_atomic m \<longleftrightarrow> (\<forall>s e s'. m s = (Inl e, s') \<longrightarrow> sq_db s' = sq_db s)"

definition sql_reads :: "'a sql \<Rightarrow> bool" where
  "sql_reads m \<longleftrightarrow> (\<forall>s. sq_db (snd (m s)) = sq_db s)"

lemma sql_fair_ok [sql_fair_rules]: "sql_fair (sql_ok x)"
  by (simp add: sql_fair_def sql_ok_def)

lemma sql_fair_lift [sql_fair_rules]: "sql_fair (sql_lift r)"
  by (simp add: sql_fair_def sql_lift_def)

lemma sql_fair_stmt [sql_fair_rules]: "sql_fair (sql_stmt err f)"
  by (auto simp: sql_fair_def sql_stmt_calm)
    (auto simp: sql_stmt_def Let_def split: list.splits option.splits sum.splits prod.splits)

lemma sql_fair_query [sql_fair_rules]: "sql_fair (sql_query q)"
  by (simp add: sql_query_def sql_fair_stmt)

lemma sql_fair_exec [sql_fair_rules]: "sql_fair (sql_exec f)"
  by (simp add: sql_exec_def sql_fair_stmt)

lemma sql_fair_then [sql_fair_rules]:
  assumes m: "sql_fair m" and f: "\<And>x. sql_fair (f x)"
  shows "sql_fair (sql_then m f)"
  unfolding sql_fair_def
proof (intro allI impI)
  fix s y s'
  assume "sql_then m f s = (Inr y, s')"
  then obtain x s1 where ms: "m s = (Inr x, s1)" and fs: "f x s1 = (Inr y, s')"
    by (auto simp: sql_then_def split: prod.splits sum.splits)
  from m ms have "sq_dlq_warned s1 = sq_dlq_warned s"
    "m (calm (sq_db s) (sq_dlq_warned s)) = (Inr x, calm (sq_db s1) (sq_dlq_warned s))"
    by (auto simp: sql_fair_def)
  moreover from f [of x] fs have "sq_dlq_warned s' = sq_dlq_warned s1"
    "f x (calm (sq_db s1) (sq_dlq_warned s1)) = (Inr y, calm (sq_db s') (sq_dlq_warned s1))"
    by (auto simp: sql_fair_def)
  ultimately show "sq_dlq_warned s' = sq_dlq_warned s \<and>
      sql_then m f (calm (sq_db s) (sq_dlq_warned s)) = (Inr y, calm (sq_db s') (sq_dlq_warned s))"
    by (simp add: sql_then_def)
qed

lemma sql_fair_option [sql_fair_rules]:
  "sql_fair a \<Longrightarrow> (\<And>x. sql_fair (f x)) \<Longrightarrow> sql_fair (case opt of None \<Rightarrow> a | Some x \<Rightarrow> f x)"
  by (cases opt) auto

lemma sql_fair_if [sql_fair_rules]: "sql_fair a \<Longrightarrow> sql_fair b \<Longrightarrow> sql_fair (if c then a else b)"
  by simp

lemma sql_fair_prod [sql_fair_rules]:
  "(\<And>a b. sql_fair (f a b)) \<Longrightarrow> sql_fair (case p of (a, b) \<Rightarrow> f a b)"
  by (cases p) auto

lemma sql_fair_transaction [sql_fair_rules]:
  assumes "sql_fair body"
  shows "sql_fair (transaction body)"
proof -
  let ?inner = "sql_then body (\<lambda>x. sql_then (sql_exec id) (\<lambda>_. sql_ok x))"
  have inner: "sql_fair ?inner" by (intro sql_fair_rules assms)
  have "sql_fair (\<lambda>s. case ?inner s of (Inl e, s') \<Rightarrow> (Inl e, s'\<lparr> sq_db := sq_db s \<rparr>) | (Inr x, s') \<Rightarrow> (Inr x, s'))"
    using inner by (auto simp: sql_fair_def split: prod.splits sum.splits)
  then show ?thesis unfolding transaction_def by (intro sql_fair_rules)
qed

lemma sql_fair_conn [sql_fair_rules]: "sql_fair f \<Longrightarrow> sql_fair (with_conn p f)"
  by (cases p) (simp_all add: with_conn_def sql_fair_rules)

lemma sql_atomic_ok [sql_atomic_rules]: "sql_atomic (sql_ok x)"
  by (simp add: sql_atomic_def sql_ok_def)

lemma sql_atomic_lift [sql_atomic_rules]: "sql_atomic (sql_lift r)"
  by (simp add: sql_atomic_def sql_lift_def)

lemma sql_atomic_stmt [sql_atomic_rules]: "sql_atomic (sql_stmt err f)"
  by (auto simp: sql_atomic_def sql_stmt_def Let_def split: list.splits option.splits sum.splits)

lemma sql_atomic_query [sql_atomic_rules]: "sql_atomic (sql_query q)"
  by (simp add: sql_query_def sql_atomic_stmt)

lemma sql_atomic_exec [sql_atomic_rules]: "sql_atomic (sql_exec f)"
  by (simp add: sql_exec_def sql_atomic_stmt)

lemma sql_atomic_transaction [sql_atomic_rules]: "sql_atomic (transaction body)"
proof -
  have "sq_db s' = sq_db s" if "sql_exec id s = (r, s')" for s r s'
    using that by (auto simp: sql_exec_def sql_stmt_def Let_def split: list.splits option.splits)
  then show ?thesis
    by (auto simp: sql_atomic_def transaction_def sql_then_def split: prod.splits sum.splits)
qed

lemma sql_reads_stmt: "sql_reads (sql_stmt err (\<lambda>db. Inr (q db, db)))"
  by (auto simp: sql_reads_def sql_stmt_def Let_def split: list.splits option.splits)

lemma sql_reads_query [sql_atomic_rules]: "sql_reads (sql_query q)"
  by (simp add: sql_query_def sql_reads_stmt)

lemma sql_reads_lift [sql_atomic_rules]: "sql_reads (sql_lift r)"
  by (simp add: sql_reads_def sql_lift_def)

lemma sql_reads_ok [sql_atomic_rules]: "sql_reads (sql_ok r)"
  by (simp add: sql_reads_def sql_ok_def)

lemma sql_atomic_then [sql_atomic_rules]:
  assumes "sql_reads m" and "\<And>x. sql_atomic (f x)"
  shows "sql_atomic (sql_then m f)"
  unfolding sql_atomic_def
proof (intro allI impI)
  fix s e s'
  assume run: "sql_then m f s = (Inl e, s')"
  obtain r s1 where m: "m s = (r, s1)" by fastforce
  then have "sq_db s1 = sq_db s" using assms(1) by (metis sql_reads_def snd_conv)
  with run m assms(2) show "sq_db s' = sq_db s"
    by (cases r) (auto simp: sql_then_def sql_atomic_def)
qed

lemma sql_atomic_conn [sql_atomic_rules]: "sql_atomic f \<Longrightarrow> sql_atomic (with_conn p f)"
  using sql_atomic_then [OF sql_reads_stmt [where q = "\<lambda>_. ()"]]
  by (cases p) (simp_all add: with_conn_def)

text \<open>How an operation may end: refused, with the tables as they were, or as on a calm engine.\<close>

lemma sql_outcome:
  assumes "sql_fair m" and "sql_atomic m" and "m s = (r, s')"
  obtains (refused) e where "r = Inl e" "sq_db s' = sq_db s"
  | (carried) x where "r = Inr x"
      "m (calm (sq_db s) (sq_dlq_warned s)) = (Inr x, calm (sq_db s') (sq_dlq_warned s))"
  using assms by (cases r) (auto simp: sql_fair_def sql_atomic_def)

end
