(* ===== verification/Sqlite_Laws.thy ===== *)
theory Sqlite_Laws
  imports Sqlite_Engine
begin

text \<open>
  The SQLite broker keeps the broker contract, for a codec that reads back what it wrote.  The
  tables: their well-formedness \<open>sqlite_wf\<close> and that adding, changing and removing a job keeps it;
  the view of the jobs they hold and how these changes show in it; what each operation does to the
  tables on a calm engine; the laws of the contract.
\<close>

section \<open>The codec\<close>

text \<open>What the broker relies on: \<^verbatim>\<open>serde_json\<close> reads back what it wrote and writes every receipt,
  different receipts differently; the text of a UUID determines it.\<close>

definition codec_ok :: "codec \<Rightarrow> bool" where
  "codec_ok K \<longleftrightarrow>
     serde_round_trip (cd_to_vec K) (cd_from_slice K) \<and>
     (\<forall>r. \<exists>k. cd_receipt K r = Inr k) \<and>
     (\<forall>r r' k. cd_receipt K r = Inr k \<longrightarrow> cd_receipt K r' = Inr k \<longrightarrow> r = r') \<and>
     uuid_codec_ok (cd_uuid K)"

definition rkey :: "sqlite_config \<Rightarrow> receipt \<Rightarrow> string" where
  "rkey cfg r = projr (cd_receipt (sb_codec cfg) r)"

text \<open>The receipt a text of the \<^verbatim>\<open>receipt\<close> column stands for.\<close>

definition receipt_of :: "sqlite_config \<Rightarrow> string \<Rightarrow> receipt" where
  "receipt_of cfg k = (THE r. rkey cfg r = k)"

abbreviation sb_ok :: "sqlite_config \<Rightarrow> bool" where
  "sb_ok cfg \<equiv> codec_ok (sb_codec cfg)"

lemma sb_receipt_rkey: "sb_ok cfg \<Longrightarrow> sb_receipt cfg r = Inr (rkey cfg r)"
  by (auto simp: codec_ok_def rkey_def receipt_key_def) (metis sum.sel(2))

lemma rkey_inject: "sb_ok cfg \<Longrightarrow> rkey cfg r = rkey cfg r' \<longleftrightarrow> r = r'"
  by (auto simp: codec_ok_def rkey_def) (metis sum.sel(2))

lemma receipt_of_rkey [simp]: "sb_ok cfg \<Longrightarrow> receipt_of cfg (rkey cfg r) = r"
  by (auto simp: receipt_of_def rkey_inject)

lemma sb_id_inject: "sb_ok cfg \<Longrightarrow> sb_id cfg i = sb_id cfg j \<longleftrightarrow> i = j"
  by (auto simp: codec_ok_def uuid_codec_ok_def) (metis job_id.expand sum.inject(2))

lemma sb_decode_encode: "sb_ok cfg \<Longrightarrow> sb_encode cfg e = Inr b \<Longrightarrow> sb_decode cfg b = Inr e"
  using decode_encode_envelope by (auto simp: codec_ok_def)

section \<open>Well-formed tables\<close>

definition row_ok :: "sqlite_config \<Rightarrow> job_row \<Rightarrow> bool" where
  "row_ok cfg row \<longleftrightarrow>
     (\<exists>e. sb_decode cfg (jr_envelope row) = Inr e \<and> jr_id row = sb_id cfg (env_id e) \<and>
        jr_lane row = lane_str (env_lane e) \<and> jr_priority row = int (unat (env_priority e))) \<and>
     (jr_receipt row = None \<longleftrightarrow> jr_leased_until row = None) \<and>
     (\<forall>k. jr_receipt row = Some k \<longrightarrow> (\<exists>r. k = rkey cfg r)) \<and> 0 \<le> jr_deliveries row"

definition dead_ok :: "sqlite_config \<Rightarrow> dead_row \<Rightarrow> bool" where
  "dead_ok cfg d \<longleftrightarrow>
     (\<exists>e. sb_decode cfg (dr_envelope d) = Inr e \<and> dr_id d = sb_id cfg (env_id e) \<and>
        dr_lane d = lane_str (env_lane e))"

definition receipts_apart :: "job_row list \<Rightarrow> bool" where
  "receipts_apart rows \<longleftrightarrow>
     (\<forall>a \<in> set rows. \<forall>b \<in> set rows. \<forall>k. jr_receipt a = Some k \<and> jr_receipt b = Some k \<longrightarrow> jr_seq a = jr_seq b)"

definition sqlite_wf :: "sqlite_config \<Rightarrow> sqlite_db \<Rightarrow> bool" where
  "sqlite_wf cfg db \<longleftrightarrow>
     distinct (map jr_seq (db_jobs db)) \<and> distinct (map jr_id (db_jobs db)) \<and>
     (\<forall>row \<in> set (db_jobs db). row_ok cfg row) \<and> receipts_apart (db_jobs db) \<and>
     distinct (map fst (db_unique_keys db)) \<and> distinct (map snd (db_unique_keys db)) \<and>
     snd ` set (db_unique_keys db) \<subseteq> jr_seq ` set (db_jobs db) \<and>
     distinct (map dr_seq (db_dead db)) \<and> distinct (map dr_id (db_dead db)) \<and>
     (\<forall>d \<in> set (db_dead db). dead_ok cfg d)"

lemma sqlite_wfD:
  assumes "sqlite_wf cfg db"
  shows "distinct (map jr_seq (db_jobs db))" "distinct (map jr_id (db_jobs db))"
    "row \<in> set (db_jobs db) \<Longrightarrow> row_ok cfg row" "receipts_apart (db_jobs db)"
    "distinct (map fst (db_unique_keys db))" "distinct (map snd (db_unique_keys db))"
    "p \<in> set (db_unique_keys db) \<Longrightarrow> snd p \<in> jr_seq ` set (db_jobs db)"
    "distinct (map dr_seq (db_dead db))" "distinct (map dr_id (db_dead db))"
    "d \<in> set (db_dead db) \<Longrightarrow> dead_ok cfg d"
  using assms by (auto simp: sqlite_wf_def)

lemma sqlite_wf_fresh [simp]: "sqlite_wf cfg (sqlite_fresh_db\<lparr> db_version := v \<rparr>)"
  by (simp add: sqlite_wf_def sqlite_fresh_db_def receipts_apart_def)

lemma same_seq_same_row:
  "sqlite_wf cfg db \<Longrightarrow> a \<in> set (db_jobs db) \<Longrightarrow> b \<in> set (db_jobs db) \<Longrightarrow> jr_seq a = jr_seq b \<Longrightarrow> a = b"
  by (meson eq_key_imp_eq_value inj_on_def distinct_map sqlite_wfD(1))

lemma wf_other_tables [simp]:
  "sqlite_wf cfg (db\<lparr> db_schedules := m \<rparr>) = sqlite_wf cfg db"
  "sqlite_wf cfg (db\<lparr> db_results := n \<rparr>) = sqlite_wf cfg db"
  "sqlite_wf cfg (db\<lparr> db_version := v \<rparr>) = sqlite_wf cfg db"
  by (simp_all add: sqlite_wf_def)

text \<open>The row \<open>free_unique_key\<close> and \<open>delete_job\<close> remove.\<close>

definition drop_row :: "int \<Rightarrow> sqlite_db \<Rightarrow> sqlite_db" where
  "drop_row seq db =
     db\<lparr> db_unique_keys := filter (\<lambda>(k, n). n \<noteq> seq) (db_unique_keys db),
         db_jobs := filter (\<lambda>row. jr_seq row \<noteq> seq) (db_jobs db) \<rparr>"

lemma distinct_map_filter_key: "distinct (map f xs) \<Longrightarrow> distinct (map f (filter P xs))"
  by (induction xs) auto

lemma wf_drop_row:
  assumes "sqlite_wf cfg db"
  shows "sqlite_wf cfg (drop_row seq db)"
proof -
  note wf = sqlite_wfD [OF assms]
  have "snd p \<in> jr_seq ` set (db_jobs (drop_row seq db))" if "p \<in> set (db_unique_keys (drop_row seq db))" for p
    using that wf(7) [of p] by (fastforce simp: drop_row_def)
  moreover have "receipts_apart (db_jobs (drop_row seq db))"
    using wf(4) by (auto simp: receipts_apart_def drop_row_def)
  ultimately show ?thesis
    using assms by (auto simp: sqlite_wf_def drop_row_def intro!: distinct_map_filter_key)
qed

lemma wf_dead:
  assumes "sqlite_wf cfg db" and "distinct (map dr_seq ds)" and "distinct (map dr_id ds)" and "\<forall>d \<in> set ds. dead_ok cfg d"
  shows "sqlite_wf cfg (db\<lparr> db_dead := ds \<rparr>)"
  using assms by (simp add: sqlite_wf_def)

lemma wf_dead_filter: "sqlite_wf cfg db \<Longrightarrow> sqlite_wf cfg (db\<lparr> db_dead := filter P (db_dead db) \<rparr>)"
  by (intro wf_dead) (auto simp: sqlite_wf_def intro!: distinct_map_filter_key)

lemma fold_max_ge: "(a :: int) \<le> fold max xs a \<and> (\<forall>x \<in> set xs. x \<le> fold max xs a)"
proof (induction xs arbitrary: a)
  case (Cons y ys)
  from Cons.IH [of "max y a"] show ?case by auto
qed simp

lemma next_rowid_fresh: "next_rowid xs \<notin> set xs"
  using fold_max_ge [of 0 xs] by (auto simp: next_rowid_def)

lemma wf_insert_dead:
  assumes "sqlite_wf cfg db" and "dead_ok cfg d" and "dr_seq d = next_rowid (map dr_seq (db_dead db))"
    and "dr_id d \<notin> dr_id ` set (db_dead db)"
  shows "sqlite_wf cfg (db\<lparr> db_dead := db_dead db @ [d] \<rparr>)"
  using assms next_rowid_fresh [of "map dr_seq (db_dead db)"] sqlite_wfD(8,9,10) [OF assms(1)]
  by (intro wf_dead) auto

lemma wf_update_row:
  assumes wf: "sqlite_wf cfg db" and keep: "\<And>row. jr_seq (f row) = jr_seq row" "\<And>row. jr_id (f row) = jr_id row"
    and ok: "\<And>row. row \<in> set (db_jobs db) \<Longrightarrow> jr_seq row = seq \<Longrightarrow> row_ok cfg (f row)"
    and apart: "\<And>row k other. row \<in> set (db_jobs db) \<Longrightarrow> jr_seq row = seq \<Longrightarrow> jr_receipt (f row) = Some k \<Longrightarrow>
      other \<in> set (db_jobs db) \<Longrightarrow> jr_receipt other = Some k \<Longrightarrow> jr_seq other = seq"
  shows "sqlite_wf cfg (update_row seq f db)"
proof -
  define g where "g row = (if jr_seq row = seq then f row else row)" for row
  have rows: "db_jobs (update_row seq f db) = map g (db_jobs db)" by (simp add: update_row_def g_def)
  have seqs: "map jr_seq (map g (db_jobs db)) = map jr_seq (db_jobs db)"
    and ids: "map jr_id (map g (db_jobs db)) = map jr_id (db_jobs db)" by (simp_all add: g_def keep)
  have "jr_seq a = jr_seq b"
    if "a \<in> set (db_jobs db)" "b \<in> set (db_jobs db)" "jr_receipt (g a) = Some k" "jr_receipt (g b) = Some k" for a b k
  proof -
    have old: "jr_receipt a = Some k \<Longrightarrow> jr_receipt b = Some k \<Longrightarrow> jr_seq a = jr_seq b"
      using sqlite_wfD(4) [OF wf] that(1,2) unfolding receipts_apart_def by blast
    show ?thesis
    proof (cases "jr_seq a = seq"; cases "jr_seq b = seq")
      assume "jr_seq a = seq" "jr_seq b \<noteq> seq"
      with apart [OF that(1) this(1) _ that(2), of k] that(3,4) show ?thesis by (simp add: g_def)
    next
      assume "jr_seq a \<noteq> seq" "jr_seq b = seq"
      with apart [OF that(2) this(2) _ that(1), of k] that(3,4) show ?thesis by (simp add: g_def)
    qed (use old that(3,4) in \<open>simp_all add: g_def\<close>)
  qed
  moreover have "jr_seq (g row) = jr_seq row" for row by (simp add: g_def keep)
  ultimately have "receipts_apart (map g (db_jobs db))" unfolding receipts_apart_def by auto
  moreover have "\<forall>row \<in> set (map g (db_jobs db)). row_ok cfg row"
    using ok sqlite_wfD(3) [OF wf] by (auto simp: g_def)
  moreover have "jr_seq ` set (map g (db_jobs db)) = jr_seq ` set (db_jobs db)" using seqs by (metis set_map)
  ultimately show ?thesis
    using wf unfolding sqlite_wf_def rows seqs ids by (simp add: update_row_def)
qed

text \<open>A job added with its key.\<close>

definition add_job :: "job_row \<Rightarrow> string option \<Rightarrow> sqlite_db \<Rightarrow> sqlite_db" where
  "add_job row key db =
     (let db1 = db\<lparr> db_jobs := db_jobs db @ [row] \<rparr>
      in case key of None \<Rightarrow> db1 | Some k \<Rightarrow> add_key k (jr_seq row) db1)"

lemma wf_add_job:
  assumes wf: "sqlite_wf cfg db" and seq: "jr_seq row = next_rowid (map jr_seq (db_jobs db))"
    and i: "jr_id row \<notin> jr_id ` set (db_jobs db)" and ok: "row_ok cfg row" and rc: "jr_receipt row = None"
    and key: "\<And>k. key = Some k \<Longrightarrow> \<not> key_taken k db"
  shows "sqlite_wf cfg (add_job row key db)"
proof -
  have new: "jr_seq row \<notin> jr_seq ` set (db_jobs db)"
    using next_rowid_fresh [of "map jr_seq (db_jobs db)"] seq by simp
  then have "jr_seq row \<notin> snd ` set (db_unique_keys db)" using sqlite_wfD(7) [OF wf] by auto
  moreover have "receipts_apart (db_jobs db @ [row])"
    using sqlite_wfD(4) [OF wf] rc by (auto simp: receipts_apart_def)
  ultimately show ?thesis
    using wf i new ok key
    by (cases key) (auto simp: sqlite_wf_def add_job_def add_key_def key_taken_def)
qed

section \<open>The jobs in view\<close>

definition row_env :: "sqlite_config \<Rightarrow> job_row \<Rightarrow> job_envelope" where
  "row_env cfg row = projr (sb_decode cfg (jr_envelope row))"

definition valid_lease :: "int \<Rightarrow> job_row \<Rightarrow> bool" where
  "valid_lease now row \<longleftrightarrow> (case jr_leased_until row of Some u \<Rightarrow> u > now | None \<Rightarrow> False)"

definition row_view :: "sqlite_config \<Rightarrow> sqlite_db \<Rightarrow> duration \<Rightarrow> job_row \<Rightarrow> jview" where
  "row_view cfg db t row =
     \<lparr> jv_envelope = row_env cfg row, jv_key = key_of_seq (jr_seq row) db,
       jv_ready = (jr_available_at row \<le> nanos t),
       jv_held = (if valid_lease (nanos t) row then map_option (receipt_of cfg) (jr_receipt row) else None) \<rparr>"

definition db_view :: "sqlite_config \<Rightarrow> duration \<Rightarrow> sqlite_db \<Rightarrow> jobs_view" where
  "db_view cfg t db i = map_option (row_view cfg db t) (lookup_by jr_id (db_jobs db) (sb_id cfg i))"

definition sqlite_view :: "sqlite_config \<Rightarrow> duration \<Rightarrow> sqlite_state \<Rightarrow> jobs_view" where
  "sqlite_view cfg t s = db_view cfg t (sq_db s)"

definition sqlite_inv :: "sqlite_config \<Rightarrow> sqlite_state \<Rightarrow> bool" where
  "sqlite_inv cfg s \<longleftrightarrow> sb_ok cfg \<and> sqlite_wf cfg (sq_db s)"

definition db_fresh :: "sqlite_config \<Rightarrow> receipt \<Rightarrow> sqlite_db \<Rightarrow> bool" where
  "db_fresh cfg r db \<longleftrightarrow> (\<forall>row \<in> set (db_jobs db). jr_receipt row \<noteq> Some (rkey cfg r))"

definition sqlite_fresh :: "sqlite_config \<Rightarrow> receipt \<Rightarrow> sqlite_state \<Rightarrow> bool" where
  "sqlite_fresh cfg r s \<longleftrightarrow> db_fresh cfg r (sq_db s)"

text \<open>Times are kept as \<^verbatim>\<open>i64\<close> nanoseconds; below the horizon nothing saturates.\<close>

definition sqlite_horizon :: duration where
  "sqlite_horizon = 2 ^ 63 - 2"

lemma nanos_exact: "t \<le> sqlite_horizon \<Longrightarrow> nanos t = int t"
  by (simp add: nanos_eq I64_MAX_def sqlite_horizon_def)

lemma nanos_sum_le:
  assumes "t' \<le> sqlite_horizon"
  shows "nanos (dur_saturating_add t d) \<le> nanos t' \<longleftrightarrow> t + d \<le> t'"
  using assms by (auto simp: nanos_eq I64_MAX_def sqlite_horizon_def dur_saturating_add_def DURATION_MAX_def min_def)

lemma row_view_simps [simp]:
  "jv_envelope (row_view cfg db t row) = row_env cfg row"
  "jv_key (row_view cfg db t row) = key_of_seq (jr_seq row) db"
  "jv_ready (row_view cfg db t row) = (jr_available_at row \<le> nanos t)"
  "jv_held (row_view cfg db t row) =
     (if valid_lease (nanos t) row then map_option (receipt_of cfg) (jr_receipt row) else None)"
  by (simp_all add: row_view_def)

lemma db_view_Some:
  assumes "sqlite_wf cfg db"
  shows "db_view cfg t db i = Some v \<longleftrightarrow>
    (\<exists>row \<in> set (db_jobs db). jr_id row = sb_id cfg i \<and> v = row_view cfg db t row)"
  using lookup_by_Some_iff [OF sqlite_wfD(2) [OF assms]] by (auto simp: db_view_def)

lemma db_view_None: "db_view cfg t db i = None \<longleftrightarrow> sb_id cfg i \<notin> jr_id ` set (db_jobs db)"
  by (simp add: db_view_def lookup_by_None_iff)

lemma db_view_row:
  "sqlite_wf cfg db \<Longrightarrow> row \<in> set (db_jobs db) \<Longrightarrow> jr_id row = sb_id cfg i \<Longrightarrow>
     db_view cfg t db i = Some (row_view cfg db t row)"
  by (auto simp: db_view_Some)

lemma row_okE:
  assumes "sqlite_wf cfg db" and "row \<in> set (db_jobs db)"
  obtains e where "sb_decode cfg (jr_envelope row) = Inr e" "row_env cfg row = e" "jr_id row = sb_id cfg (env_id e)"
    "jr_lane row = lane_str (env_lane e)"
  using sqlite_wfD(3) [OF assms] by (auto simp: row_ok_def row_env_def)

lemma row_held:
  assumes "sb_ok cfg" and "sqlite_wf cfg db" and "row \<in> set (db_jobs db)"
  shows "jv_held (row_view cfg db t row) = Some r \<longleftrightarrow>
    jr_receipt row = Some (rkey cfg r) \<and> valid_lease (nanos t) row"
  using sqlite_wfD(3) [OF assms(2,3)] assms(1) by (auto simp: row_ok_def rkey_inject)

lemma holds_db_view:
  assumes "sb_ok cfg" and "sqlite_wf cfg db"
  shows "holds (db_view cfg t db) i r \<longleftrightarrow>
    (\<exists>row \<in> set (db_jobs db). jr_id row = sb_id cfg i \<and> jr_receipt row = Some (rkey cfg r) \<and>
       valid_lease (nanos t) row)"
  unfolding holds_def db_view_Some [OF assms(2)] using row_held [OF assms] by blast

section \<open>How changes of the tables show\<close>

lemma option_eqI: "(\<And>v. x = Some v \<longleftrightarrow> y = Some v) \<Longrightarrow> x = y"
  by (metis not_None_eq)

lemma find_append_opt:
  "find P (xs @ ys) = (case find P xs of Some x \<Rightarrow> Some x | None \<Rightarrow> find P ys)"
  by (induction xs) auto

lemma key_of_seq_drop:
  "key_of_seq seq' (drop_row seq db) = (if seq' = seq then None else key_of_seq seq' db)"
proof -
  have "find (\<lambda>(k, n). n = seq') (filter (\<lambda>(k, n). n \<noteq> seq) ks) =
      (if seq' = seq then None else find (\<lambda>(k, n). n = seq') ks)" for ks :: "(string \<times> int) list"
    by (induction ks) auto
  then show ?thesis by (simp add: key_of_seq_def drop_row_def)
qed

lemma key_of_seq_cong: "db_unique_keys db' = db_unique_keys db \<Longrightarrow> key_of_seq seq db' = key_of_seq seq db"
  by (simp add: key_of_seq_def)

lemma row_view_cong: "db_unique_keys db' = db_unique_keys db \<Longrightarrow> row_view cfg db' = row_view cfg db"
  by (intro ext) (simp add: row_view_def key_of_seq_def)

lemma db_view_cong:
  "db_jobs db' = db_jobs db \<Longrightarrow> db_unique_keys db' = db_unique_keys db \<Longrightarrow> db_view cfg t db' = db_view cfg t db"
  by (intro ext) (simp add: db_view_def row_view_cong [of db' db])

lemma db_view_drop:
  assumes wf: "sqlite_wf cfg db" and row: "row \<in> set (db_jobs db)"
  shows "db_view cfg t (drop_row (jr_seq row) db) i = (if jr_id row = sb_id cfg i then None else db_view cfg t db i)"
proof (cases "jr_id row = sb_id cfg i")
  case True
  have "r = row" if "r \<in> set (db_jobs db)" "jr_id r = sb_id cfg i" for r
    using that row True sqlite_wfD(2) [OF wf] by (metis distinct_map inj_onD)
  with True show ?thesis by (auto simp: db_view_None drop_row_def)
next
  case False
  have wf': "sqlite_wf cfg (drop_row (jr_seq row) db)" by (rule wf_drop_row [OF wf])
  have rows: "set (db_jobs (drop_row (jr_seq row) db)) = {r \<in> set (db_jobs db). jr_seq r \<noteq> jr_seq row}"
    by (auto simp: drop_row_def)
  have same: "row_view cfg (drop_row (jr_seq row) db) t r = row_view cfg db t r" if "jr_seq r \<noteq> jr_seq row" for r
    using that by (simp add: row_view_def key_of_seq_drop)
  have ne: "jr_seq r \<noteq> jr_seq row" if "r \<in> set (db_jobs db)" "jr_id r = sb_id cfg i" for r
    using that same_seq_same_row [OF wf that(1) row] False by auto
  have "db_view cfg t (drop_row (jr_seq row) db) i = Some v \<longleftrightarrow> db_view cfg t db i = Some v" for v
    unfolding db_view_Some [OF wf] db_view_Some [OF wf'] rows using ne same by (metis (lifting) mem_Collect_eq)
  then have "db_view cfg t (drop_row (jr_seq row) db) i = db_view cfg t db i" by (rule option_eqI)
  with False show ?thesis by simp
qed

lemma db_view_update:
  assumes wf: "sqlite_wf cfg db" and row: "row \<in> set (db_jobs db)" and keep: "\<And>row. jr_id (f row) = jr_id row"
  shows "db_view cfg t (update_row (jr_seq row) f db) i =
    (if jr_id row = sb_id cfg i then Some (row_view cfg db t (f row)) else db_view cfg t db i)"
proof -
  let ?g = "\<lambda>r. if jr_seq r = jr_seq row then f r else r"
  have keys: "row_view cfg (update_row (jr_seq row) f db) = row_view cfg db"
    by (rule row_view_cong) (simp add: update_row_def)
  have "db_view cfg t (update_row (jr_seq row) f db) i =
      map_option (row_view cfg db t) (map_option ?g (lookup_by jr_id (db_jobs db) (sb_id cfg i)))"
    unfolding db_view_def keys by (simp add: update_row_def lookup_by_map keep)
  moreover have "lookup_by jr_id (db_jobs db) (jr_id row) = Some row"
    using lookup_by_Some_iff [OF sqlite_wfD(2) [OF wf]] row by blast
  moreover have "?g r = r" if "lookup_by jr_id (db_jobs db) (sb_id cfg i) = Some r" "jr_id row \<noteq> sb_id cfg i" for r
    using lookup_by_SomeD [OF that(1)] same_seq_same_row [OF wf _ row, of r] that(2) by auto
  ultimately show ?thesis
    by (cases "lookup_by jr_id (db_jobs db) (sb_id cfg i)") (auto simp: db_view_def)
qed

lemma db_view_add:
  assumes wf: "sqlite_wf cfg db" and seq: "jr_seq row = next_rowid (map jr_seq (db_jobs db))"
    and i: "jr_id row \<notin> jr_id ` set (db_jobs db)"
  shows "db_view cfg t (add_job row key db) i =
    (if jr_id row = sb_id cfg i then Some ((row_view cfg db t row)\<lparr> jv_key := key \<rparr>) else db_view cfg t db i)"
proof -
  have new: "jr_seq row \<notin> jr_seq ` set (db_jobs db)"
    using next_rowid_fresh [of "map jr_seq (db_jobs db)"] seq by simp
  have nokey: "find (\<lambda>(k, n). n = jr_seq row) (db_unique_keys db) = None"
    using sqlite_wfD(7) [OF wf] new by (fastforce simp: find_None_iff)
  have key: "key_of_seq n (add_job row key db) = (if n = jr_seq row then key else key_of_seq n db)" for n
    using nokey by (cases key) (auto simp: add_job_def add_key_def key_of_seq_def find_append_opt split: option.split)
  have jobs: "db_jobs (add_job row key db) = db_jobs db @ [row]"
    by (cases key) (simp_all add: add_job_def add_key_def)
  have "row_view cfg (add_job row key db) t r = row_view cfg db t r" if "r \<in> set (db_jobs db)" for r
    using imageI [OF that, of jr_seq] new by (auto simp: row_view_def key)
  moreover have "row_view cfg (add_job row key db) t row = (row_view cfg db t row)\<lparr> jv_key := key \<rparr>"
    by (simp add: row_view_def key)
  ultimately show ?thesis
    using lookup_by_SomeD [of jr_id "db_jobs db" "sb_id cfg i"]
    by (cases "lookup_by jr_id (db_jobs db) (sb_id cfg i)") (auto simp: db_view_def jobs lookup_by_append1 [OF i])
qed

section \<open>The resolutions on a calm engine\<close>

definition current_row :: "sqlite_config \<Rightarrow> receipt \<Rightarrow> int \<Rightarrow> sqlite_db \<Rightarrow> job_row option" where
  "current_row cfg r now db =
     (case find (\<lambda>row. jr_receipt row = Some (rkey cfg r)) (db_jobs db) of
        Some row \<Rightarrow> if valid_lease now row then Some row else None
      | None \<Rightarrow> None)"

lemma current_row_Some:
  assumes "sqlite_wf cfg db"
  shows "current_row cfg r now db = Some row \<longleftrightarrow>
    row \<in> set (db_jobs db) \<and> jr_receipt row = Some (rkey cfg r) \<and> valid_lease now row"
proof -
  have one: "a = b" if "a \<in> set (db_jobs db)" "b \<in> set (db_jobs db)"
    "jr_receipt a = Some k" "jr_receipt b = Some k" for a b k
    using that sqlite_wfD(4) [OF assms] same_seq_same_row [OF assms that(1,2)]
    unfolding receipts_apart_def by blast
  show ?thesis
  proof (cases "find (\<lambda>row. jr_receipt row = Some (rkey cfg r)) (db_jobs db)")
    case None
    then have "\<forall>row \<in> set (db_jobs db). jr_receipt row \<noteq> Some (rkey cfg r)" by (auto simp: find_None_iff)
    with None show ?thesis by (auto simp: current_row_def)
  next
    case (Some row0)
    then have "row0 \<in> set (db_jobs db)" "jr_receipt row0 = Some (rkey cfg r)"
      by (auto simp: find_Some_iff)
    with Some one show ?thesis by (auto simp: current_row_def)
  qed
qed

lemma find_valid_row_calm [sql_calm_simps]:
  "sb_ok cfg \<Longrightarrow> find_valid_row cfg r now (calm db w) =
     (case current_row cfg r now db of Some row \<Rightarrow> Inr (jr_seq row, jr_envelope row) | None \<Rightarrow> Inl (stale r), calm db w)"
  by (auto simp: find_valid_row_def sql_calm_simps sb_receipt_rkey current_row_def valid_lease_def split: option.splits)

lemma sqlite_ack_calm:
  assumes "sb_ok cfg"
  shows "sqlite_ack cfg t r (calm db w) =
    (case current_row cfg r (nanos t) db of
       None \<Rightarrow> (Inl (stale r), calm db w)
     | Some row \<Rightarrow> (Inr (), calm (drop_row (jr_seq row) db) w))"
  by (cases "current_row cfg r (nanos t) db")
    (simp_all add: sqlite_ack_def sql_calm_simps assms free_unique_key_def delete_job_def drop_row_def)

lemma sqlite_defer_calm:
  assumes "sb_ok cfg"
  shows "sqlite_defer cfg t r d (calm db w) =
    (case current_row cfg r (nanos t) db of
       None \<Rightarrow> (Inl (stale r), calm db w)
     | Some row \<Rightarrow> (Inr (), calm (update_row (jr_seq row) (reschedule_row (nanos (dur_saturating_add t d))) db) w))"
  by (cases "current_row cfg r (nanos t) db") (simp_all add: sqlite_defer_def sql_calm_simps assms)

lemma sqlite_retry_calm:
  assumes "sb_ok cfg" and "sqlite_wf cfg db"
  shows "sqlite_retry cfg t r d (calm db w) =
    (case current_row cfg r (nanos t) db of
       None \<Rightarrow> (Inl (stale r), calm db w)
     | Some row \<Rightarrow>
         (case sb_encode cfg (bump_attempts (row_env cfg row)) of
            Inl e \<Rightarrow> (Inl e, calm db w)
          | Inr b \<Rightarrow> (Inr (), calm (update_row (jr_seq row)
              (\<lambda>row. reschedule_row (nanos (dur_saturating_add t d)) row\<lparr> jr_envelope := b \<rparr>) db) w)))"
proof (cases "current_row cfg r (nanos t) db")
  case None
  then show ?thesis by (simp add: sqlite_retry_def sql_calm_simps assms)
next
  case (Some row)
  then have "row \<in> set (db_jobs db)" using current_row_Some [OF assms(2)] by blast
  then obtain e where "sb_decode cfg (jr_envelope row) = Inr e" "row_env cfg row = e" by (rule row_okE [OF assms(2)])
  with Some show ?thesis
    by (cases "sb_encode cfg (bump_attempts e)") (simp_all add: sqlite_retry_def sql_calm_simps assms)
qed

lemma distinct_filter_one: "distinct xs \<Longrightarrow> x \<in> set xs \<Longrightarrow> length (filter (\<lambda>y. y = x) xs) = 1"
  by (induction xs) (auto simp: filter_empty_conv)

lemma extend_rows_current:
  assumes wf: "sqlite_wf cfg db"
  shows "extend_rows (rkey cfg r) until now db =
    (case current_row cfg r now db of
       None \<Rightarrow> (0, db)
     | Some row \<Rightarrow> (1, update_row (jr_seq row) (\<lambda>row. row\<lparr> jr_leased_until := Some until \<rparr>) db))"
proof -
  define hit where "hit = (\<lambda>row. jr_receipt row = Some (rkey cfg r) \<and> valid_lease now row)"
  have ext: "extend_rows (rkey cfg r) until now db = (length (filter hit (db_jobs db)),
      db\<lparr> db_jobs := map (\<lambda>row. if hit row then row\<lparr> jr_leased_until := Some until \<rparr> else row) (db_jobs db) \<rparr>)"
    by (simp add: extend_rows_def hit_def valid_lease_def Let_def)
  show ?thesis
  proof (cases "current_row cfg r now db")
    case None
    then have none: "\<not> hit row" if "row \<in> set (db_jobs db)" for row
      using that current_row_Some [OF wf, of r now row] by (auto simp: hit_def)
    then have "filter hit (db_jobs db) = []" by (simp add: filter_empty_conv)
    moreover have "map (\<lambda>row. if hit row then row\<lparr> jr_leased_until := Some until \<rparr> else row) (db_jobs db) = db_jobs db"
      using none by (intro map_idI) simp
    ultimately show ?thesis using None by (simp add: ext)
  next
    case (Some row)
    then have row: "row \<in> set (db_jobs db)" using current_row_Some [OF wf] by blast
    have iff: "hit r' \<longleftrightarrow> jr_seq r' = jr_seq row" if "r' \<in> set (db_jobs db)" for r'
      using that Some current_row_Some [OF wf] same_seq_same_row [OF wf that row] unfolding hit_def
      by (metis option.inject)
    have "filter hit (db_jobs db) = filter (\<lambda>r'. r' = row) (db_jobs db)"
      using iff same_seq_same_row [OF wf _ row] by (intro filter_cong) auto
    also have "length \<dots> = 1"
      using row sqlite_wfD(1) [OF wf] by (intro distinct_filter_one) (simp_all add: distinct_map)
    finally show ?thesis using Some iff by (simp add: ext update_row_def cong: map_cong)
  qed
qed

lemma sqlite_extend_calm:
  assumes "sb_ok cfg" and "sqlite_wf cfg db"
  shows "sqlite_extend cfg t r (calm db w) =
    (case current_row cfg r (nanos t) db of
       None \<Rightarrow> (Inl (stale r), calm db w)
     | Some row \<Rightarrow> (Inr (), calm (update_row (jr_seq row)
         (\<lambda>row. row\<lparr> jr_leased_until := Some (nanos (dur_saturating_add t (sb_lease cfg))) \<rparr>) db) w))"
  by (cases "current_row cfg r (nanos t) db")
    (simp_all add: sqlite_extend_def sql_calm_simps sb_receipt_rkey assms extend_rows_current [OF assms(2)])

section \<open>Dead letters\<close>

definition pruned :: "string \<Rightarrow> retention_policy \<Rightarrow> int \<Rightarrow> sqlite_db \<Rightarrow> sqlite_db" where
  "pruned lane policy now db =
     (if is_unbounded policy then db
      else let db1 = (case age_cutoff_nanos policy now of Some cutoff \<Rightarrow> prune_by_age lane cutoff db | None \<Rightarrow> db)
           in case keep_count policy of Some keep \<Rightarrow> prune_by_count lane keep db1 | None \<Rightarrow> db1)"

lemma prune_dead_letters_calm [sql_calm_simps]:
  "prune_dead_letters lane policy now (calm db w) = (Inr (), calm (pruned lane policy now db) w)"
  by (auto simp: prune_dead_letters_def pruned_def sql_calm_simps split: option.splits)

lemma pruned_filter: "\<exists>P. pruned lane policy now db = db\<lparr> db_dead := filter P (db_dead db) \<rparr>"
proof -
  have id: "\<exists>P. db = db\<lparr> db_dead := filter P (db_dead db) \<rparr>" for db :: sqlite_db
    by (rule exI [of _ "\<lambda>_. True"]) simp
  have count: "\<exists>P. prune_by_count lane keep (db\<lparr> db_dead := filter Q (db_dead db) \<rparr>) =
      db\<lparr> db_dead := filter P (db_dead db) \<rparr>" for keep Q
    unfolding prune_by_count_def Let_def by simp (blast intro: exI [of _ "\<lambda>x. _ x \<and> _ x"])
  show ?thesis
    using id [of db] count [of _ "\<lambda>_. True"] count
    by (auto simp: pruned_def prune_by_age_def Let_def split: option.splits)
qed

definition bury :: "sqlite_config \<Rightarrow> int \<Rightarrow> bytes \<Rightarrow> job_envelope \<Rightarrow> string \<Rightarrow> int \<Rightarrow> sqlite_db \<Rightarrow> sqlite_db" where
  "bury cfg seq blob e err now db =
     pruned (lane_str (env_lane e)) (sb_retention cfg) now (drop_row seq (db\<lparr> db_dead := db_dead db @
       [\<lparr> dr_seq = next_rowid (map dr_seq (db_dead db)), dr_id = sb_id cfg (env_id e),
          dr_lane = lane_str (env_lane e), dr_envelope = blob, dr_error = err,
          dr_unique_key = key_of_seq seq db, dr_dead_at = now \<rparr>] \<rparr>))"

lemma dead_letter_seq_calm [sql_calm_simps]:
  "sb_decode cfg blob = Inr e \<Longrightarrow> dead_letter_seq cfg seq blob err now (calm db w) =
     (if list_ex (\<lambda>d. dr_id d = sb_id cfg (env_id e)) (db_dead db)
      then (Inl (sql_err ''UNIQUE constraint failed: dead.id''), calm db w)
      else (Inr (), calm (bury cfg seq blob e err now db) w))"
  by (simp add: dead_letter_seq_def sql_calm_simps insert_dead_def free_unique_key_def delete_job_def
      bury_def drop_row_def)

lemma bury_tables:
  "db_jobs (bury cfg seq blob e err now db) = db_jobs (drop_row seq db)"
  "db_unique_keys (bury cfg seq blob e err now db) = db_unique_keys (drop_row seq db)"
  "d \<in> set (db_dead (bury cfg seq blob e err now db)) \<Longrightarrow> d \<in> set (db_dead db) \<or> dr_id d = sb_id cfg (env_id e)"
proof -
  obtain P where P: "bury cfg seq blob e err now db =
    (let db' = drop_row seq (db\<lparr> db_dead := db_dead db @
       [\<lparr> dr_seq = next_rowid (map dr_seq (db_dead db)), dr_id = sb_id cfg (env_id e),
          dr_lane = lane_str (env_lane e), dr_envelope = blob, dr_error = err,
          dr_unique_key = key_of_seq seq db, dr_dead_at = now \<rparr>] \<rparr>) in db'\<lparr> db_dead := filter P (db_dead db') \<rparr>)"
    unfolding bury_def Let_def using pruned_filter by blast
  show "db_jobs (bury cfg seq blob e err now db) = db_jobs (drop_row seq db)"
    "db_unique_keys (bury cfg seq blob e err now db) = db_unique_keys (drop_row seq db)"
    "d \<in> set (db_dead (bury cfg seq blob e err now db)) \<Longrightarrow> d \<in> set (db_dead db) \<or> dr_id d = sb_id cfg (env_id e)"
    unfolding P by (auto simp: drop_row_def Let_def split: if_splits)
qed

lemma wf_bury:
  assumes wf: "sqlite_wf cfg db" and e: "sb_decode cfg blob = Inr e"
    and i: "\<not> list_ex (\<lambda>d. dr_id d = sb_id cfg (env_id e)) (db_dead db)"
  shows "sqlite_wf cfg (bury cfg seq blob e err now db)"
proof -
  let ?d = "\<lparr> dr_seq = next_rowid (map dr_seq (db_dead db)), dr_id = sb_id cfg (env_id e),
    dr_lane = lane_str (env_lane e), dr_envelope = blob, dr_error = err,
    dr_unique_key = key_of_seq seq db, dr_dead_at = now \<rparr>"
  have "sqlite_wf cfg (db\<lparr> db_dead := db_dead db @ [?d] \<rparr>)"
    using i by (intro wf_insert_dead [OF wf]) (auto simp: dead_ok_def e list_ex_iff)
  then have "sqlite_wf cfg (drop_row seq (db\<lparr> db_dead := db_dead db @ [?d] \<rparr>))" by (rule wf_drop_row)
  with pruned_filter wf_dead_filter show ?thesis unfolding bury_def by metis
qed

lemma sqlite_fail_calm:
  assumes "sb_ok cfg" and "sqlite_wf cfg db"
  shows "sqlite_fail cfg t r err (calm db w) =
    (let w' = snd (warn_once (sb_retention cfg) w) in
     case current_row cfg r (nanos t) db of
       None \<Rightarrow> (Inl (stale r), calm db w')
     | Some row \<Rightarrow>
         if list_ex (\<lambda>d. dr_id d = jr_id row) (db_dead db)
         then (Inl (sql_err ''UNIQUE constraint failed: dead.id''), calm db w')
         else (Inr (), calm (bury cfg (jr_seq row) (jr_envelope row) (row_env cfg row) err (nanos t) db) w'))"
proof (cases "current_row cfg r (nanos t) db")
  case None
  then show ?thesis by (simp add: sqlite_fail_def sql_calm_simps assms Let_def)
next
  case (Some row)
  then have "row \<in> set (db_jobs db)" using current_row_Some [OF assms(2)] by blast
  then obtain e where "sb_decode cfg (jr_envelope row) = Inr e" "row_env cfg row = e" "jr_id row = sb_id cfg (env_id e)"
    by (rule row_okE [OF assms(2)])
  with Some show ?thesis
    by (cases "list_ex (\<lambda>d. dr_id d = jr_id row) (db_dead db)") (simp_all add: sqlite_fail_def sql_calm_simps assms Let_def)
qed

section \<open>Enqueueing on a calm engine\<close>

definition new_row :: "sqlite_config \<Rightarrow> job_envelope \<Rightarrow> string \<Rightarrow> int \<Rightarrow> bytes \<Rightarrow> sqlite_db \<Rightarrow> job_row" where
  "new_row cfg e lane available_at blob db =
     \<lparr> jr_seq = next_rowid (map jr_seq (db_jobs db)), jr_id = sb_id cfg (env_id e), jr_receipt = None,
       jr_lane = lane, jr_priority = int (unat (env_priority e)), jr_available_at = available_at,
       jr_leased_until = None, jr_envelope = blob, jr_deliveries = 0 \<rparr>"

lemma insert_row_taken: "i \<in> jr_id ` set (db_jobs db) \<Longrightarrow> insert_row i lane p at blob db = (None, db)"
  by (auto simp: insert_row_def list_ex_iff)

lemma insert_row_new:
  "sb_id cfg (env_id e) \<notin> jr_id ` set (db_jobs db) \<Longrightarrow>
     insert_row (sb_id cfg (env_id e)) lane (int (unat (env_priority e))) at blob db =
       (Some (jr_seq (new_row cfg e lane at blob db)),
        db\<lparr> db_jobs := db_jobs db @ [new_row cfg e lane at blob db] \<rparr>)"
  by (auto simp: insert_row_def list_ex_iff new_row_def Let_def image_iff)

lemma insert_unique_key_calm [sql_calm_simps]:
  "insert_unique_key key seq (calm db w) =
     (if key_taken key db then (Inl (sql_err ''UNIQUE constraint failed: unique_keys.unique_key''), calm db w)
      else (Inr (), calm (add_key key seq db) w))"
  by (simp add: insert_unique_key_def sql_calm_simps)

lemma map_filter_Cons_cases: "List.map_filter f xs = y # ys \<Longrightarrow> \<exists>x \<in> set xs. f x = Some y"
  by (induction xs) (auto simp: List.map_filter_simps split: option.splits)

lemma key_holder_cases:
  assumes wf: "sqlite_wf cfg db"
  obtains (held) row where "key_holder key db = Some (jr_envelope row)" "row \<in> set (db_jobs db)" "key_taken key db"
  | (free) "key_holder key db = None" "\<not> key_taken key db"
proof (cases "List.map_filter (\<lambda>(k, seq). if k = key then find (\<lambda>row. jr_seq row = seq) (db_jobs db) else None) (db_unique_keys db)")
  case Nil
  have "\<not> key_taken key db"
  proof
    assume "key_taken key db"
    then obtain seq where p: "(key, seq) \<in> set (db_unique_keys db)" by (auto simp: key_taken_def)
    from sqlite_wfD(7) [OF wf p] have "find (\<lambda>row. jr_seq row = seq) (db_jobs db) \<noteq> None"
      by (auto simp: find_None_iff)
    with Nil p show False by (auto simp: List.map_filter_def filter_empty_conv)
  qed
  with Nil free show thesis by (simp add: key_holder_def)
next
  case (Cons row rows)
  from map_filter_Cons_cases [OF this] obtain seq where
    "(key, seq) \<in> set (db_unique_keys db)" "find (\<lambda>row. jr_seq row = seq) (db_jobs db) = Some row"
    by (auto split: if_splits)
  then have "row \<in> set (db_jobs db)" "key_taken key db" by (force simp: find_Some_iff, force simp: key_taken_def)
  with Cons held [of row] show thesis by (simp add: key_holder_def)
qed

lemma insert_job_calm_cases:
  assumes ok: "sb_ok cfg" and wf: "sqlite_wf cfg db" and run: "insert_job cfg job at (calm db w) = (r, s')"
  obtains (existing) i where "r = Inr i" "s' = calm db w" "sb_id cfg i \<in> jr_id ` set (db_jobs db)"
  | (refused) e where "r = Inl e" "s' = calm db w" "sb_encode cfg (into_envelope job) = Inl e"
  | (added) blob where "r = Inr (nj_id job)" "sb_encode cfg (into_envelope job) = Inr blob"
      "s' = calm (add_job (new_row cfg (into_envelope job) (lane_str (nj_lane job)) at blob db) (nj_unique_key job) db) w"
      "sb_id cfg (nj_id job) \<notin> jr_id ` set (db_jobs db)"
      "\<forall>k. nj_unique_key job = Some k \<longrightarrow> \<not> key_taken k db"
proof -
  have fresh_key: thesis if free: "\<forall>k. nj_unique_key job = Some k \<longrightarrow> key_holder k db = None \<and> \<not> key_taken k db"
  proof (cases "sb_encode cfg (into_envelope job)")
    case (Inl e)
    with run free refused show thesis
      by (cases "nj_unique_key job") (auto simp: insert_job_def sql_calm_simps Let_def)
  next
    case (Inr blob)
    show thesis
    proof (cases "sb_id cfg (nj_id job) \<in> jr_id ` set (db_jobs db)")
      case True
      with run free Inr existing [of "nj_id job"] show thesis
        by (cases "nj_unique_key job") (auto simp: insert_job_def sql_calm_simps insert_row_taken Let_def)
    next
      case False
      note row = insert_row_new [of cfg "into_envelope job" db, simplified, OF False]
      from False run free Inr added [of blob] show thesis
        by (cases "nj_unique_key job")
          (simp_all add: insert_job_def sql_calm_simps row Let_def key_taken_def add_job_def)
    qed
  qed
  show thesis
  proof (cases "nj_unique_key job")
    case None
    with fresh_key show thesis by simp
  next
    case (Some k)
    from wf show thesis
    proof (cases rule: key_holder_cases [where key = k])
      case (held row)
      obtain e where e: "sb_decode cfg (jr_envelope row) = Inr e" "jr_id row = sb_id cfg (env_id e)"
        using held(2) by (rule row_okE [OF wf])
      from held(2) e(2) have "sb_id cfg (env_id e) \<in> jr_id ` set (db_jobs db)" by (metis imageI)
      moreover have "r = Inr (env_id e)" "s' = calm db w"
        using run held Some e(1) by (simp_all add: insert_job_def sql_calm_simps)
      ultimately show thesis by (intro existing)
    next
      case free
      with Some fresh_key show thesis by simp
    qed
  qed
qed

end
