(* ===== verification/Sqlite_Contract.thy ===== *)
theory Sqlite_Contract
  imports Sqlite_Laws
begin

text \<open>
  The laws of the broker contract for the SQLite broker, whatever the script of the engine: an
  operation it refuses changes nothing, one that succeeds does what it does on a calm engine.  The
  state is healthy when the engine refuses nothing any more and every live job could be retried and
  dead-lettered; then every call on a current receipt succeeds.
\<close>

section \<open>Fair and atomic operations\<close>

lemma sql_fair_parts [sql_fair_rules]:
  "sql_fair (insert_job cfg job at)" "sql_fair (find_valid_row cfg r now)" "sql_fair (free_unique_key seq)"
  "sql_fair (delete_job seq)" "sql_fair (prune_dead_letters lane p now)" "sql_fair (lease_next key until lane now)"
  by (unfold insert_job_def find_valid_row_def free_unique_key_def delete_job_def prune_dead_letters_def
      lease_next_def insert_unique_key_def Let_def) (intro sql_fair_rules)+

lemma sql_fair_dead_letter [sql_fair_rules]: "sql_fair (dead_letter_seq cfg seq blob err now)"
  unfolding dead_letter_seq_def insert_dead_def by (intro sql_fair_rules)

lemma sql_fair_jobs [sql_fair_rules]: "sql_fair (insert_jobs cfg now jobs)"
  by (induction jobs) (simp_all only: insert_jobs.simps, (intro sql_fair_rules | assumption)+)

lemma sql_fair_sweep [sql_fair_rules]: "sql_fair (sweep_loop cfg r key until lane now m n)"
  by (induction n) (simp_all only: sweep_loop.simps, (intro sql_fair_rules | assumption)+)

lemma sql_fair_ops [sql_fair_rules]:
  "sql_fair (sqlite_enqueue cfg t job)" "sql_fair (sqlite_reserve cfg t r l)" "sql_fair (sqlite_ack cfg t r)"
  "sql_fair (sqlite_retry cfg t r d)" "sql_fair (sqlite_defer cfg t r d)" "sql_fair (sqlite_extend cfg t r)"
  "sql_fair (sqlite_classify cfg i)" "sql_fair (sqlite_enqueue_batch cfg t jobs)" "sql_fair (sqlite_requeue cfg t i)"
  "sql_fair (sqlite_purge_dead_letters cfg l)" "sql_fair (sqlite_enqueue_scheduled cfg t n k job)"
  "sql_fair (sqlite_remove_schedule cfg n)" "sql_fair (sqlite_result_store cfg i b)"
  by (unfold sqlite_enqueue_def sqlite_reserve_def sqlite_ack_def sqlite_retry_def sqlite_defer_def sqlite_extend_def
      sqlite_classify_def sqlite_enqueue_batch_def sqlite_requeue_def sqlite_purge_dead_letters_def
      sqlite_enqueue_scheduled_def sqlite_remove_schedule_def sqlite_result_store_def Let_def) (intro sql_fair_rules)+

lemma sql_atomic_ops [sql_atomic_rules]:
  "sql_atomic (sqlite_enqueue cfg t job)" "sql_atomic (sqlite_ack cfg t r)"
  "sql_atomic (sqlite_retry cfg t r d)" "sql_atomic (sqlite_defer cfg t r d)"
  "sql_atomic (sqlite_enqueue_batch cfg t jobs)" "sql_atomic (sqlite_requeue cfg t i)"
  "sql_atomic (sqlite_purge_dead_letters cfg l)" "sql_atomic (sqlite_enqueue_scheduled cfg t n k job)"
  "sql_atomic (sqlite_remove_schedule cfg n)" "sql_atomic (sqlite_result_store cfg i b)"
  by (unfold sqlite_enqueue_def sqlite_ack_def sqlite_retry_def sqlite_defer_def sqlite_enqueue_batch_def
      sqlite_requeue_def sqlite_purge_dead_letters_def sqlite_enqueue_scheduled_def sqlite_remove_schedule_def
      sqlite_result_store_def Let_def) (intro sql_atomic_rules)+

lemma sql_atomic_extend [sql_atomic_rules]: "sql_atomic (sqlite_extend cfg t r)"
proof -
  have none: "db' = db" if "extend_rows key until now db = (0, db')" for key until now db db'
    using that by (auto simp: extend_rows_def Let_def filter_empty_conv intro!: sqlite_db.equality map_idI)
  have "sql_atomic (sql_then (sql_stmt sql_err (\<lambda>db. Inr (extend_rows key until now db)))
      (\<lambda>changed. if changed = 0 then sql_lift (Inl (stale r)) else sql_ok ()))" for key until now
    by (auto simp: sql_atomic_def sql_then_def sql_stmt_def Let_def sql_lift_def sql_ok_def dest!: none
        split: list.splits option.splits prod.splits if_splits)
  then show ?thesis
    unfolding sqlite_extend_def by (rule sql_atomic_conn [OF sql_atomic_then [OF sql_reads_lift]])
qed

lemma sqlite_fail_outcome:
  assumes "sqlite_fail cfg t r err s = (u, s')"
  obtains (refused) e where "u = Inl e" "sq_db s' = sq_db s"
  | (carried) w w' where "u = Inr ()" "sqlite_fail cfg t r err (calm (sq_db s) w) = (Inr (), calm (sq_db s') w')"
proof -
  define m where "m = with_conn (sb_pool cfg) (transaction
    (sql_then (find_valid_row cfg r (nanos t)) (\<lambda>(seq, blob). dead_letter_seq cfg seq blob err (nanos t))))"
  have fail: "sqlite_fail cfg t r err s = m (s\<lparr> sq_dlq_warned := snd (warn_once (sb_retention cfg) (sq_dlq_warned s)) \<rparr>)" for s
    by (simp add: sqlite_fail_def m_def)
  have "sql_fair m" unfolding m_def by (intro sql_fair_rules)
  moreover have "sql_atomic m" unfolding m_def by (intro sql_atomic_rules)
  ultimately show thesis
    using assms unfolding fail
  proof (cases rule: sql_outcome)
    case (carried x)
    then show thesis using that(2) [of "sq_dlq_warned s"] by (simp add: fail)
  qed (use that(1) in simp)
qed

section \<open>Resolutions\<close>

lemma holds_current:
  assumes "sb_ok cfg" and "sqlite_wf cfg db"
  shows "holds (db_view cfg t db) i r \<longleftrightarrow>
    (\<exists>row. current_row cfg r (nanos t) db = Some row \<and> jr_id row = sb_id cfg i)"
  unfolding holds_db_view [OF assms] current_row_Some [OF assms(2)] by blast

lemma not_holds_current:
  assumes "sb_ok cfg" and "sqlite_wf cfg db"
  shows "(\<forall>i. \<not> holds (db_view cfg t db) i r) \<longleftrightarrow> current_row cfg r (nanos t) db = None"
proof -
  have "\<exists>i. jr_id row = sb_id cfg i" if "current_row cfg r (nanos t) db = Some row" for row
    using that unfolding current_row_Some [OF assms(2)] by (blast elim: row_okE [OF assms(2)])
  then show ?thesis unfolding holds_current [OF assms] by (metis not_None_eq option.distinct(1))
qed

text \<open>What a resolution of the job of \<open>row\<close> may do to the tables.\<close>

definition resolves :: "sqlite_config \<Rightarrow> job_row \<Rightarrow> sqlite_db \<Rightarrow> sqlite_db \<Rightarrow> bool" where
  "resolves cfg row db db' \<longleftrightarrow>
     sqlite_wf cfg db' \<and> (\<forall>r. db_fresh cfg r db \<longrightarrow> db_fresh cfg r db') \<and>
     (\<forall>i t. jr_id row \<noteq> sb_id cfg i \<longrightarrow> db_view cfg t db' i = db_view cfg t db i)"

lemma resolves_drop:
  assumes "sqlite_wf cfg db" and "row \<in> set (db_jobs db)"
  shows "resolves cfg row db (drop_row (jr_seq row) db)"
  using assms wf_drop_row [OF assms(1)] db_view_drop [OF assms]
  by (auto simp: resolves_def db_fresh_def drop_row_def)

lemma resolves_bury:
  assumes wf: "sqlite_wf cfg db" and row: "row \<in> set (db_jobs db)"
    and dead: "\<not> list_ex (\<lambda>d. dr_id d = jr_id row) (db_dead db)"
  shows "resolves cfg row db (bury cfg (jr_seq row) (jr_envelope row) (row_env cfg row) err now db)"
    and "db_view cfg t (bury cfg (jr_seq row) (jr_envelope row) (row_env cfg row) err now db) i =
      (if jr_id row = sb_id cfg i then None else db_view cfg t db i)"
proof -
  let ?b = "bury cfg (jr_seq row) (jr_envelope row) (row_env cfg row) err now db"
  obtain e where e: "sb_decode cfg (jr_envelope row) = Inr e" "row_env cfg row = e" "jr_id row = sb_id cfg (env_id e)"
    using row by (rule row_okE [OF wf])
  have "sqlite_wf cfg ?b" using wf_bury [OF wf e(1)] dead e by simp
  moreover have view: "db_view cfg t ?b i = (if jr_id row = sb_id cfg i then None else db_view cfg t db i)" for t i
    using db_view_drop [OF wf row] db_view_cong [OF bury_tables(1,2)] by metis
  moreover have "db_fresh cfg r db \<Longrightarrow> db_fresh cfg r ?b" for r
    by (auto simp: db_fresh_def bury_tables(1) drop_row_def)
  ultimately show "resolves cfg row db ?b" "db_view cfg t ?b i =
      (if jr_id row = sb_id cfg i then None else db_view cfg t db i)"
    by (auto simp: resolves_def)
qed

lemma resolves_update:
  assumes wf: "sqlite_wf cfg db" and row: "row \<in> set (db_jobs db)"
    and keep: "\<And>row. jr_seq (f row) = jr_seq row" "\<And>row. jr_id (f row) = jr_id row"
    and rc: "\<And>row. jr_receipt (f row) = None \<or> jr_receipt (f row) = jr_receipt row"
    and ok: "row_ok cfg (f row)"
  shows "resolves cfg row db (update_row (jr_seq row) f db)"
proof -
  have "row_ok cfg (f r)" if "r \<in> set (db_jobs db)" "jr_seq r = jr_seq row" for r
    using same_seq_same_row [OF wf that(1) row that(2)] ok by simp
  moreover have "jr_seq other = jr_seq row"
    if "r \<in> set (db_jobs db)" "jr_seq r = jr_seq row" "jr_receipt (f r) = Some k"
      "other \<in> set (db_jobs db)" "jr_receipt other = Some k" for r k other
  proof -
    have "jr_receipt r = Some k" using rc [of r] that(3) by auto
    then have "jr_seq other = jr_seq r"
      using that(1,4,5) sqlite_wfD(4) [OF wf] unfolding receipts_apart_def by blast
    with that(2) show ?thesis by simp
  qed
  ultimately have "sqlite_wf cfg (update_row (jr_seq row) f db)" by (intro wf_update_row [OF wf keep])
  moreover have "db_fresh cfg r (update_row (jr_seq row) f db)" if "db_fresh cfg r db" for r
    using that rc by (auto simp: db_fresh_def update_row_def) (metis option.distinct(1))
  ultimately show ?thesis
    using db_view_update [OF wf row keep(2)] by (auto simp: resolves_def)
qed

lemma row_ok_reschedule:
  assumes "row_ok cfg row"
  shows "row_ok cfg (reschedule_row at row)"
  using assms by (simp add: row_ok_def reschedule_row_def)

lemma row_ok_retry:
  assumes ok: "sb_ok cfg" and wf: "sqlite_wf cfg db" and row: "row \<in> set (db_jobs db)"
    and b: "sb_encode cfg (bump_attempts (row_env cfg row)) = Inr b"
  shows "row_ok cfg (reschedule_row at row\<lparr> jr_envelope := b \<rparr>)"
    and "row_env cfg (reschedule_row at row\<lparr> jr_envelope := b \<rparr>) = bump_attempts (row_env cfg row)"
proof -
  from sb_decode_encode [OF ok b] have d: "sb_decode cfg b = Inr (bump_attempts (row_env cfg row))" .
  from sqlite_wfD(3) [OF wf row] show "row_ok cfg (reschedule_row at row\<lparr> jr_envelope := b \<rparr>)"
    by (auto simp: row_ok_def row_env_def reschedule_row_def d [unfolded row_env_def])
  show "row_env cfg (reschedule_row at row\<lparr> jr_envelope := b \<rparr>) = bump_attempts (row_env cfg row)"
    using d by (simp add: row_env_def reschedule_row_def)
qed

lemma row_ok_extend:
  assumes "row_ok cfg row" and "jr_receipt row = Some k"
  shows "row_ok cfg (row\<lparr> jr_leased_until := Some u \<rparr>)"
  using assms by (simp add: row_ok_def)

text \<open>The five resolutions: refused with the tables as they were, or carried out on the row that
  the receipt is current for.\<close>

definition ack_db :: "job_row \<Rightarrow> sqlite_db \<Rightarrow> sqlite_db" where
  "ack_db row db = drop_row (jr_seq row) db"

definition fail_db :: "sqlite_config \<Rightarrow> duration \<Rightarrow> string \<Rightarrow> job_row \<Rightarrow> sqlite_db \<Rightarrow> sqlite_db" where
  "fail_db cfg t err row db = bury cfg (jr_seq row) (jr_envelope row) (row_env cfg row) err (nanos t) db"

definition retry_db :: "sqlite_config \<Rightarrow> duration \<Rightarrow> duration \<Rightarrow> job_row \<Rightarrow> sqlite_db \<Rightarrow> sqlite_db" where
  "retry_db cfg t d row db = update_row (jr_seq row) (\<lambda>r. reschedule_row (nanos (dur_saturating_add t d)) r
     \<lparr> jr_envelope := projr (sb_encode cfg (bump_attempts (row_env cfg row))) \<rparr>) db"

definition defer_db :: "duration \<Rightarrow> duration \<Rightarrow> job_row \<Rightarrow> sqlite_db \<Rightarrow> sqlite_db" where
  "defer_db t d row db = update_row (jr_seq row) (reschedule_row (nanos (dur_saturating_add t d))) db"

definition extend_db :: "sqlite_config \<Rightarrow> duration \<Rightarrow> job_row \<Rightarrow> sqlite_db \<Rightarrow> sqlite_db" where
  "extend_db cfg t row db = update_row (jr_seq row)
     (\<lambda>r. r\<lparr> jr_leased_until := Some (nanos (dur_saturating_add t (sb_lease cfg))) \<rparr>) db"

lemma sqlite_ack_db:
  assumes "sb_ok cfg" and "sqlite_ack cfg t r s = (u, s')"
  shows "(\<exists>e. u = Inl e) \<and> sq_db s' = sq_db s \<or>
    (\<exists>row. current_row cfg r (nanos t) (sq_db s) = Some row \<and> u = Inr () \<and> sq_db s' = ack_db row (sq_db s))"
  using sql_fair_ops(3) sql_atomic_ops(2) assms(2)
  by (cases rule: sql_outcome) (auto simp: sqlite_ack_calm [OF assms(1)] ack_db_def split: option.splits)

lemma sqlite_defer_db:
  assumes "sb_ok cfg" and "sqlite_defer cfg t r d s = (u, s')"
  shows "(\<exists>e. u = Inl e) \<and> sq_db s' = sq_db s \<or>
    (\<exists>row. current_row cfg r (nanos t) (sq_db s) = Some row \<and> u = Inr () \<and> sq_db s' = defer_db t d row (sq_db s))"
  using sql_fair_ops(5) sql_atomic_ops(4) assms(2)
  by (cases rule: sql_outcome) (auto simp: sqlite_defer_calm [OF assms(1)] defer_db_def split: option.splits)

lemma sqlite_retry_db:
  assumes "sqlite_inv cfg s" and "sqlite_retry cfg t r d s = (u, s')"
  shows "(\<exists>e. u = Inl e) \<and> sq_db s' = sq_db s \<or>
    (\<exists>row. current_row cfg r (nanos t) (sq_db s) = Some row \<and> u = Inr () \<and>
       sq_db s' = retry_db cfg t d row (sq_db s) \<and> is_ok (sb_encode cfg (bump_attempts (row_env cfg row))))"
  using sql_fair_ops(4) sql_atomic_ops(3) assms(2)
  by (cases rule: sql_outcome)
    (use assms(1) in \<open>auto simp: sqlite_retry_calm sqlite_inv_def retry_db_def split: option.splits sum.splits\<close>)

lemma sqlite_extend_db:
  assumes "sqlite_inv cfg s" and "sqlite_extend cfg t r s = (u, s')"
  shows "(\<exists>e. u = Inl e) \<and> sq_db s' = sq_db s \<or>
    (\<exists>row. current_row cfg r (nanos t) (sq_db s) = Some row \<and> u = Inr () \<and> sq_db s' = extend_db cfg t row (sq_db s))"
  using sql_fair_ops(6) sql_atomic_extend assms(2)
  by (cases rule: sql_outcome)
    (use assms(1) in \<open>auto simp: sqlite_extend_calm sqlite_inv_def extend_db_def split: option.splits\<close>)

lemma sqlite_fail_db:
  assumes "sqlite_inv cfg s" and "sqlite_fail cfg t r err s = (u, s')"
  shows "(\<exists>e. u = Inl e) \<and> sq_db s' = sq_db s \<or>
    (\<exists>row. current_row cfg r (nanos t) (sq_db s) = Some row \<and> u = Inr () \<and>
       sq_db s' = fail_db cfg t err row (sq_db s) \<and> \<not> list_ex (\<lambda>d. dr_id d = jr_id row) (db_dead (sq_db s)))"
  using assms(2)
  by (cases rule: sqlite_fail_outcome)
    (use assms(1) in \<open>auto simp: sqlite_fail_calm sqlite_inv_def fail_db_def Let_def split: option.splits if_splits\<close>)

lemma resolution_resolves:
  assumes inv: "sqlite_inv cfg s" and row: "current_row cfg r now (sq_db s) = Some row"
  shows "resolves cfg row (sq_db s) (ack_db row (sq_db s))"
    and "\<not> list_ex (\<lambda>d. dr_id d = jr_id row) (db_dead (sq_db s)) \<Longrightarrow>
      resolves cfg row (sq_db s) (fail_db cfg t err row (sq_db s))"
    and "is_ok (sb_encode cfg (bump_attempts (row_env cfg row))) \<Longrightarrow>
      resolves cfg row (sq_db s) (retry_db cfg t d row (sq_db s))"
    and "resolves cfg row (sq_db s) (defer_db t d row (sq_db s))"
    and "resolves cfg row (sq_db s) (extend_db cfg t row (sq_db s))"
proof -
  from inv have ok: "sb_ok cfg" and wf: "sqlite_wf cfg (sq_db s)" by (simp_all add: sqlite_inv_def)
  from row have mem: "row \<in> set (db_jobs (sq_db s))" and rc: "jr_receipt row = Some (rkey cfg r)"
    using current_row_Some [OF wf] by blast+
  note row_ok = sqlite_wfD(3) [OF wf mem]
  show "resolves cfg row (sq_db s) (ack_db row (sq_db s))"
    unfolding ack_db_def by (rule resolves_drop [OF wf mem])
  show "resolves cfg row (sq_db s) (fail_db cfg t err row (sq_db s))"
    if "\<not> list_ex (\<lambda>d. dr_id d = jr_id row) (db_dead (sq_db s))"
    unfolding fail_db_def by (rule resolves_bury [OF wf mem that])
  show "resolves cfg row (sq_db s) (retry_db cfg t d row (sq_db s))"
    if "is_ok (sb_encode cfg (bump_attempts (row_env cfg row)))"
    using that row_ok_retry(1) [OF ok wf mem] unfolding retry_db_def
    by (intro resolves_update [OF wf mem]) (auto simp: reschedule_row_def is_ok_iff)
  show "resolves cfg row (sq_db s) (defer_db t d row (sq_db s))"
    using row_ok_reschedule [OF row_ok] unfolding defer_db_def
    by (intro resolves_update [OF wf mem]) (auto simp: reschedule_row_def)
  show "resolves cfg row (sq_db s) (extend_db cfg t row (sq_db s))"
    using row_ok_extend [OF row_ok rc] unfolding extend_db_def
    by (intro resolves_update [OF wf mem]) auto
qed

section \<open>Reservations\<close>

lemma first_row_mem: "first_row rows = Some row \<Longrightarrow> row \<in> set rows"
  by (induction rows arbitrary: row) (auto split: option.splits if_splits)

lemma next_candidate_visible:
  assumes "sqlite_wf cfg db" and "next_candidate lane (nanos t) db = Some row"
  shows "row \<in> set (db_jobs db)" and "jr_lane row = lane" and "jr_available_at row \<le> nanos t"
    and "\<not> valid_lease (nanos t) row"
  using first_row_mem [of "filter (row_visible lane (nanos t)) (db_jobs db)" row] assms(2)
  by (auto simp: next_candidate_def row_visible_def valid_lease_def split: option.splits)

text \<open>A row that has used up its deliveries, and what the sweep of a bounded reservation does to the
  tables: it buries candidates that have.\<close>

definition over_limit :: "sqlite_config \<Rightarrow> job_row \<Rightarrow> bool" where
  "over_limit cfg row \<longleftrightarrow>
     (case sb_max_deliveries cfg of None \<Rightarrow> False | Some m \<Rightarrow> min I64_MAX (jr_deliveries row + 1) > int (unat m))"

inductive swept :: "sqlite_config \<Rightarrow> string \<Rightarrow> int \<Rightarrow> sqlite_db \<Rightarrow> sqlite_db \<Rightarrow> bool" for cfg lane now where
  swept_refl: "swept cfg lane now db db"
| swept_bury: "next_candidate lane now db = Some row \<Longrightarrow> over_limit cfg row \<Longrightarrow> \<not> list_ex (\<lambda>d. dr_id d = jr_id row) (db_dead db) \<Longrightarrow>
    swept cfg lane now (bury cfg (jr_seq row) (jr_envelope row) (row_env cfg row) err now db) db' \<Longrightarrow>
    swept cfg lane now db db'"

lemma swept_facts:
  assumes "swept cfg lane (nanos t) db db'" and "sqlite_wf cfg db"
  shows "sqlite_wf cfg db' \<and> set (db_jobs db') \<subseteq> set (db_jobs db) \<and>
    (\<forall>row \<in> set (db_jobs db). row \<in> set (db_jobs db') \<or> over_limit cfg row \<and> \<not> valid_lease (nanos t) row) \<and>
    (\<forall>i t'. db_view cfg t' db' i = db_view cfg t' db i \<or>
       (db_view cfg t' db' i = None \<and> (\<forall>v. db_view cfg t db i = Some v \<longrightarrow> jv_held v = None)))"
  using assms
proof (induction rule: swept.induct)
  case (swept_bury db row err db')
  note cand = next_candidate_visible [OF swept_bury.prems swept_bury.hyps(1)]
  let ?b = "bury cfg (jr_seq row) (jr_envelope row) (row_env cfg row) err (nanos t) db"
  note buried = resolves_bury [OF swept_bury.prems cand(1) swept_bury.hyps(3)]
  have wf: "sqlite_wf cfg ?b" using buried(1) by (simp add: resolves_def)
  have held: "jv_held v = None" if "jr_id row = sb_id cfg i" "db_view cfg t db i = Some v" for i v
    using that(2) cand(4) db_view_row [OF swept_bury.prems cand(1) that(1), of t] by auto
  have jobs: "set (db_jobs ?b) = {r \<in> set (db_jobs db). jr_seq r \<noteq> jr_seq row}" by (auto simp: bury_tables(1) drop_row_def)
  have "over_limit cfg r \<and> \<not> valid_lease (nanos t) r" if "r \<in> set (db_jobs db)" "jr_seq r = jr_seq row" for r
    using same_seq_same_row [OF swept_bury.prems that(1) cand(1) that(2)] swept_bury.hyps(2) cand(4) by simp
  then have "\<forall>r \<in> set (db_jobs db). r \<in> set (db_jobs ?b) \<or> over_limit cfg r \<and> \<not> valid_lease (nanos t) r"
    unfolding jobs by blast
  moreover have "set (db_jobs ?b) \<subseteq> set (db_jobs db)" unfolding jobs by blast
  moreover have "db_view cfg t' db' i = db_view cfg t' db i \<or>
      (db_view cfg t' db' i = None \<and> (\<forall>v. db_view cfg t db i = Some v \<longrightarrow> jv_held v = None))" for i t'
    using swept_bury.IH [OF wf] buried(2) held by (metis (no_types, lifting))
  ultimately show ?case using swept_bury.IH [OF wf] by blast
qed auto

lemma sweep_loop_calm:
  assumes "sqlite_wf cfg db" and "sweep_loop cfg r key until lane (nanos t) m n (calm db w) = (res, s')"
    and m: "sb_max_deliveries cfg = Some m"
  shows "(\<exists>e. res = Inl e) \<or>
    (\<exists>db'. swept cfg lane (nanos t) db db' \<and>
      (res = Inr None \<and> s' = calm db' w \<or>
       (\<exists>row. next_candidate lane (nanos t) db' = Some row \<and>
          res = Inr (Some (reservation_new (row_env cfg row) r (sb_lease cfg))) \<and>
          s' = calm (update_row (jr_seq row) (lease_row key until) db') w)))"
  using assms(1,2)
proof (induction n arbitrary: db)
  case 0
  then show ?case by (auto simp: sql_calm_simps intro: swept_refl)
next
  case (Suc n)
  show ?case
  proof (cases "next_candidate lane (nanos t) db")
    case None
    with Suc.prems(2) show ?thesis by (auto simp: sql_calm_simps intro: swept_refl)
  next
    case (Some row)
    note cand = next_candidate_visible [OF Suc.prems(1) Some]
    obtain e where e: "sb_decode cfg (jr_envelope row) = Inr e" "row_env cfg row = e" "jr_id row = sb_id cfg (env_id e)"
      using cand(1) by (rule row_okE [OF Suc.prems(1)])
    show ?thesis
    proof (cases "min I64_MAX (jr_deliveries row + 1) > int (unat m)")
      case False
      with Suc.prems(2) Some e have "res = Inr (Some (reservation_new (row_env cfg row) r (sb_lease cfg)))"
        "s' = calm (update_row (jr_seq row) (lease_row key until) db) w"
        by (auto simp: sql_calm_simps)
      with Some swept_refl show ?thesis by blast
    next
      case over: True
      show ?thesis
      proof (cases "list_ex (\<lambda>d. dr_id d = jr_id row) (db_dead db)")
        case True
        with Suc.prems(2) Some e over show ?thesis by (auto simp: sql_calm_simps)
      next
        case False
        let ?err = "''exceeded max deliveries ('' @ show_nat (unat m) @ '')''"
        let ?b = "bury cfg (jr_seq row) (jr_envelope row) (row_env cfg row) ?err (nanos t) db"
        have run: "sweep_loop cfg r key until lane (nanos t) m n (calm ?b w) = (res, s')"
          using Suc.prems(2) Some e over False by (auto simp: sql_calm_simps)
        have "sqlite_wf cfg ?b"
          using resolves_bury(1) [OF Suc.prems(1) cand(1) False] by (simp add: resolves_def)
        moreover have "over_limit cfg row" using over m by (simp add: over_limit_def)
        ultimately show ?thesis using Suc.IH [OF _ run] swept_bury [OF Some _ False] by blast
      qed
    qed
  qed
qed

lemma sqlite_reserve_calm:
  assumes ok: "sb_ok cfg" and wf: "sqlite_wf cfg db" and run: "sqlite_reserve cfg t r l (calm db w) = (Inr opt, s')"
  obtains db' where "swept cfg (lane_str l) (nanos t) db db'"
    "opt = None \<and> s' = calm db' w \<or>
     (\<exists>row. next_candidate (lane_str l) (nanos t) db' = Some row \<and>
        opt = Some (reservation_new (row_env cfg row) r (sb_lease cfg)) \<and>
        s' = calm (update_row (jr_seq row) (lease_row (rkey cfg r) (nanos (dur_saturating_add t (sb_lease cfg)))) db') w)"
proof (cases "sb_max_deliveries cfg")
  case None
  show thesis
  proof (cases "next_candidate (lane_str l) (nanos t) db")
    case c: None
    with None run that [OF swept_refl] show thesis
      by (auto simp: sqlite_reserve_def lease_next_def sql_calm_simps sb_receipt_rkey [OF ok])
  next
    case (Some row)
    obtain e where "sb_decode cfg (jr_envelope row) = Inr e" "row_env cfg row = e"
      using next_candidate_visible(1) [OF wf Some] by (rule row_okE [OF wf])
    with None Some run that [OF swept_refl] show thesis
      by (auto simp: sqlite_reserve_def lease_next_def sql_calm_simps sb_receipt_rkey [OF ok])
  qed
next
  case (Some m)
  obtain res s1 where loop: "sweep_loop cfg r (rkey cfg r) (nanos (dur_saturating_add t (sb_lease cfg))) (lane_str l)
      (nanos t) m MAX_DEAD_LETTER_SWEEP (calm db w) = (res, s1)" by fastforce
  from sweep_loop_calm [OF wf loop Some] show thesis
  proof (elim disjE exE conjE)
    fix e
    assume "res = Inl e"
    with loop run Some show thesis
      by (auto simp: sqlite_reserve_def transaction_def sql_then_def sql_exec_calm with_conn_calm sql_lift_def
          sb_receipt_rkey [OF ok] Let_def split: prod.splits)
  next
    fix db'
    assume a: "swept cfg (lane_str l) (nanos t) db db'" "res = Inr None" "s1 = calm db' w"
    with loop run Some have "opt = None" "s' = calm db' w"
      by (simp_all add: sqlite_reserve_def sql_calm_simps sb_receipt_rkey [OF ok] Let_def)
    with a(1) that show thesis by blast
  next
    fix db' row
    assume a: "swept cfg (lane_str l) (nanos t) db db'" "next_candidate (lane_str l) (nanos t) db' = Some row"
      "res = Inr (Some (reservation_new (row_env cfg row) r (sb_lease cfg)))"
      "s1 = calm (update_row (jr_seq row) (lease_row (rkey cfg r) (nanos (dur_saturating_add t (sb_lease cfg)))) db') w"
    with loop run Some have "opt = Some (reservation_new (row_env cfg row) r (sb_lease cfg))"
      "s' = calm (update_row (jr_seq row) (lease_row (rkey cfg r) (nanos (dur_saturating_add t (sb_lease cfg)))) db') w"
      by (simp_all add: sqlite_reserve_def sql_calm_simps sb_receipt_rkey [OF ok] Let_def)
    with a(1,2) that show thesis by blast
  qed
qed

text \<open>An engine that refuses nothing any more, and live jobs that could all be retried and
  dead-lettered.\<close>

definition db_healthy :: "sqlite_config \<Rightarrow> sqlite_db \<Rightarrow> bool" where
  "db_healthy cfg db \<longleftrightarrow>
     (\<forall>row \<in> set (db_jobs db). \<not> list_ex (\<lambda>d. dr_id d = jr_id row) (db_dead db) \<and>
        is_ok (sb_encode cfg (bump_attempts (row_env cfg row))))"

definition sqlite_healthy :: "sqlite_config \<Rightarrow> sqlite_state \<Rightarrow> bool" where
  "sqlite_healthy cfg s \<longleftrightarrow> sq_faults s = [] \<and> db_healthy cfg (sq_db s)"

lemma db_healthy_bury:
  assumes wf: "sqlite_wf cfg db" and row: "row \<in> set (db_jobs db)" and h: "db_healthy cfg db"
  shows "db_healthy cfg (bury cfg (jr_seq row) (jr_envelope row) (row_env cfg row) err now db)"
proof -
  let ?b = "bury cfg (jr_seq row) (jr_envelope row) (row_env cfg row) err now db"
  obtain e where e: "row_env cfg row = e" "jr_id row = sb_id cfg (env_id e)" using row by (rule row_okE [OF wf])
  have "\<not> list_ex (\<lambda>d. dr_id d = jr_id r) (db_dead ?b)" if r: "r \<in> set (db_jobs db)" "jr_seq r \<noteq> jr_seq row" for r
  proof -
    have "jr_id r \<noteq> jr_id row" using r row sqlite_wfD(2) [OF wf] by (metis distinct_map inj_onD)
    moreover have "dr_id d \<noteq> jr_id r" if "d \<in> set (db_dead db)" for d
      using that r(1) h by (auto simp: db_healthy_def list_ex_iff)
    ultimately show ?thesis
      using bury_tables(3) [of _ cfg "jr_seq row" "jr_envelope row" "row_env cfg row" err now db] e
      unfolding list_ex_iff by metis
  qed
  then show ?thesis using h by (auto simp: db_healthy_def bury_tables(1) drop_row_def)
qed

lemma sweep_loop_healthy:
  assumes "sqlite_wf cfg db" and "db_healthy cfg db"
  shows "\<exists>opt s'. sweep_loop cfg r key until lane (nanos t) m n (calm db w) = (Inr opt, s')"
  using assms
proof (induction n arbitrary: db)
  case 0
  then show ?case by (simp add: sql_calm_simps)
next
  case (Suc n)
  show ?case
  proof (cases "next_candidate lane (nanos t) db")
    case None
    then show ?thesis by (simp add: sql_calm_simps)
  next
    case (Some row)
    note cand = next_candidate_visible [OF Suc.prems(1) Some]
    obtain e where e: "sb_decode cfg (jr_envelope row) = Inr e" "row_env cfg row = e" "jr_id row = sb_id cfg (env_id e)"
      using cand(1) by (rule row_okE [OF Suc.prems(1)])
    have dead: "\<not> list_ex (\<lambda>d. dr_id d = jr_id row) (db_dead db)" using Suc.prems(2) cand(1) by (simp add: db_healthy_def)
    let ?b = "bury cfg (jr_seq row) (jr_envelope row) (row_env cfg row) (''exceeded max deliveries ('' @ show_nat (unat m) @ '')'') (nanos t) db"
    have "sqlite_wf cfg ?b" using resolves_bury(1) [OF Suc.prems(1) cand(1) dead] by (simp add: resolves_def)
    from Suc.IH [OF this db_healthy_bury [OF Suc.prems(1) cand(1) Suc.prems(2)]] Some e dead show ?thesis
      by (cases "min I64_MAX (jr_deliveries row + 1) > int (unat m)") (simp_all add: sql_calm_simps)
  qed
qed

lemma sqlite_reserve_healthy:
  assumes ok: "sb_ok cfg" and wf: "sqlite_wf cfg db" and h: "db_healthy cfg db"
  shows "\<exists>opt s'. sqlite_reserve cfg t r l (calm db w) = (Inr opt, s')"
proof (cases "sb_max_deliveries cfg")
  case None
  show ?thesis
  proof (cases "next_candidate (lane_str l) (nanos t) db")
    case c: None
    with None show ?thesis by (simp add: sqlite_reserve_def lease_next_def sql_calm_simps sb_receipt_rkey [OF ok])
  next
    case (Some row)
    obtain e where "sb_decode cfg (jr_envelope row) = Inr e"
      using next_candidate_visible(1) [OF wf Some] by (rule row_okE [OF wf])
    with None Some show ?thesis
      by (simp add: sqlite_reserve_def lease_next_def sql_calm_simps sb_receipt_rkey [OF ok])
  qed
next
  case (Some m)
  obtain opt s1 where loop: "sweep_loop cfg r (rkey cfg r) (nanos (dur_saturating_add t (sb_lease cfg))) (lane_str l)
      (nanos t) m MAX_DEAD_LETTER_SWEEP (calm db w) = (Inr opt, s1)"
    using sweep_loop_healthy [OF wf h] by blast
  from sweep_loop_calm [OF wf loop Some] obtain db' where "s1 = calm db' w" by auto
  with Some loop show ?thesis by (simp add: sqlite_reserve_def sql_calm_simps sb_receipt_rkey [OF ok] Let_def)
qed

text \<open>A reservation that fails has changed nothing: the one statement of the unbounded path has
  not run, or the transaction of the bounded path has been rolled back.\<close>

lemma sqlite_reserve_refused:
  assumes inv: "sqlite_inv cfg s" and run: "sqlite_reserve cfg t r l s = (Inl e, s')"
  shows "sq_db s' = sq_db s"
proof -
  from inv have ok: "sb_ok cfg" and wf: "sqlite_wf cfg (sq_db s)" by (simp_all add: sqlite_inv_def)
  show ?thesis
  proof (cases "sb_max_deliveries cfg")
    case (Some m)
    have "sql_atomic (sqlite_reserve cfg t r l)"
      unfolding sqlite_reserve_def Let_def Some option.case by (intro sql_atomic_rules)
    with run show ?thesis by (simp add: sql_atomic_def)
  next
    case None
    define body where "body = sql_then (lease_next (rkey cfg r) (nanos (dur_saturating_add t (sb_lease cfg))) (lane_str l) (nanos t))
      (\<lambda>blob. case blob of Some b \<Rightarrow> sql_then (sql_lift (sb_decode cfg b)) (\<lambda>envelope.
        sql_ok (Some (reservation_new envelope r (sb_lease cfg)))) | None \<Rightarrow> sql_ok None)"
    have body: "sq_db s2 = sq_db s1" if wf: "sqlite_wf cfg (sq_db s1)" and "body s1 = (Inl e, s2)" for s1 s2
    proof (cases "lease_next (rkey cfg r) (nanos (dur_saturating_add t (sb_lease cfg))) (lane_str l) (nanos t) s1")
      case (Pair res s3)
      show ?thesis
      proof (cases res)
        case (Inl e')
        moreover have "sq_db s3 = sq_db s1"
          using sql_atomic_stmt Pair [unfolded Inl lease_next_def] unfolding sql_atomic_def by blast
        ultimately show ?thesis using that(2) Pair by (simp add: body_def sql_then_def)
      next
        case (Inr blob)
        from sql_fair_parts(6) Pair [unfolded Inr]
        have "lease_next (rkey cfg r) (nanos (dur_saturating_add t (sb_lease cfg))) (lane_str l) (nanos t)
            (calm (sq_db s1) (sq_dlq_warned s1)) = (Inr blob, calm (sq_db s3) (sq_dlq_warned s1))"
          unfolding sql_fair_def by blast
        then have "\<exists>env. sb_decode cfg b = Inr env" if "blob = Some b" for b
          using that next_candidate_visible(1) [OF wf, of "lane_str l" t] row_okE [OF wf]
          by (auto simp: lease_next_def sql_stmt_calm split: option.splits)
        then have False using that(2) Pair Inr
          by (cases blob) (auto simp: body_def sql_then_def sql_lift_def sql_ok_def)
        then show ?thesis ..
      qed
    qed
    have eq: "sqlite_reserve cfg t r l = with_conn (sb_pool cfg) body"
      by (simp add: sqlite_reserve_def None body_def sb_receipt_rkey [OF ok] Let_def sql_then_lift)
    show ?thesis
    proof (cases "sb_pool cfg")
      case MemoryPool
      with run eq body [OF wf] show ?thesis by (simp add: with_conn_def)
    next
      case FilePool
      let ?co = "sql_stmt (\<lambda>e. Broker [Lit ''sqlite pool checkout failed: '', Lit e]) (\<lambda>db. Inr ((), db))"
      obtain res s1 where co: "?co s = (res, s1)" by fastforce
      then have "sq_db s1 = sq_db s" using sql_reads_stmt [where q = "\<lambda>_. ()"] unfolding sql_reads_def by (metis snd_conv)
      with run eq FilePool co body [of s1] wf show ?thesis
        by (cases res) (auto simp: with_conn_def sql_then_def)
    qed
  qed
qed

lemma lease_row_view:
  assumes ok: "sb_ok cfg" and wf: "sqlite_wf cfg db" and row: "row \<in> set (db_jobs db)" and fresh: "db_fresh cfg r db"
  shows "sqlite_wf cfg (update_row (jr_seq row) (lease_row (rkey cfg r) until) db)"
    and "r' \<noteq> r \<Longrightarrow> db_fresh cfg r' db \<Longrightarrow> db_fresh cfg r' (update_row (jr_seq row) (lease_row (rkey cfg r) until) db)"
    and "db_view cfg t (update_row (jr_seq row) (lease_row (rkey cfg r) until) db) i =
      (if jr_id row = sb_id cfg i
       then Some ((row_view cfg db t row)\<lparr> jv_held := if until > nanos t then Some r else None \<rparr>)
       else db_view cfg t db i)"
proof -
  have "row_ok cfg (lease_row (rkey cfg r) until q)" if "q \<in> set (db_jobs db)" for q
    using sqlite_wfD(3) [OF wf that] by (auto simp: row_ok_def lease_row_def)
  then show "sqlite_wf cfg (update_row (jr_seq row) (lease_row (rkey cfg r) until) db)"
    using fresh by (intro wf_update_row [OF wf]) (auto simp: lease_row_def db_fresh_def)
  show "db_fresh cfg r' (update_row (jr_seq row) (lease_row (rkey cfg r) until) db)" if "r' \<noteq> r" "db_fresh cfg r' db"
    using that rkey_inject [OF ok, of r r'] by (auto simp: db_fresh_def update_row_def lease_row_def)
  have "row_view cfg db t (lease_row (rkey cfg r) until row) =
      (row_view cfg db t row)\<lparr> jv_held := if until > nanos t then Some r else None \<rparr>"
    by (simp add: row_view_def lease_row_def valid_lease_def row_env_def ok)
  then show "db_view cfg t (update_row (jr_seq row) (lease_row (rkey cfg r) until) db) i =
      (if jr_id row = sb_id cfg i
       then Some ((row_view cfg db t row)\<lparr> jv_held := if until > nanos t then Some r else None \<rparr>)
       else db_view cfg t db i)"
    using db_view_update [OF wf row, of "lease_row (rkey cfg r) until"] by (simp add: lease_row_def)
qed

text \<open>The outcomes of a reservation.\<close>

lemma sqlite_reserve_outcome:
  assumes inv: "sqlite_inv cfg s" and fresh: "sqlite_fresh cfg r s" and run: "sqlite_reserve cfg t r l s = (res, s')"
  obtains (refused) e where "res = Inl e" "sq_db s' = sq_db s" "\<not> sqlite_healthy cfg s"
  | (idle) "res = Inr None" "swept cfg (lane_str l) (nanos t) (sq_db s) (sq_db s')"
  | (leased) db row where "swept cfg (lane_str l) (nanos t) (sq_db s) db"
      "next_candidate (lane_str l) (nanos t) db = Some row"
      "res = Inr (Some (reservation_new (row_env cfg row) r (sb_lease cfg)))"
      "sq_db s' = update_row (jr_seq row) (lease_row (rkey cfg r) (nanos (dur_saturating_add t (sb_lease cfg)))) db"
      "sqlite_wf cfg db" "row \<in> set (db_jobs db)" "db_fresh cfg r db"
proof (cases res)
  case (Inl e)
  from inv have ok: "sb_ok cfg" and wf: "sqlite_wf cfg (sq_db s)" by (simp_all add: sqlite_inv_def)
  have "\<not> sqlite_healthy cfg s"
  proof
    assume "sqlite_healthy cfg s"
    then have "s = calm (sq_db s) (sq_dlq_warned s)" "db_healthy cfg (sq_db s)"
      using calm_eq by (auto simp: sqlite_healthy_def)
    then have "\<exists>opt s'. sqlite_reserve cfg t r l s = (Inr opt, s')"
      using sqlite_reserve_healthy [OF ok wf] by metis
    with run Inl show False by simp
  qed
  with Inl refused sqlite_reserve_refused [OF inv] run show thesis by blast
next
  case (Inr opt)
  from inv have ok: "sb_ok cfg" and wf: "sqlite_wf cfg (sq_db s)" by (simp_all add: sqlite_inv_def)
  from sql_fair_ops(2) run [unfolded Inr]
  have "sqlite_reserve cfg t r l (calm (sq_db s) (sq_dlq_warned s)) = (Inr opt, calm (sq_db s') (sq_dlq_warned s))"
    unfolding sql_fair_def by blast
  then show thesis
  proof (rule sqlite_reserve_calm [OF ok wf])
    fix db'
    assume sw: "swept cfg (lane_str l) (nanos t) (sq_db s) db'"
      and out: "opt = None \<and> calm (sq_db s') (sq_dlq_warned s) = calm db' (sq_dlq_warned s) \<or>
        (\<exists>row. next_candidate (lane_str l) (nanos t) db' = Some row \<and>
          opt = Some (reservation_new (row_env cfg row) r (sb_lease cfg)) \<and>
          calm (sq_db s') (sq_dlq_warned s) =
            calm (update_row (jr_seq row) (lease_row (rkey cfg r) (nanos (dur_saturating_add t (sb_lease cfg)))) db')
              (sq_dlq_warned s))"
    from swept_facts [OF sw wf] have facts: "sqlite_wf cfg db'" "set (db_jobs db') \<subseteq> set (db_jobs (sq_db s))" by blast+
    from facts(2) fresh have "db_fresh cfg r db'" by (auto simp: sqlite_fresh_def db_fresh_def)
    note fresh' = this
    from out show thesis
    proof (elim disjE exE conjE)
      assume none: "opt = None" "calm (sq_db s') (sq_dlq_warned s) = calm db' (sq_dlq_warned s)"
      show thesis by (rule idle) (use Inr sw none in simp_all)
    next
      fix row
      assume c: "next_candidate (lane_str l) (nanos t) db' = Some row"
        "opt = Some (reservation_new (row_env cfg row) r (sb_lease cfg))"
        "calm (sq_db s') (sq_dlq_warned s) =
            calm (update_row (jr_seq row) (lease_row (rkey cfg r) (nanos (dur_saturating_add t (sb_lease cfg)))) db')
              (sq_dlq_warned s)"
      with Inr leased [OF sw c(1) _ _ facts(1) next_candidate_visible(1) [OF facts(1) c(1)] fresh'] show thesis by simp
    qed
  qed
qed

section \<open>The contract\<close>

lemma sqlite_broker_simps:
  "bk_enqueue (sqlite_broker cfg) = sqlite_enqueue cfg" "bk_reserve (sqlite_broker cfg) = sqlite_reserve cfg"
  "bk_ack (sqlite_broker cfg) = sqlite_ack cfg" "bk_retry (sqlite_broker cfg) = sqlite_retry cfg"
  "bk_defer (sqlite_broker cfg) = sqlite_defer cfg" "bk_extend (sqlite_broker cfg) = sqlite_extend cfg"
  "bk_fail (sqlite_broker cfg) = sqlite_fail cfg"
  "bk_classify (sqlite_broker cfg) = (\<lambda>i s. fst (sqlite_classify cfg i s))"
  by (simp_all add: sqlite_broker_def)

text \<open>A resolution with a receipt that is current for no row, and one with the receipt of a row.\<close>

lemma sqlite_resolution:
  assumes inv: "sqlite_inv cfg s"
    and opn: "opn \<in> {sqlite_ack cfg t r, sqlite_retry cfg t r d, sqlite_defer cfg t r d, sqlite_extend cfg t r, sqlite_fail cfg t r e}"
    and run: "opn s = (u, s')"
  shows "(\<exists>err. u = Inl err) \<and> sq_db s' = sq_db s \<or>
    (\<exists>row. current_row cfg r (nanos t) (sq_db s) = Some row \<and> u = Inr () \<and> resolves cfg row (sq_db s) (sq_db s'))"
  using opn run sqlite_ack_db [of cfg t r s u s'] sqlite_retry_db [OF inv, of t r d u s']
    sqlite_defer_db [of cfg t r d s u s'] sqlite_extend_db [OF inv, of t r u s'] sqlite_fail_db [OF inv, of t r e u s']
    resolution_resolves [OF inv] inv [unfolded sqlite_inv_def]
  by (elim insertE emptyE) metis+

lemma sqlite_resolution_calm:
  assumes inv: "sqlite_inv cfg s" and calm: "sq_faults s = []"
    and opn: "opn \<in> {sqlite_ack cfg t r, sqlite_retry cfg t r d, sqlite_defer cfg t r d, sqlite_extend cfg t r, sqlite_fail cfg t r e}"
    and run: "opn s = (u, s')"
  shows "current_row cfg r (nanos t) (sq_db s) = None \<Longrightarrow> u = Inl (stale r)"
    and "current_row cfg r (nanos t) (sq_db s) = Some row \<Longrightarrow> db_healthy cfg (sq_db s) \<Longrightarrow> u = Inr ()"
proof -
  from inv have ok: "sb_ok cfg" and wf: "sqlite_wf cfg (sq_db s)" by (simp_all add: sqlite_inv_def)
  define w where "w = sq_dlq_warned s"
  have s: "s = calm (sq_db s) w" using calm_eq [OF calm] by (simp add: w_def)
  note eqs = sqlite_ack_calm [OF ok] sqlite_retry_calm [OF ok wf] sqlite_defer_calm [OF ok]
    sqlite_extend_calm [OF ok wf] sqlite_fail_calm [OF ok wf]
  have run': "opn (calm (sq_db s) w) = (u, s')" using run s by simp
  show "u = Inl (stale r)" if "current_row cfg r (nanos t) (sq_db s) = None"
    using opn run' that by (elim insertE emptyE) (simp_all add: eqs Let_def)
  show "u = Inr ()" if row: "current_row cfg r (nanos t) (sq_db s) = Some row" and h: "db_healthy cfg (sq_db s)"
  proof -
    from row have "row \<in> set (db_jobs (sq_db s))" using current_row_Some [OF wf] by blast
    with h obtain b where "\<not> list_ex (\<lambda>d. dr_id d = jr_id row) (db_dead (sq_db s))"
      "sb_encode cfg (bump_attempts (row_env cfg row)) = Inr b" by (auto simp: db_healthy_def is_ok_iff)
    with opn run' row show ?thesis by (elim insertE emptyE) (simp_all add: eqs Let_def)
  qed
qed

text \<open>What the resolutions leave of the job of the row.\<close>

lemma resolution_views:
  assumes inv: "sqlite_inv cfg s" and t': "t' \<le> sqlite_horizon" and row: "current_row cfg r now (sq_db s) = Some row"
    and i: "jr_id row = sb_id cfg i" and v: "db_view cfg t (sq_db s) i = Some v"
  shows "db_view cfg t'' (ack_db row (sq_db s)) i = None"
    and "\<not> list_ex (\<lambda>d. dr_id d = jr_id row) (db_dead (sq_db s)) \<Longrightarrow>
      db_view cfg t'' (fail_db cfg t err row (sq_db s)) i = None"
    and "is_ok (sb_encode cfg (bump_attempts (row_env cfg row))) \<Longrightarrow>
      db_view cfg t' (retry_db cfg t d row (sq_db s)) i =
        Some (v\<lparr> jv_envelope := bump_attempts (jv_envelope v), jv_ready := (t + d \<le> t'), jv_held := None \<rparr>)"
    and "db_view cfg t' (defer_db t d row (sq_db s)) i = Some (v\<lparr> jv_ready := (t + d \<le> t'), jv_held := None \<rparr>)"
    and "t \<le> t' \<Longrightarrow> \<exists>v'. db_view cfg t' (extend_db cfg t row (sq_db s)) i = Some v' \<and> jv_envelope v' = jv_envelope v \<and>
      jv_key v' = jv_key v \<and> (jv_ready v \<longrightarrow> jv_ready v') \<and>
      jv_held v' = (if t' < t + sb_lease cfg then Some r else None)"
proof -
  from inv have ok: "sb_ok cfg" and wf: "sqlite_wf cfg (sq_db s)" by (simp_all add: sqlite_inv_def)
  from row have mem: "row \<in> set (db_jobs (sq_db s))" and rc: "jr_receipt row = Some (rkey cfg r)"
    using current_row_Some [OF wf] by blast+
  from v db_view_row [OF wf mem i, of t] have vr: "v = row_view cfg (sq_db s) t row" by simp
  note upd = db_view_update [OF wf mem]
  show "db_view cfg t'' (ack_db row (sq_db s)) i = None"
    using db_view_drop [OF wf mem] i by (simp add: ack_db_def)
  show "db_view cfg t'' (fail_db cfg t err row (sq_db s)) i = None"
    if "\<not> list_ex (\<lambda>d. dr_id d = jr_id row) (db_dead (sq_db s))"
    using resolves_bury(2) [OF wf mem that] i by (simp add: fail_db_def)
  show "db_view cfg t' (retry_db cfg t d row (sq_db s)) i =
      Some (v\<lparr> jv_envelope := bump_attempts (jv_envelope v), jv_ready := (t + d \<le> t'), jv_held := None \<rparr>)"
    if "is_ok (sb_encode cfg (bump_attempts (row_env cfg row)))"
  proof -
    from that obtain b where b: "sb_encode cfg (bump_attempts (row_env cfg row)) = Inr b" by (auto simp: is_ok_iff)
    from sb_decode_encode [OF ok b] i show ?thesis
      unfolding retry_db_def b vr
      by (subst upd) (simp_all add: reschedule_row_def row_view_def row_env_def valid_lease_def nanos_sum_le [OF t'])
  qed
  show "db_view cfg t' (defer_db t d row (sq_db s)) i = Some (v\<lparr> jv_ready := (t + d \<le> t'), jv_held := None \<rparr>)"
    unfolding defer_db_def vr using i
    by (subst upd) (simp_all add: reschedule_row_def row_view_def row_env_def valid_lease_def nanos_sum_le [OF t'])
  show "\<exists>v'. db_view cfg t' (extend_db cfg t row (sq_db s)) i = Some v' \<and> jv_envelope v' = jv_envelope v \<and>
      jv_key v' = jv_key v \<and> (jv_ready v \<longrightarrow> jv_ready v') \<and>
      jv_held v' = (if t' < t + sb_lease cfg then Some r else None)" if "t \<le> t'"
    unfolding extend_db_def vr using i rc nanos_mono [OF that] nanos_sum_le [OF t', of t "sb_lease cfg"] ok
    by (subst upd) (auto simp: row_env_def valid_lease_def)
qed

lemma sqlite_enqueue_law:
  assumes inv: "sqlite_inv cfg s" and run: "sqlite_enqueue cfg t nj s = (res, s')"
  shows "sqlite_inv cfg s' \<and> (\<forall>r. sqlite_fresh cfg r s \<longrightarrow> sqlite_fresh cfg r s') \<and>
    (\<forall>i v. sqlite_view cfg t' s i = Some v \<longrightarrow> sqlite_view cfg t' s' i = Some v) \<and>
    (\<forall>i. res = Inr i \<longrightarrow> sqlite_view cfg t' s' i \<noteq> None) \<and>
    (\<forall>i. sqlite_view cfg t' s i = None \<and> sqlite_view cfg t' s' i \<noteq> None \<longrightarrow>
       res = Inr i \<and> i = nj_id nj \<and>
       (\<exists>v. sqlite_view cfg t' s' i = Some v \<and> jv_envelope v = into_envelope nj \<and> jv_key v = nj_unique_key nj \<and>
          jv_held v = None))"
proof -
  from inv have ok: "sb_ok cfg" and wf: "sqlite_wf cfg (sq_db s)" by (simp_all add: sqlite_inv_def)
  from sql_fair_ops(1) sql_atomic_ops(1) run show ?thesis
  proof (cases rule: sql_outcome)
    case (refused e)
    with inv show ?thesis by (auto simp: sqlite_inv_def sqlite_fresh_def sqlite_view_def)
  next
    case (carried x)
    obtain r1 s1 where ins: "insert_job cfg nj (nanos (dur_saturating_add t (nj_delay nj)))
        (calm (sq_db s) (sq_dlq_warned s)) = (r1, s1)" by fastforce
    from ok wf ins show ?thesis
    proof (cases rule: insert_job_calm_cases)
      case (existing i)
      with carried ins have "x = i" "sq_db s' = sq_db s" by (simp_all add: sqlite_enqueue_def sql_calm_simps)
      with existing(3) carried(1) inv show ?thesis
        by (auto simp: sqlite_inv_def sqlite_fresh_def sqlite_view_def db_view_None)
    next
      case (refused e)
      with carried ins show ?thesis by (simp add: sqlite_enqueue_def sql_calm_simps)
    next
      case (added blob)
      let ?row = "new_row cfg (into_envelope nj) (lane_str (nj_lane nj)) (nanos (dur_saturating_add t (nj_delay nj))) blob (sq_db s)"
      have eq: "x = nj_id nj" "sq_db s' = add_job ?row (nj_unique_key nj) (sq_db s)"
        using added carried ins by (simp_all add: sqlite_enqueue_def sql_calm_simps)
      have dec: "sb_decode cfg blob = Inr (into_envelope nj)" by (rule sb_decode_encode [OF ok added(2)])
      have row: "jr_seq ?row = next_rowid (map jr_seq (db_jobs (sq_db s)))" "jr_id ?row \<notin> jr_id ` set (db_jobs (sq_db s))"
        "row_ok cfg ?row" "jr_receipt ?row = None" "jr_id ?row = sb_id cfg (nj_id nj)"
        using added(4) dec by (simp_all add: new_row_def row_ok_def)
      have "sqlite_wf cfg (sq_db s')"
        unfolding eq using added(5) by (intro wf_add_job [OF wf row(1-4)]) simp
      moreover have "db_fresh cfg r (sq_db s) \<Longrightarrow> db_fresh cfg r (sq_db s')" for r
        using row(4) by (cases "nj_unique_key nj") (auto simp: eq db_fresh_def add_job_def add_key_def)
      moreover have view: "db_view cfg t' (sq_db s') i = (if i = nj_id nj
          then Some ((row_view cfg (sq_db s) t' ?row)\<lparr> jv_key := nj_unique_key nj \<rparr>) else db_view cfg t' (sq_db s) i)" for i
        unfolding eq db_view_add [OF wf row(1,2)] row(5) using sb_id_inject [OF ok] by auto
      moreover have "db_view cfg t' (sq_db s) (nj_id nj) = None" using added(4) by (simp add: db_view_None)
      moreover have "row_env cfg ?row = into_envelope nj" "jv_held (row_view cfg (sq_db s) t' ?row) = None"
        using dec by (simp_all add: row_env_def new_row_def valid_lease_def)
      ultimately show ?thesis
        using carried(1) eq(1) ok by (auto simp: sqlite_inv_def sqlite_fresh_def sqlite_view_def)
    qed
  qed
qed

lemma sqlite_reserve_keeps:
  assumes inv: "sqlite_inv cfg s" and fresh: "sqlite_fresh cfg r s" and run: "sqlite_reserve cfg t r l s = (res, s')"
  shows "sqlite_inv cfg s'" and "sqlite_fresh cfg r' s \<Longrightarrow> r' \<noteq> r \<Longrightarrow> sqlite_fresh cfg r' s'"
    and "(\<exists>opt. res = Inr opt) \<or> (\<not> sqlite_healthy cfg s \<and> (\<forall>i t'. sqlite_view cfg t' s' i = sqlite_view cfg t' s i))"
proof -
  from inv have ok: "sb_ok cfg" and wf: "sqlite_wf cfg (sq_db s)" by (simp_all add: sqlite_inv_def)
  from inv fresh run have "sqlite_inv cfg s' \<and> (sqlite_fresh cfg r' s \<and> r' \<noteq> r \<longrightarrow> sqlite_fresh cfg r' s') \<and>
    ((\<exists>opt. res = Inr opt) \<or> (\<not> sqlite_healthy cfg s \<and> (\<forall>i t'. sqlite_view cfg t' s' i = sqlite_view cfg t' s i)))"
  proof (cases rule: sqlite_reserve_outcome)
    case (refused e)
    with inv show ?thesis by (simp add: sqlite_inv_def sqlite_fresh_def sqlite_view_def)
  next
    case idle
    with swept_facts [OF idle(2) wf] ok show ?thesis
      by (auto simp: sqlite_inv_def sqlite_fresh_def db_fresh_def)
  next
    case (leased db row)
    have "sqlite_fresh cfg r' s \<Longrightarrow> db_fresh cfg r' db"
      using swept_facts [OF leased(1) wf] by (auto simp: sqlite_fresh_def db_fresh_def)
    with lease_row_view(1,2) [OF ok leased(5-7)] leased(3,4) ok show ?thesis
      by (auto simp: sqlite_inv_def sqlite_fresh_def)
  qed
  then show "sqlite_inv cfg s'" and "sqlite_fresh cfg r' s \<Longrightarrow> r' \<noteq> r \<Longrightarrow> sqlite_fresh cfg r' s'"
    and "(\<exists>opt. res = Inr opt) \<or> (\<not> sqlite_healthy cfg s \<and> (\<forall>i t'. sqlite_view cfg t' s' i = sqlite_view cfg t' s i))"
    by blast+
qed

lemma sqlite_reserve_others:
  assumes inv: "sqlite_inv cfg s" and fresh: "sqlite_fresh cfg r s" and run: "sqlite_reserve cfg t r l s = (Inr opt, s')"
    and other: "\<forall>rsv. opt = Some rsv \<longrightarrow> env_id (rsv_envelope rsv) \<noteq> i"
  shows "sqlite_view cfg t' s' i = sqlite_view cfg t' s i \<or>
    (sqlite_view cfg t' s' i = None \<and> (\<forall>v. sqlite_view cfg t s i = Some v \<longrightarrow> jv_held v = None))"
proof -
  from inv have ok: "sb_ok cfg" and wf: "sqlite_wf cfg (sq_db s)" by (simp_all add: sqlite_inv_def)
  from inv fresh run show ?thesis
  proof (cases rule: sqlite_reserve_outcome)
    case idle
    with swept_facts [OF idle(2) wf] show ?thesis by (auto simp: sqlite_view_def)
  next
    case (leased db row)
    from leased(6) obtain e where "row_env cfg row = e" "jr_id row = sb_id cfg (env_id e)" by (rule row_okE [OF leased(5)])
    with leased(3) other have "jr_id row \<noteq> sb_id cfg i" using sb_id_inject [OF ok] by auto
    then have "db_view cfg t' (sq_db s') i = db_view cfg t' db i"
      using lease_row_view(3) [OF ok leased(5-7)] leased(4) by simp
    with swept_facts [OF leased(1) wf] show ?thesis unfolding sqlite_view_def by metis
  qed simp
qed

lemma sqlite_reserve_hands_out:
  assumes inv: "sqlite_inv cfg s" and fresh: "sqlite_fresh cfg r s" and t: "t \<le> sqlite_horizon"
    and run: "sqlite_reserve cfg t r l s = (Inr (Some rsv), s')"
  shows "\<exists>v. sqlite_view cfg t s (env_id (rsv_envelope rsv)) = Some v \<and> rsv_envelope rsv = jv_envelope v \<and>
    env_lane (jv_envelope v) = l \<and> jv_ready v \<and> jv_held v = None \<and> rsv_receipt rsv = r \<and>
    (\<forall>t'. t \<le> t' \<and> t' \<le> sqlite_horizon \<longrightarrow>
       (\<exists>v'. sqlite_view cfg t' s' (env_id (rsv_envelope rsv)) = Some v' \<and> jv_envelope v' = jv_envelope v \<and>
          jv_key v' = jv_key v \<and> jv_ready v' \<and>
          jv_held v' = (if t' < t + sb_lease cfg then Some r else None)))"
proof -
  from inv have ok: "sb_ok cfg" and wf: "sqlite_wf cfg (sq_db s)" by (simp_all add: sqlite_inv_def)
  from inv fresh run show ?thesis
  proof (cases rule: sqlite_reserve_outcome)
    case (leased db row)
    note cand = next_candidate_visible [OF leased(5,2)]
    obtain e where e: "row_env cfg row = e" "jr_id row = sb_id cfg (env_id e)" "jr_lane row = lane_str (env_lane e)"
      using leased(6) by (rule row_okE [OF leased(5)])
    have rsv: "rsv = reservation_new e r (sb_lease cfg)" using leased(3) e(1) by simp
    have view: "db_view cfg t1 db (env_id e) = Some (row_view cfg db t1 row)" for t1
      by (rule db_view_row [OF leased(5,6) e(2)])
    have same: "db_view cfg t1 (sq_db s) (env_id e) = Some (row_view cfg db t1 row)" for t1
      using swept_facts [OF leased(1) wf] view [of t1] by (metis option.distinct(1))
    have "lane_str (env_lane e) = lane_str l" using cand(2) e(3) by simp
    then have lane: "env_lane e = l" by (cases l; cases "env_lane e") simp
    have later: "db_view cfg t' (sq_db s') (env_id e) = Some ((row_view cfg db t' row)
        \<lparr> jv_held := if t' < t + sb_lease cfg then Some r else None \<rparr>)" if "t' \<le> sqlite_horizon" for t'
      using lease_row_view(3) [OF ok leased(5-7)] leased(4) e(2) nanos_sum_le [OF that, of t "sb_lease cfg"]
      by (simp add: not_le [symmetric])
    have "jr_available_at row \<le> nanos t'" if "t \<le> t'" for t' using cand(3) nanos_mono [OF that] by simp
    then show ?thesis
      using same [of t] later cand(3,4) lane e(1) by (simp add: rsv sqlite_view_def)
  qed simp_all
qed

lemma sqlite_view_later:
  assumes inv: "sqlite_inv cfg s" and t: "t \<le> t'" and v: "sqlite_view cfg t s i = Some v"
  shows "\<exists>v'. sqlite_view cfg t' s i = Some v' \<and> jv_envelope v' = jv_envelope v \<and> jv_key v' = jv_key v \<and>
    (jv_ready v \<longrightarrow> jv_ready v') \<and> (jv_held v' = jv_held v \<or> jv_held v' = None)"
proof -
  from inv have wf: "sqlite_wf cfg (sq_db s)" by (simp add: sqlite_inv_def)
  from v obtain row where row: "row \<in> set (db_jobs (sq_db s))" "jr_id row = sb_id cfg i" "v = row_view cfg (sq_db s) t row"
    unfolding sqlite_view_def db_view_Some [OF wf] by blast
  with db_view_row [OF wf row(1,2), of t'] nanos_mono [OF t] show ?thesis
    by (auto simp: sqlite_view_def valid_lease_def split: option.splits)
qed

lemma sqlite_classify_live:
  assumes inv: "sqlite_inv cfg s"
  shows "fst (sqlite_classify cfg i s) = Inr Live \<Longrightarrow> sqlite_view cfg t s i \<noteq> None"
    and "sqlite_healthy cfg s \<Longrightarrow> sqlite_view cfg t s i \<noteq> None \<Longrightarrow> fst (sqlite_classify cfg i s) = Inr Live"
proof -
  define live where "live \<longleftrightarrow> list_ex (\<lambda>row. jr_id row = sb_id cfg i) (db_jobs (sq_db s))"
  have calm_run: "sqlite_classify cfg i (calm (sq_db s) w) = (Inr (classify_state
      (if live then Some 1 else if list_ex (\<lambda>d. dr_id d = sb_id cfg i) (db_dead (sq_db s)) then Some 2 else None)),
      calm (sq_db s) w)" for w
    by (simp add: sqlite_classify_def sql_calm_simps live_def)
  have live: "live \<longleftrightarrow> sqlite_view cfg t s i \<noteq> None"
    by (force simp: live_def sqlite_view_def db_view_None list_ex_iff)
  show "sqlite_view cfg t s i \<noteq> None" if "fst (sqlite_classify cfg i s) = Inr Live"
  proof -
    from that obtain s' where "sqlite_classify cfg i s = (Inr Live, s')" by (metis prod.collapse)
    with sql_fair_ops(7) calm_run [of "sq_dlq_warned s"] have live
      by (auto simp: sql_fair_def classify_state_def split: if_splits)
    with live show ?thesis by simp
  qed
  show "fst (sqlite_classify cfg i s) = Inr Live" if "sqlite_healthy cfg s" "sqlite_view cfg t s i \<noteq> None"
  proof -
    from that(1) have "s = calm (sq_db s) (sq_dlq_warned s)" by (intro calm_eq) (simp add: sqlite_healthy_def)
    moreover have "fst (sqlite_classify cfg i (calm (sq_db s) (sq_dlq_warned s))) = Inr Live"
      using calm_run that(2) live by (simp add: classify_state_def)
    ultimately show ?thesis by metis
  qed
qed

text \<open>The effect of a successful resolution, operation by operation.\<close>

lemma sqlite_done:
  assumes inv: "sqlite_inv cfg s" and t': "t' \<le> sqlite_horizon"
    and held: "holds (sqlite_view cfg t s) i r" and v: "sqlite_view cfg t s i = Some v"
  shows "sqlite_ack cfg t r s = (Inr (), s') \<Longrightarrow> sqlite_view cfg t'' s' i = None"
    and "sqlite_fail cfg t r e s = (Inr (), s') \<Longrightarrow> sqlite_view cfg t'' s' i = None"
    and "sqlite_retry cfg t r d s = (Inr (), s') \<Longrightarrow> sqlite_view cfg t' s' i =
      Some (v\<lparr> jv_envelope := bump_attempts (jv_envelope v), jv_ready := (t + d \<le> t'), jv_held := None \<rparr>)"
    and "sqlite_defer cfg t r d s = (Inr (), s') \<Longrightarrow> sqlite_view cfg t' s' i =
      Some (v\<lparr> jv_ready := (t + d \<le> t'), jv_held := None \<rparr>)"
    and "sqlite_extend cfg t r s = (Inr (), s') \<Longrightarrow> t \<le> t' \<Longrightarrow>
      \<exists>v'. sqlite_view cfg t' s' i = Some v' \<and> jv_envelope v' = jv_envelope v \<and> jv_key v' = jv_key v \<and>
        (jv_ready v \<longrightarrow> jv_ready v') \<and> jv_held v' = (if t' < t + sb_lease cfg then Some r else None)"
proof -
  from inv have ok: "sb_ok cfg" and wf: "sqlite_wf cfg (sq_db s)" by (simp_all add: sqlite_inv_def)
  from held obtain row where row: "current_row cfg r (nanos t) (sq_db s) = Some row" "jr_id row = sb_id cfg i"
    unfolding sqlite_view_def holds_current [OF ok wf] by blast
  note views = resolution_views [OF inv t' row v [unfolded sqlite_view_def]]
  show "sqlite_view cfg t'' s' i = None" if "sqlite_ack cfg t r s = (Inr (), s')"
    using sqlite_ack_db [OF ok that] row(1) views(1) by (auto simp: sqlite_view_def)
  show "sqlite_view cfg t'' s' i = None" if "sqlite_fail cfg t r e s = (Inr (), s')"
    using sqlite_fail_db [OF inv that] row(1) views(2) by (auto simp: sqlite_view_def)
  show "sqlite_view cfg t' s' i =
      Some (v\<lparr> jv_envelope := bump_attempts (jv_envelope v), jv_ready := (t + d \<le> t'), jv_held := None \<rparr>)"
    if "sqlite_retry cfg t r d s = (Inr (), s')"
    using sqlite_retry_db [OF inv that] row(1) views(3) by (auto simp: sqlite_view_def)
  show "sqlite_view cfg t' s' i = Some (v\<lparr> jv_ready := (t + d \<le> t'), jv_held := None \<rparr>)"
    if "sqlite_defer cfg t r d s = (Inr (), s')"
    using sqlite_defer_db [OF ok that] row(1) views(4) by (auto simp: sqlite_view_def)
  show "\<exists>v'. sqlite_view cfg t' s' i = Some v' \<and> jv_envelope v' = jv_envelope v \<and> jv_key v' = jv_key v \<and>
      (jv_ready v \<longrightarrow> jv_ready v') \<and> jv_held v' = (if t' < t + sb_lease cfg then Some r else None)"
    if "sqlite_extend cfg t r s = (Inr (), s')" "t \<le> t'"
    using sqlite_extend_db [OF inv that(1)] row(1) views(5) [OF that(2)] by (auto simp: sqlite_view_def)
qed

interpretation sqlite: broker_contract "sqlite_broker cfg" "sqlite_inv cfg" "sqlite_view cfg" "sqlite_fresh cfg"
  "sb_lease cfg" sqlite_horizon "sqlite_healthy cfg"
  for cfg
proof (unfold_locales, unfold sqlite_broker_simps, goal_cases)
  case (1 s t i v)
  then have ok: "sb_ok cfg" and wf: "sqlite_wf cfg (sq_db s)" by (simp_all add: sqlite_inv_def)
  from 1(2) obtain row where "row \<in> set (db_jobs (sq_db s))" "jr_id row = sb_id cfg i" "v = row_view cfg (sq_db s) t row"
    unfolding sqlite_view_def db_view_Some [OF wf] by blast
  then show ?case using sb_id_inject [OF ok] by (auto elim: row_okE [OF wf])
next
  case (2 s t t' i v)
  then show ?case using sqlite_view_later by blast
next
  case (3 s t i t')
  then show ?case by (simp add: sqlite_view_def db_view_None)
next
  case (4 s t i r j)
  then have ok: "sb_ok cfg" and wf: "sqlite_wf cfg (sq_db s)" by (simp_all add: sqlite_inv_def)
  from 4(2,3) show ?case unfolding sqlite_view_def holds_current [OF ok wf] using sb_id_inject [OF ok] by auto
next
  case (5 s r t i)
  then have ok: "sb_ok cfg" and wf: "sqlite_wf cfg (sq_db s)" by (simp_all add: sqlite_inv_def)
  from 5(2) show ?case by (auto simp: sqlite_view_def holds_db_view [OF ok wf] sqlite_fresh_def db_fresh_def)
next
  case (6 s t nj eres s' t')
  from sqlite_enqueue_law [OF 6, of t'] show ?case .
next
  case (7 s r t l rres s')
  note keeps = sqlite_reserve_keeps [OF 7(1,2,4)]
  show ?case using keeps(1,3) keeps(2) by (intro conjI allI impI) auto
next
  case (8 s r t l opt s' i t')
  from sqlite_reserve_others [OF 8(1,2,4,5)] show ?case .
next
  case (9 s r t l rsv s')
  from sqlite_reserve_hands_out [OF 9] show ?case .
next
  case (10 s t r opn d e ures s')
  then have ok: "sb_ok cfg" and wf: "sqlite_wf cfg (sq_db s)" by (simp_all add: sqlite_inv_def)
  from 10(3) have none: "current_row cfg r (nanos t) (sq_db s) = None"
    unfolding sqlite_view_def not_holds_current [OF ok wf] .
  have "(\<exists>e. ures = Inl e) \<and> sq_db s' = sq_db s" using sqlite_resolution [OF 10(1,4,5)] none by auto
  moreover have "sqlite_healthy cfg s \<Longrightarrow> ures = Inl (stale r)"
    using sqlite_resolution_calm(1) [OF 10(1) _ 10(4,5) none] by (simp add: sqlite_healthy_def)
  ultimately show ?case using 10(1) by (simp add: sqlite_inv_def sqlite_fresh_def sqlite_view_def)
next
  case (11 s t i r opn d e ures s')
  then have ok: "sb_ok cfg" and wf: "sqlite_wf cfg (sq_db s)" by (simp_all add: sqlite_inv_def)
  from 11(3) obtain row where row: "current_row cfg r (nanos t) (sq_db s) = Some row" "jr_id row = sb_id cfg i"
    unfolding sqlite_view_def holds_current [OF ok wf] by blast
  have "sqlite_healthy cfg s \<Longrightarrow> ures = Inr ()"
    using sqlite_resolution_calm(2) [OF 11(1) _ 11(4,5) row(1)] by (simp add: sqlite_healthy_def)
  moreover have "sqlite_inv cfg s' \<and> (\<forall>r'. sqlite_fresh cfg r' s \<longrightarrow> sqlite_fresh cfg r' s') \<and>
      (\<forall>j t'. (j \<noteq> i \<or> ures \<noteq> Inr ()) \<longrightarrow> sqlite_view cfg t' s' j = sqlite_view cfg t' s j)"
    using sqlite_resolution [OF 11(1,4,5)] row 11(1) sb_id_inject [OF ok]
    by (auto simp: sqlite_inv_def sqlite_fresh_def sqlite_view_def resolves_def)
  ultimately show ?case by blast
next
  case (12 s t i r s' t')
  then show ?case using sqlite_done(1) [OF 12(1) _ 12(3), of 0] by (auto simp: holds_def)
next
  case (13 s t i r e s' t')
  then show ?case using sqlite_done(2) [OF 13(1) _ 13(3), of 0] by (auto simp: holds_def)
next
  case (14 s t i r v d s' t')
  from sqlite_done(3) [OF 14(1,6,3,4,5)] show ?case .
next
  case (15 s t i r v d s' t')
  from sqlite_done(4) [OF 15(1,6,3,4,5)] show ?case .
next
  case (16 s t i r v s' t')
  from sqlite_done(5) [OF 16(1,7,3,4,5,6)] show ?case .
next
  case (17 s i t)
  then show ?case using sqlite_classify_live [OF 17] by blast
qed

end
