(* ===== verification/Sqlite_Props.thy ===== *)
theory Sqlite_Props
  imports Sqlite_Contract Client_Props Scheduler_Props Uuid_Text
begin

text \<open>
  What the SQLite broker guarantees in every state its operations can reach, under any script of
  the engine: the tables stay well typed, delivery is exclusive under a lease, a refused call
  changes nothing and no job is lost.  The client and the scheduler run on it: their interfaces are
  interpreted on its operations.
\<close>

section \<open>Reachable states\<close>

text \<open>A fresh database is migrated; then every operation that changes the tables, in any order,
  while the engine may take up any script at any time.\<close>

inductive sqlite_reach :: "sqlite_config \<Rightarrow> sqlite_state \<Rightarrow> bool" for cfg where
  opened: "sq_db s = sqlite_fresh_db \<Longrightarrow> migrate s = (res, s') \<Longrightarrow> sqlite_reach cfg s'"
| script: "sqlite_reach cfg s \<Longrightarrow> sqlite_reach cfg (s\<lparr> sq_faults := fs \<rparr>)"
| call: "sqlite_reach cfg s \<Longrightarrow> admissible (sqlite_fresh cfg) sqlite_horizon t c s \<Longrightarrow>
    call_step (sqlite_broker cfg) t c s = (out, s') \<Longrightarrow> sqlite_reach cfg s'"
| batch: "sqlite_reach cfg s \<Longrightarrow> sqlite_enqueue_batch cfg t js s = (ids, s') \<Longrightarrow> sqlite_reach cfg s'"
| requeue: "sqlite_reach cfg s \<Longrightarrow> sqlite_requeue cfg t i s = (ures, s') \<Longrightarrow> sqlite_reach cfg s'"
| purge: "sqlite_reach cfg s \<Longrightarrow> sqlite_purge_dead_letters cfg l s = (n, s') \<Longrightarrow> sqlite_reach cfg s'"
| scheduled: "sqlite_reach cfg s \<Longrightarrow> sqlite_enqueue_scheduled cfg t sid occ nj s = (won, s') \<Longrightarrow> sqlite_reach cfg s'"
| unschedule: "sqlite_reach cfg s \<Longrightarrow> sqlite_remove_schedule cfg sid s = (ures, s') \<Longrightarrow> sqlite_reach cfg s'"
| stored: "sqlite_reach cfg s \<Longrightarrow> sqlite_result_store cfg i b s = (ures, s') \<Longrightarrow> sqlite_reach cfg s'"

lemma insert_job_wf:
  assumes ok: "sb_ok cfg" and wf: "sqlite_wf cfg db" and run: "insert_job cfg job avail (calm db w) = (Inr i, s')"
  shows "\<exists>db'. s' = calm db' w \<and> sqlite_wf cfg db' \<and> db_schedules db' = db_schedules db"
  using ok wf run
proof (cases rule: insert_job_calm_cases)
  case (added blob)
  let ?row = "new_row cfg (into_envelope job) (lane_str (nj_lane job)) avail blob db"
  have "sqlite_wf cfg (add_job ?row (nj_unique_key job) db)"
    using added(4,5) sb_decode_encode [OF ok added(2)]
    by (intro wf_add_job [OF wf]) (simp_all add: new_row_def row_ok_def)
  moreover have "db_schedules (add_job ?row (nj_unique_key job) db) = db_schedules db"
    by (cases "nj_unique_key job") (simp_all add: add_job_def add_key_def)
  ultimately show ?thesis using added(3) by blast
qed (use wf in auto)

lemma insert_jobs_wf:
  assumes ok: "sb_ok cfg"
  shows "sqlite_wf cfg db \<Longrightarrow> insert_jobs cfg t js (calm db w) = (Inr ids, s') \<Longrightarrow>
    \<exists>db'. s' = calm db' w \<and> sqlite_wf cfg db'"
proof (induction js arbitrary: db ids)
  case Nil
  then show ?case by (auto simp: sql_calm_simps)
next
  case (Cons j js)
  from Cons.prems(2) obtain i s1 where one: "insert_job cfg j (nanos (dur_saturating_add t (nj_delay j))) (calm db w) = (Inr i, s1)"
    by (auto simp: sql_then_def split: prod.splits sum.splits)
  from insert_job_wf [OF ok Cons.prems(1) one] obtain db1 where db1: "s1 = calm db1 w" "sqlite_wf cfg db1" by blast
  from Cons.prems(2) one db1(1) obtain ids' where "insert_jobs cfg t js (calm db1 w) = (Inr ids', s')"
    by (auto simp: sql_then_def sql_ok_def split: prod.splits sum.splits)
  from Cons.IH [OF db1(2) this] show ?case .
qed

lemma sqlite_requeue_calm:
  assumes ok: "sb_ok cfg" and wf: "sqlite_wf cfg db" and run: "sqlite_requeue cfg t i (calm db w) = (Inr u, s')"
  obtains d e where "d \<in> set (db_dead db)" "dr_id d = sb_id cfg i" "sb_decode cfg (dr_envelope d) = Inr e" "env_id e = i"
    "sb_id cfg i \<notin> jr_id ` set (db_jobs db)" "\<forall>k. dr_unique_key d = Some k \<longrightarrow> \<not> key_taken k db"
    "s' = calm ((add_job (new_row cfg e (dr_lane d) (nanos t) (dr_envelope d) db) (dr_unique_key d) db)
       \<lparr> db_dead := filter (\<lambda>d. dr_id d \<noteq> sb_id cfg i) (db_dead db) \<rparr>) w"
proof (cases "find (\<lambda>d. dr_id d = sb_id cfg i) (db_dead db)")
  case None
  with run show thesis by (simp add: sqlite_requeue_def Let_def sql_calm_simps)
next
  case (Some d)
  then have d: "d \<in> set (db_dead db)" "dr_id d = sb_id cfg i" by (auto simp: find_Some_iff)
  from sqlite_wfD(10) [OF wf d(1)] obtain e where e: "sb_decode cfg (dr_envelope d) = Inr e" "dr_id d = sb_id cfg (env_id e)"
    by (auto simp: dead_ok_def)
  with d(2) have i: "env_id e = i" using sb_id_inject [OF ok] by metis
  have live: "sb_id cfg i \<notin> jr_id ` set (db_jobs db)"
  proof
    assume "sb_id cfg i \<in> jr_id ` set (db_jobs db)"
    then have "list_ex (\<lambda>row. jr_id row = sb_id cfg i) (db_jobs db)" by (force simp: list_ex_iff)
    with run Some show False by (simp add: sqlite_requeue_def Let_def sql_calm_simps)
  qed
  then have nlive: "\<not> list_ex (\<lambda>row. jr_id row = sb_id cfg i) (db_jobs db)" by (force simp: list_ex_iff)
  note row = insert_row_new [of cfg e db, unfolded i, OF live]
  have free: "\<not> key_taken k db" if "dr_unique_key d = Some k" for k
  proof
    assume "key_taken k db"
    with run Some nlive that show False by (simp add: sqlite_requeue_def Let_def sql_calm_simps)
  qed
  have "s' = calm ((add_job (new_row cfg e (dr_lane d) (nanos t) (dr_envelope d) db) (dr_unique_key d) db)
       \<lparr> db_dead := filter (\<lambda>d. dr_id d \<noteq> sb_id cfg i) (db_dead db) \<rparr>) w"
  proof (cases "dr_unique_key d")
    case None
    with run Some nlive e(1) i row show ?thesis
      by (simp add: sqlite_requeue_def Let_def sql_calm_simps add_job_def)
  next
    case k: (Some k)
    have "\<not> key_taken k (db\<lparr> db_jobs := js \<rparr>)" for js using free [OF k] by (simp add: key_taken_def)
    with run Some nlive e(1) i row k free [OF k] show ?thesis
      by (simp add: sqlite_requeue_def Let_def sql_calm_simps add_job_def add_key_def)
  qed
  with that [OF d e(1) i live] free show thesis by blast
qed

lemma sqlite_requeue_wf:
  assumes ok: "sb_ok cfg" and wf: "sqlite_wf cfg db" and run: "sqlite_requeue cfg t i (calm db w) = (Inr u, s')"
  shows "\<exists>db'. s' = calm db' w \<and> sqlite_wf cfg db'"
  using ok wf run
proof (rule sqlite_requeue_calm)
  fix d e
  assume d: "d \<in> set (db_dead db)" "dr_id d = sb_id cfg i" "sb_decode cfg (dr_envelope d) = Inr e" "env_id e = i"
    and live: "sb_id cfg i \<notin> jr_id ` set (db_jobs db)" and key: "\<forall>k. dr_unique_key d = Some k \<longrightarrow> \<not> key_taken k db"
    and s': "s' = calm ((add_job (new_row cfg e (dr_lane d) (nanos t) (dr_envelope d) db) (dr_unique_key d) db)
       \<lparr> db_dead := filter (\<lambda>d. dr_id d \<noteq> sb_id cfg i) (db_dead db) \<rparr>) w"
  let ?db = "add_job (new_row cfg e (dr_lane d) (nanos t) (dr_envelope d) db) (dr_unique_key d) db"
  have "dr_lane d = lane_str (env_lane e)" using sqlite_wfD(10) [OF wf d(1)] d(3) by (auto simp: dead_ok_def)
  with live key d(3,4) have "sqlite_wf cfg ?db"
    by (intro wf_add_job [OF wf]) (auto simp: new_row_def row_ok_def)
  moreover have "db_dead ?db = db_dead db" by (cases "dr_unique_key d") (simp_all add: add_job_def add_key_def)
  ultimately have "sqlite_wf cfg (?db\<lparr> db_dead := filter (\<lambda>d. dr_id d \<noteq> sb_id cfg i) (db_dead db) \<rparr>)"
    using wf_dead_filter [of cfg ?db] by simp
  with s' show ?thesis by blast
qed

text \<open>A program keeps the tables well formed if it does on a calm engine.\<close>

lemma keeps_wf:
  assumes "sql_fair m" and "sql_atomic m" and "m s = (r, s')" and "sqlite_wf cfg (sq_db s)"
    and "\<And>x w s1. m (calm (sq_db s) w) = (Inr x, s1) \<Longrightarrow> sqlite_wf cfg (sq_db s1)"
  shows "sqlite_wf cfg (sq_db s')"
  using assms(1-3)
proof (cases rule: sql_outcome)
  case (carried x)
  from assms(5) [OF carried(2)] show ?thesis by simp
qed (use assms(4) in simp)

lemma sql_repeat_reads:
  assumes "sql_reads m"
  shows "sq_db (snd (sql_repeat n m s)) = sq_db s"
proof (induction n arbitrary: s)
  case (Suc n)
  obtain r1 s1 where one: "m s = (r1, s1)" by fastforce
  then have "sq_db s1 = sq_db s" using assms unfolding sql_reads_def by (metis snd_conv)
  with one Suc.IH [of s1] show ?case by (cases r1) (simp_all add: sql_then_def)
qed (simp add: sql_ok_def)

lemma migrate_db: "sq_db (snd (migrate s)) = sq_db s \<or> sq_db (snd (migrate s)) = (sq_db s)\<lparr> db_version := SCHEMA_VERSION \<rparr>"
proof -
  have "sql_reads (sql_exec id)"
    by (auto simp: sql_reads_def sql_exec_def sql_stmt_def Let_def split: list.splits option.splits)
  note rep = sql_repeat_reads [OF this]
  obtain v s1 where q: "sql_query db_version s = (v, s1)" by fastforce
  have s1: "sq_db s1 = sq_db s" using sql_reads_query [of db_version] q unfolding sql_reads_def by (metis snd_conv)
  have fresh: "sq_db (snd (sql_then (sql_repeat BASELINE_STATEMENTS (sql_exec id)) (\<lambda>_.
      sql_exec (\<lambda>db. db\<lparr> db_version := SCHEMA_VERSION \<rparr>)) s)) \<in> {sq_db s, (sq_db s)\<lparr> db_version := SCHEMA_VERSION \<rparr>}" for s
  proof -
    obtain r2 s2 where two: "sql_repeat BASELINE_STATEMENTS (sql_exec id) s = (r2, s2)" by fastforce
    with rep [of BASELINE_STATEMENTS s] have "sq_db s2 = sq_db s" by simp
    with two show ?thesis
      by (cases r2) (auto simp: sql_then_def sql_exec_def sql_stmt_def Let_def split: list.splits option.splits)
  qed
  show ?thesis
    using q s1 fresh [of s1]
    by (cases v) (auto simp: migrate_def sql_then_def sql_ok_def sql_lift_def split: schema_version_check.splits)
qed

lemma transaction_calm_Inr:
  assumes "transaction body (calm db w) = (Inr x, s')"
  obtains s1 where "body (calm db w) = (Inr x, s1)" "sq_db s' = sq_db s1"
proof -
  obtain r1 s1 where b: "body (calm db w) = (r1, s1)" by fastforce
  with assms show thesis
    by (cases r1) (auto simp: transaction_def sql_then_def sql_exec_def sql_stmt_def sql_ok_def Let_def calm_def
        intro: that split: list.splits option.splits)
qed

lemma sqlite_batch_wf:
  assumes ok: "sb_ok cfg" and wf: "sqlite_wf cfg db" and run: "sqlite_enqueue_batch cfg t js (calm db w) = (Inr ids, s')"
  shows "sqlite_wf cfg (sq_db s')"
proof -
  from run have "transaction (insert_jobs cfg t js) (calm db w) = (Inr ids, s')"
    by (simp add: sqlite_enqueue_batch_def with_conn_calm)
  then show ?thesis
  proof (rule transaction_calm_Inr)
    fix s1
    assume "insert_jobs cfg t js (calm db w) = (Inr ids, s1)" "sq_db s' = sq_db s1"
    with insert_jobs_wf [OF ok wf] show ?thesis by fastforce
  qed
qed

text \<open>What a program leaves alone: here the watermarks of the schedules.\<close>

definition keeps_marks :: "'a sql \<Rightarrow> bool" where
  "keeps_marks m \<longleftrightarrow> (\<forall>s. db_schedules (sq_db (snd (m s))) = db_schedules (sq_db s))"

lemma keeps_marks_stmt:
  assumes "\<And>db x db'. f db = Inr (x, db') \<Longrightarrow> db_schedules db' = db_schedules db"
  shows "keeps_marks (sql_stmt err f)"
  using assms by (auto simp: keeps_marks_def sql_stmt_def Let_def split: list.splits option.splits sum.splits prod.splits)

lemma keeps_marks_then:
  assumes "keeps_marks m" and "\<And>x. keeps_marks (f x)"
  shows "keeps_marks (sql_then m f)"
  unfolding keeps_marks_def
proof
  fix s
  obtain r s1 where m: "m s = (r, s1)" by fastforce
  then have "db_schedules (sq_db s1) = db_schedules (sq_db s)" using assms(1) unfolding keeps_marks_def by (metis snd_conv)
  with m assms(2) show "db_schedules (sq_db (snd (sql_then m f s))) = db_schedules (sq_db s)"
    by (cases r) (auto simp: sql_then_def keeps_marks_def)
qed

lemma keeps_marks_insert_job: "keeps_marks (insert_job cfg job avail)"
proof -
  have pure: "keeps_marks (sql_lift r)" "keeps_marks (sql_ok x)" for r :: "'r result" and x :: 'x
    by (simp_all add: keeps_marks_def sql_lift_def sql_ok_def)
  have q: "keeps_marks (sql_query q)" for q :: "sqlite_db \<Rightarrow> 'q" unfolding sql_query_def by (rule keeps_marks_stmt) simp
  have row: "keeps_marks (sql_stmt sql_err (\<lambda>db. Inr (insert_row i l p av b db)))" for i l p av b
    by (rule keeps_marks_stmt) (auto simp: insert_row_def Let_def split: if_splits)
  have key: "keeps_marks (insert_unique_key k n)" for k n
    unfolding insert_unique_key_def by (rule keeps_marks_stmt) (auto simp: add_key_def split: if_splits)
  show ?thesis
    unfolding insert_job_def Let_def
    by (intro keeps_marks_then q row key pure | simp add: q row key pure keeps_marks_then split: option.split)+
qed

lemma sqlite_scheduled_calm:
  assumes run: "sqlite_enqueue_scheduled cfg t sid occ nj (calm db w) = (Inr won, s')"
  shows "sb_ok cfg \<Longrightarrow> sqlite_wf cfg db \<Longrightarrow> sqlite_wf cfg (sq_db s')"
    and "won \<Longrightarrow> (\<forall>p. db_schedules db sid = Some p \<longrightarrow> p < occ) \<and>
      db_schedules (sq_db s') = (db_schedules db)(sid \<mapsto> occ)"
    and "\<not> won \<Longrightarrow> (\<exists>p. db_schedules db sid = Some p \<and> occ \<le> p) \<and> sq_db s' = db"
proof -
  let ?body = "sql_then (sql_stmt sql_err (\<lambda>db. Inr (claim_occurrence sid occ db))) (\<lambda>changed.
    if changed then sql_then (insert_job cfg nj (nanos (dur_saturating_add t (nj_delay nj)))) (\<lambda>_. sql_ok True)
    else sql_ok False)"
  from run have "transaction ?body (calm db w) = (Inr won, s')" by (simp add: sqlite_enqueue_scheduled_def with_conn_calm)
  then obtain s1 where body: "?body (calm db w) = (Inr won, s1)" and s1: "sq_db s' = sq_db s1" by (rule transaction_calm_Inr)
  obtain changed db1 where claim: "claim_occurrence sid occ db = (changed, db1)" by fastforce
  have "(sb_ok cfg \<and> sqlite_wf cfg db \<longrightarrow> sqlite_wf cfg (sq_db s')) \<and>
      (won \<longrightarrow> (\<forall>p. db_schedules db sid = Some p \<longrightarrow> p < occ) \<and> db_schedules (sq_db s') = (db_schedules db)(sid \<mapsto> occ)) \<and>
      (\<not> won \<longrightarrow> (\<exists>p. db_schedules db sid = Some p \<and> occ \<le> p) \<and> sq_db s' = db)"
  proof (cases changed)
    case False
    with body claim have "won = False" "s1 = calm db1 w" by (auto simp: sql_calm_simps)
    with claim False s1 show ?thesis by (auto simp: claim_occurrence_def split: option.splits if_splits)
  next
    case True
    obtain r2 s2 where ins: "insert_job cfg nj (nanos (dur_saturating_add t (nj_delay nj))) (calm db1 w) = (r2, s2)" by fastforce
    have db1: "db1 = db\<lparr> db_schedules := (db_schedules db)(sid \<mapsto> occ) \<rparr>" "\<forall>p. db_schedules db sid = Some p \<longrightarrow> p < occ"
      using claim True by (auto simp: claim_occurrence_def split: option.splits if_splits)
    from body claim True ins obtain i where i: "r2 = Inr i" "won" "s1 = s2"
      by (cases r2) (auto simp: sql_calm_simps sql_then_def)
    have "db_schedules (sq_db s2) = db_schedules db1"
      using keeps_marks_insert_job ins unfolding keeps_marks_def by (metis snd_conv calm_sel(1))
    moreover have "sqlite_wf cfg (sq_db s2)" if "sb_ok cfg" "sqlite_wf cfg db"
      using insert_job_wf [OF that(1), of db1] that ins i(1) db1(1) by fastforce
    ultimately show ?thesis using i s1 db1 by simp
  qed
  then show "sb_ok cfg \<Longrightarrow> sqlite_wf cfg db \<Longrightarrow> sqlite_wf cfg (sq_db s')"
    and "won \<Longrightarrow> (\<forall>p. db_schedules db sid = Some p \<longrightarrow> p < occ) \<and> db_schedules (sq_db s') = (db_schedules db)(sid \<mapsto> occ)"
    and "\<not> won \<Longrightarrow> (\<exists>p. db_schedules db sid = Some p \<and> occ \<le> p) \<and> sq_db s' = db"
    by blast+
qed

lemma sqlite_reach_wf:
  assumes "sqlite_reach cfg s" and ok: "sb_ok cfg"
  shows "sqlite_wf cfg (sq_db s)"
  using assms(1)
proof (induction rule: sqlite_reach.induct)
  case (opened s res s')
  with migrate_db [of s] show ?case using sqlite_wf_fresh [of cfg 0]
    by (auto simp: sqlite_wf_def sqlite_fresh_db_def receipts_apart_def)
next
  case (call s t c out s')
  then have "sqlite_inv cfg s" using ok by (simp add: sqlite_inv_def)
  from sqlite.step_keeps [OF this call.hyps(2,3)] show ?case by (simp add: sqlite_inv_def)
next
  case (batch s t js ids s')
  from sql_fair_ops(8) sql_atomic_ops(5) batch.hyps(2) batch.IH show ?case
    by (rule keeps_wf) (rule sqlite_batch_wf [OF ok batch.IH])
next
  case (requeue s t i ures s')
  from sql_fair_ops(9) sql_atomic_ops(6) requeue.hyps(2) requeue.IH show ?case
    by (rule keeps_wf) (use sqlite_requeue_wf [OF ok requeue.IH] in fastforce)
next
  case (purge s l n s')
  from sql_fair_ops(10) sql_atomic_ops(7) purge.hyps(2) purge.IH show ?case
    by (rule keeps_wf) (use wf_dead_filter [OF purge.IH] in \<open>auto simp: sqlite_purge_dead_letters_def sql_calm_simps\<close>)
next
  case (scheduled s t sid occ nj won s')
  from sql_fair_ops(11) sql_atomic_ops(8) scheduled.hyps(2) scheduled.IH show ?case
    by (rule keeps_wf) (rule sqlite_scheduled_calm(1) [OF _ ok scheduled.IH])
next
  case (unschedule s sid ures s')
  from sql_fair_ops(12) sql_atomic_ops(9) unschedule.hyps(2) unschedule.IH show ?case
    by (rule keeps_wf) (use unschedule.IH in \<open>auto simp: sqlite_remove_schedule_def sql_calm_simps\<close>)
next
  case (stored s i b ures s')
  from sql_fair_ops(13) sql_atomic_ops(10) stored.hyps(2) stored.IH show ?case
    by (rule keeps_wf) (use stored.IH in \<open>auto simp: sqlite_result_store_def sql_calm_simps\<close>)
qed simp

section \<open>The client and the scheduler on SQLite\<close>

interpretation sqlite_client: client_laws "sqlite_broker cfg" "sqlite_inv cfg" "sqlite_view cfg" "sqlite_fresh cfg"
  "sb_lease cfg" sqlite_horizon "sqlite_healthy cfg"
  "file_payload_store U dir" "file_quiet U" "file_content U dir" for cfg U dir
  by unfold_locales

definition sqlite_scheduled_store :: "sqlite_config \<Rightarrow> sqlite_state scheduled_store" where
  "sqlite_scheduled_store cfg =
     \<lparr> ss_enqueue_scheduled = sqlite_enqueue_scheduled cfg, ss_remove_schedule = sqlite_remove_schedule cfg \<rparr>"

interpretation sqlite_marks: watermark_store "sqlite_scheduled_store cfg" "\<lambda>s. db_schedules (sq_db s)" sq_db for cfg
proof (unfold_locales, unfold sqlite_scheduled_store_def scheduled_store.simps, goal_cases)
  case (1 s' s)
  then show ?case by simp
next
  case (2 t i k job s s')
  from sql_fair_ops(11) sql_atomic_ops(8) 2 show ?case
    by (cases rule: sql_outcome) (auto dest: sqlite_scheduled_calm(2))
next
  case (3 t i k job s s')
  from sql_fair_ops(11) sql_atomic_ops(8) 3 show ?case
    by (cases rule: sql_outcome) (auto dest: sqlite_scheduled_calm(3))
next
  case (4 t i k job s e s')
  then show ?case using sql_atomic_ops(8) unfolding sql_atomic_def by blast
qed

section \<open>A database to look at\<close>

text \<open>A codec that knows one job, a fresh in-memory database, the job enqueued, and an engine that
  will answer one call and refuse the next.\<close>

definition demo_codec :: codec where
  "demo_codec =
     \<lparr> cd_to_vec = (\<lambda>e. if e = into_envelope (demo_job 1) then Inr [1] else Inl ''unsupported''),
       cd_from_slice = (\<lambda>b. if b = [1] then Inr (into_envelope (demo_job 1)) else Inl ''malformed''),
       cd_receipt = (\<lambda>r. Inr (uc_show hyphenated (receipt_uuid r))),
       cd_uuid = hyphenated \<rparr>"

definition demo_sqlite :: sqlite_config where
  "demo_sqlite = sqlite_with_pool demo_codec MemoryPool"

definition demo_row :: job_row where
  "demo_row = \<lparr> jr_seq = 1, jr_id = uc_show hyphenated 1, jr_receipt = None, jr_lane = ''q'', jr_priority = 0,
     jr_available_at = 0, jr_leased_until = None, jr_envelope = [1], jr_deliveries = 0 \<rparr>"

definition demo_db :: sqlite_db where
  "demo_db = sqlite_fresh_db\<lparr> db_version := SCHEMA_VERSION, db_jobs := [demo_row] \<rparr>"

definition demo_shaky :: sqlite_state where
  "demo_shaky = (calm demo_db False)\<lparr> sq_faults := [None, Some ''disk I/O error''] \<rparr>"

lemma demo_codec_ok: "codec_ok demo_codec"
proof -
  have inj: "r = r'" if "uc_show hyphenated (receipt_uuid r) = uc_show hyphenated (receipt_uuid r')" for r r'
    using that hyphenated_ok by (metis uuid_codec_ok_def receipt.expand sum.inject(2))
  show ?thesis
    using hyphenated_ok by (auto simp: codec_ok_def demo_codec_def serde_round_trip_def dest!: inj split: if_splits)
qed

lemma demo_sqlite_sel [simp]:
  "sb_codec demo_sqlite = demo_codec" "sb_pool demo_sqlite = MemoryPool" "sb_lease demo_sqlite = DEFAULT_LEASE"
  "sb_max_deliveries demo_sqlite = None" "sb_retention demo_sqlite = retention_new"
  by (simp_all add: demo_sqlite_def sqlite_with_pool_def)

lemma demo_codes:
  "sb_encode demo_sqlite (into_envelope (demo_job 1)) = Inr [1]"
  "sb_decode demo_sqlite [1] = Inr (into_envelope (demo_job 1))"
  by (simp_all add: encode_envelope_def decode_envelope_def demo_codec_def check_trace_context_def MAX_ENVELOPE_BYTES_def
      demo_job_def new_job_new_def)

lemma demo_job_sel:
  "nj_id (demo_job 1) = JobId 1" "nj_lane (demo_job 1) = demo_lane" "nj_delay (demo_job 1) = 0"
  "nj_unique_key (demo_job 1) = None" "nj_priority (demo_job 1) = 0"
  by (simp_all add: demo_job_def new_job_new_def)

lemma demo_db_reach: "sqlite_reach demo_sqlite (calm demo_db False)"
proof -
  have mig: "migrate (calm sqlite_fresh_db False) = (Inr (), calm (sqlite_fresh_db\<lparr> db_version := SCHEMA_VERSION \<rparr>) False)"
    by (simp add: migrate_def sql_calm_simps sqlite_fresh_db_def check_schema_version_def BASELINE_STATEMENTS_def
        eval_nat_numeral)
  have opened: "sqlite_reach demo_sqlite (calm (sqlite_fresh_db\<lparr> db_version := SCHEMA_VERSION \<rparr>) False)"
    by (rule sqlite_reach.opened [OF _ mig]) simp
  have ins: "insert_job demo_sqlite (demo_job 1) 0 (calm (sqlite_fresh_db\<lparr> db_version := SCHEMA_VERSION \<rparr>) False) =
      (Inr (JobId 1), calm demo_db False)"
    by (simp add: insert_job_def sql_calm_simps demo_codes [simplified] Let_def insert_row_def sqlite_fresh_db_def next_rowid_def
        demo_db_def demo_row_def demo_job_sel demo_lane_def) (simp add: demo_codec_def)
  have step: "call_step (sqlite_broker demo_sqlite) 0 (CEnqueue (demo_job 1))
      (calm (sqlite_fresh_db\<lparr> db_version := SCHEMA_VERSION \<rparr>) False) = (OEnqueued (Inr (JobId 1)), calm demo_db False)"
    by (simp add: sqlite_broker_simps sqlite_enqueue_def with_conn_calm transaction_calm(1) [of "insert_job demo_sqlite (demo_job 1) 0", OF ins] demo_job_sel nanos_def
        i64_of_nat_sat_def I64_MAX_def dur_saturating_add_def)
  show ?thesis by (rule sqlite_reach.call [OF opened _ step]) (simp add: admissible_def)
qed

lemma demo_shaky_reach: "sqlite_reach demo_sqlite demo_shaky"
  unfolding demo_shaky_def by (rule sqlite_reach.script [OF demo_db_reach])

lemma demo_fresh: "sqlite_fresh demo_sqlite r demo_shaky"
  by (simp add: sqlite_fresh_def db_fresh_def demo_shaky_def demo_db_def demo_row_def sqlite_fresh_db_def)

section \<open>Properties\<close>

text \<open>A broker call that was answered with an error.\<close>

fun refused :: "call_outcome \<Rightarrow> bool" where
  "refused (OEnqueued res) = (\<not> is_ok res)"
| "refused (OReserved res) = (\<not> is_ok res)"
| "refused (OResolved res) = (\<not> is_ok res)"

lemma refused_unchanged:
  assumes inv: "sqlite_inv cfg s" and fresh: "\<forall>r. mints c = Some r \<longrightarrow> sqlite_fresh cfg r s"
    and step: "call_step (sqlite_broker cfg) t c s = (out, s')" and ref: "refused out"
  shows "sq_db s' = sq_db s"
proof -
  have atom: "sq_db s' = sq_db s" if "sql_atomic m" "m s = (res, s')" "\<not> is_ok res" for m :: "'r sql" and res
    using that by (cases res) (auto simp: sql_atomic_def)
  show ?thesis
    using step
  proof (cases rule: sqlite.call_resolve_cases)
    case (enqueue nj res)
    with ref sql_atomic_ops(1) atom [of "sqlite_enqueue cfg t nj" res] show ?thesis by (simp add: sqlite_broker_simps)
  next
    case (reserve r l res)
    with ref sqlite_reserve_refused [OF inv] show ?thesis by (cases res) (auto simp: sqlite_broker_simps)
  next
    case (resolve r res opn d e)
    from sqlite_resolution [OF inv resolve(1,2) [unfolded sqlite_broker_simps]] ref resolve(3) show ?thesis by auto
  qed
qed

lemma reserve_gone:
  assumes inv: "sqlite_inv cfg s" and fresh: "sqlite_fresh cfg r s" and run: "sqlite_reserve cfg t r l s = (res, s')"
    and row: "row \<in> set (db_jobs (sq_db s))" "jr_id row \<notin> jr_id ` set (db_jobs (sq_db s'))"
  shows "\<not> valid_lease (nanos t) row \<and> over_limit cfg row"
proof -
  have wf: "sqlite_wf cfg (sq_db s)" using inv by (simp add: sqlite_inv_def)
  from inv fresh run show ?thesis
  proof (cases rule: sqlite_reserve_outcome)
    case (refused e)
    with row show ?thesis by auto
  next
    case idle
    with swept_facts [OF idle(2) wf] row show ?thesis by auto
  next
    case (leased db cand)
    have "map jr_id (db_jobs (sq_db s')) = map jr_id (db_jobs db)"
      unfolding leased(4) by (simp add: update_row_def lease_row_def)
    then have "jr_id ` set (db_jobs (sq_db s')) = jr_id ` set (db_jobs db)" by (metis set_map)
    with row(2) have "row \<notin> set (db_jobs db)" by auto
    with swept_facts [OF leased(1) wf] row(1) show ?thesis by auto
  qed
qed

text \<open>C40: the tables are well typed.  Whatever operations have run, on whatever script of engine
  failures, every live row decodes to an envelope whose id, lane and priority are its columns, it
  has a receipt exactly when it has a lease, ids and receipts are not shared, every uniqueness key
  belongs to exactly one live row, and every dead row decodes to an envelope of its id and lane.\<close>

theorem sqlite_tables_well_typed:
  assumes "sqlite_reach cfg s" and "codec_ok (sb_codec cfg)"
  shows "let db = sq_db s in
    (\<forall>row \<in> set (db_jobs db). \<exists>e. sb_decode cfg (jr_envelope row) = Inr e \<and> jr_id row = sb_id cfg (env_id e) \<and>
       jr_lane row = lane_str (env_lane e) \<and> jr_priority row = int (unat (env_priority e)) \<and>
       (jr_receipt row = None \<longleftrightarrow> jr_leased_until row = None)) \<and>
    distinct (map jr_id (db_jobs db)) \<and>
    (\<forall>a \<in> set (db_jobs db). \<forall>b \<in> set (db_jobs db). \<forall>k. jr_receipt a = Some k \<and> jr_receipt b = Some k \<longrightarrow> a = b) \<and>
    distinct (map fst (db_unique_keys db)) \<and>
    (\<forall>(k, seq) \<in> set (db_unique_keys db). \<exists>!row. row \<in> set (db_jobs db) \<and> jr_seq row = seq) \<and>
    (\<forall>d \<in> set (db_dead db). \<exists>e. sb_decode cfg (dr_envelope d) = Inr e \<and> dr_id d = sb_id cfg (env_id e) \<and>
       dr_lane d = lane_str (env_lane e)) \<and>
    distinct (map dr_id (db_dead db))"
proof -
  note wf = sqlite_reach_wf [OF assms]
  have rows: "\<forall>row \<in> set (db_jobs (sq_db s)). \<exists>e. sb_decode cfg (jr_envelope row) = Inr e \<and> jr_id row = sb_id cfg (env_id e) \<and>
      jr_lane row = lane_str (env_lane e) \<and> jr_priority row = int (unat (env_priority e)) \<and>
      (jr_receipt row = None \<longleftrightarrow> jr_leased_until row = None)"
    using sqlite_wfD(3) [OF wf] unfolding row_ok_def by meson
  have receipts: "\<forall>a \<in> set (db_jobs (sq_db s)). \<forall>b \<in> set (db_jobs (sq_db s)). \<forall>k.
      jr_receipt a = Some k \<and> jr_receipt b = Some k \<longrightarrow> a = b"
    using sqlite_wfD(4) [OF wf] same_seq_same_row [OF wf] unfolding receipts_apart_def by meson
  have keys: "\<forall>(k, seq) \<in> set (db_unique_keys (sq_db s)). \<exists>!row. row \<in> set (db_jobs (sq_db s)) \<and> jr_seq row = seq"
  proof (clarify)
    fix k seq
    assume "(k, seq) \<in> set (db_unique_keys (sq_db s))"
    from sqlite_wfD(7) [OF wf this] obtain row where row: "row \<in> set (db_jobs (sq_db s))" "jr_seq row = seq" by auto
    then show "\<exists>!row. row \<in> set (db_jobs (sq_db s)) \<and> jr_seq row = seq"
      using same_seq_same_row [OF wf] by (intro ex1I [of _ row]) simp_all
  qed
  have dead: "\<forall>d \<in> set (db_dead (sq_db s)). \<exists>e. sb_decode cfg (dr_envelope d) = Inr e \<and> dr_id d = sb_id cfg (env_id e) \<and>
      dr_lane d = lane_str (env_lane e)"
    using sqlite_wfD(10) [OF wf] unfolding dead_ok_def by meson
  note ids = sqlite_wfD(2) [OF wf] and names = sqlite_wfD(5) [OF wf] and dead_ids = sqlite_wfD(9) [OF wf]
  show ?thesis unfolding Let_def by (intro conjI; fact rows ids receipts names keys dead dead_ids)
qed

theorem sqlite_tables_well_typed_witness:
  "\<exists>e. sb_decode demo_sqlite (jr_envelope demo_row) = Inr e \<and> jr_id demo_row = sb_id demo_sqlite (env_id e) \<and>
     db_jobs (sq_db demo_shaky) = [demo_row]"
proof -
  have "db_jobs (sq_db demo_shaky) = [demo_row]" by (simp add: demo_shaky_def demo_db_def)
  with sqlite_tables_well_typed [OF demo_shaky_reach] demo_codec_ok show ?thesis by (auto simp: Let_def)
qed

text \<open>Exclusive delivery on SQLite.  From any reachable state, on any script of engine failures
  before, during and after, once a reservation has handed a job out no call of any client before the
  lease runs out hands the same job out again, as long as nobody presents its receipt.\<close>

theorem sqlite_exclusive_delivery:
  assumes "sqlite_reach cfg s" and "codec_ok (sb_codec cfg)" and "sqlite_fresh cfg r s" and "t0 \<le> sqlite_horizon"
    and "sqlite_reserve cfg t0 r l s = (Inr (Some rsv), s1)"
    and "fair_calls (sqlite_fresh cfg) sqlite_horizon cs s1"
    and "calls_run (sqlite_broker cfg) cs s1 = (outs, s2)"
    and "\<forall>(t, c) \<in> set cs. t0 \<le> t \<and> t < t0 + sb_lease cfg \<and> presents c \<noteq> Some r"
  shows "\<forall>out \<in> set outs. \<forall>e. handed_out out = Some e \<longrightarrow> env_id e \<noteq> env_id (rsv_envelope rsv)"
proof -
  have inv: "sqlite_inv cfg s" using sqlite_reach_wf [OF assms(1,2)] assms(2) by (simp add: sqlite_inv_def)
  from sqlite.exclusive_delivery [OF inv assms(3,4) _ assms(6,7,8)] assms(5) show ?thesis
    by (simp add: sqlite_broker_simps)
qed

lemma demo_shaky_reserve:
  "sqlite_reserve demo_sqlite 0 (Receipt 7) demo_lane demo_shaky =
     (Inr (Some (reservation_new (into_envelope (demo_job 1)) (Receipt 7) DEFAULT_LEASE)),
      \<lparr> sq_db = update_row 1 (lease_row (uc_show hyphenated 7) (nanos DEFAULT_LEASE)) demo_db,
        sq_faults = [Some ''disk I/O error''], sq_dlq_warned = False \<rparr>)"
proof -
  have cand: "next_candidate ''q'' 0 demo_db = Some demo_row"
    by (simp add: next_candidate_def demo_db_def sqlite_fresh_db_def row_visible_def demo_row_def)
  have key: "sb_receipt demo_sqlite (Receipt 7) = Inr (uc_show hyphenated 7)"
    by (simp add: receipt_key_def demo_codec_def)
  have zero: "nanos 0 = 0" "dur_saturating_add 0 DEFAULT_LEASE = DEFAULT_LEASE"
    by (simp_all add: nanos_def i64_of_nat_sat_def I64_MAX_def dur_saturating_add_def DEFAULT_LEASE_def from_secs_def DURATION_MAX_def)
  have lease: "lease_next (uc_show hyphenated 7) (nanos DEFAULT_LEASE) ''q'' 0 demo_shaky =
      (Inr (Some [1]), \<lparr> sq_db = update_row 1 (lease_row (uc_show hyphenated 7) (nanos DEFAULT_LEASE)) demo_db,
        sq_faults = [Some ''disk I/O error''], sq_dlq_warned = False \<rparr>)"
    by (simp add: lease_next_def sql_stmt_def demo_shaky_def cand calm_def) (simp add: demo_row_def)
  show ?thesis
    by (simp add: sqlite_reserve_def key [simplified] zero with_conn_def sql_then_lift demo_lane_def)
      (simp add: sql_then_def lease demo_codes [simplified] sql_lift_def sql_ok_def)
qed

theorem sqlite_exclusive_delivery_witness:
  "JobId 1 \<notin> set (List.map_filter (\<lambda>out. map_option (\<lambda>e. env_id e) (handed_out out))
     (fst (calls_run (sqlite_broker demo_sqlite)
       [(1, CExtend (Receipt 7)), (2, CReserve (Receipt 8) demo_lane)]
       (snd (sqlite_reserve demo_sqlite 0 (Receipt 7) demo_lane demo_shaky)))))"
proof -
  let ?cs = "[(1, CExtend (Receipt 7)), (2, CReserve (Receipt 8) demo_lane)]"
  let ?s = "snd (sqlite_reserve demo_sqlite 0 (Receipt 7) demo_lane demo_shaky)"
  have ne: "rkey demo_sqlite (Receipt 7) \<noteq> rkey demo_sqlite (Receipt 8)"
    using rkey_inject [of demo_sqlite "Receipt 7" "Receipt 8"] demo_codec_ok by simp
  have "sqlite_fresh demo_sqlite (Receipt 8) ?s"
    using ne by (simp add: demo_shaky_reserve sqlite_fresh_def db_fresh_def update_row_def demo_db_def sqlite_fresh_db_def
        lease_row_def demo_row_def rkey_def demo_codec_def)
  then have fair: "fair_calls (sqlite_fresh demo_sqlite) sqlite_horizon ?cs ?s"
    by (simp add: fair_calls_def map_filter_simps sqlite_horizon_def)
  have within: "\<forall>(t, c) \<in> set ?cs. 0 \<le> t \<and> t < 0 + sb_lease demo_sqlite \<and> presents c \<noteq> Some (Receipt 7)"
    by (simp add: DEFAULT_LEASE_def from_secs_def)
  have res: "sqlite_reserve demo_sqlite 0 (Receipt 7) demo_lane demo_shaky =
      (Inr (Some (reservation_new (into_envelope (demo_job 1)) (Receipt 7) DEFAULT_LEASE)), ?s)"
    by (simp add: demo_shaky_reserve)
  have ok: "codec_ok (sb_codec demo_sqlite)" using demo_codec_ok by simp
  from sqlite_exclusive_delivery [OF demo_shaky_reach ok demo_fresh _ res fair surjective_pairing within]
  have "\<forall>out \<in> set (fst (calls_run (sqlite_broker demo_sqlite) ?cs ?s)). \<forall>e. handed_out out = Some e \<longrightarrow> env_id e \<noteq> JobId 1"
    by (simp only: reservation_new_simps into_envelope_simps demo_job_sel) simp
  then show ?thesis by (auto simp: map_filter_def)
qed

text \<open>C39: a refused call changes nothing, and no job is lost.  A call the engine fails at any
  statement, or that is rejected, leaves every table as it was.  A live row goes away only when its
  holder acks or fails it with a current receipt, or when a reservation finds it unleased and beyond
  the delivery bound.\<close>

theorem sqlite_no_loss:
  assumes "sqlite_reach cfg s" and "codec_ok (sb_codec cfg)"
    and "admissible (sqlite_fresh cfg) sqlite_horizon t c s"
    and "call_step (sqlite_broker cfg) t c s = (out, s')"
  shows "(refused out \<longrightarrow> sq_db s' = sq_db s) \<and>
    (\<forall>row \<in> set (db_jobs (sq_db s)). jr_id row \<notin> jr_id ` set (db_jobs (sq_db s')) \<longrightarrow>
       (\<exists>r. jr_receipt row = Some (rkey cfg r) \<and> valid_lease (nanos t) row \<and> out = OResolved (Inr ()) \<and>
          (c = CAck r \<or> (\<exists>e. c = CFail r e))) \<or>
       (\<exists>r l. c = CReserve r l \<and> \<not> valid_lease (nanos t) row \<and> over_limit cfg row))"
proof -
  have wf: "sqlite_wf cfg (sq_db s)" using sqlite_reach_wf [OF assms(1,2)] .
  then have inv: "sqlite_inv cfg s" using assms(2) by (simp add: sqlite_inv_def)
  have fresh: "\<forall>r. mints c = Some r \<longrightarrow> sqlite_fresh cfg r s" using assms(3) by (simp add: admissible_def)
  have "(\<exists>r. jr_receipt row = Some (rkey cfg r) \<and> valid_lease (nanos t) row \<and> out = OResolved (Inr ()) \<and>
          (c = CAck r \<or> (\<exists>e. c = CFail r e))) \<or>
       (\<exists>r l. c = CReserve r l \<and> \<not> valid_lease (nanos t) row \<and> over_limit cfg row)"
    if row: "row \<in> set (db_jobs (sq_db s))" "jr_id row \<notin> jr_id ` set (db_jobs (sq_db s'))" for row
  proof -
    obtain e where "row_env cfg row = e" and e: "jr_id row = sb_id cfg (env_id e)" using row(1) by (rule row_okE [OF wf])
    have v: "sqlite_view cfg t s (env_id e) = Some (row_view cfg (sq_db s) t row)" "sqlite_view cfg t s' (env_id e) = None"
      using db_view_row [OF wf row(1) e] row(2) e by (simp_all add: sqlite_view_def db_view_None)
    from sqlite.no_loss [OF inv assms(3,4) v] show ?thesis
    proof
      assume "\<exists>r. holds (sqlite_view cfg t s) (env_id e) r \<and> out = OResolved (Inr ()) \<and> (c = CAck r \<or> (\<exists>e. c = CFail r e))"
      then show ?thesis using v(1) row_held [OF assms(2) wf row(1)] by (auto simp: holds_def)
    next
      assume "jv_held (row_view cfg (sq_db s) t row) = None \<and> (\<exists>r l. c = CReserve r l)"
      then obtain r l where c: "c = CReserve r l" by blast
      then obtain res where run: "sqlite_reserve cfg t r l s = (res, s')"
        using assms(4) by (cases "sqlite_reserve cfg t r l s") (auto simp: sqlite_broker_simps)
      have "\<not> valid_lease (nanos t) row \<and> over_limit cfg row"
        using reserve_gone [OF inv _ run row] fresh c by simp
      with c show ?thesis by blast
    qed
  qed
  with refused_unchanged [OF inv fresh assms(4)] show ?thesis by blast
qed

theorem sqlite_no_loss_witness:
  "let s1 = snd (sqlite_reserve demo_sqlite 0 (Receipt 7) demo_lane demo_shaky);
       (out, s2) = call_step (sqlite_broker demo_sqlite) 1 (CAck (Receipt 7)) s1
   in out = OResolved (Inl (sql_err ''disk I/O error'')) \<and> sq_db s2 = sq_db s1"
proof -
  let ?s1 = "snd (sqlite_reserve demo_sqlite 0 (Receipt 7) demo_lane demo_shaky)"
  have reach: "sqlite_reach demo_sqlite ?s1"
    by (rule sqlite_reach.call [OF demo_shaky_reach, of 0 "CReserve (Receipt 7) demo_lane"])
      (simp_all add: admissible_def demo_fresh sqlite_broker_simps demo_shaky_reserve)
  obtain s2 where ack: "call_step (sqlite_broker demo_sqlite) 1 (CAck (Receipt 7)) ?s1 = (OResolved (Inl (sql_err ''disk I/O error'')), s2)"
    by (simp add: sqlite_broker_simps sqlite_ack_def with_conn_def transaction_def demo_shaky_reserve sql_then_def sql_exec_def
        sql_stmt_def)
  have "refused (OResolved (Inl (sql_err ''disk I/O error'')))" by simp
  with sqlite_no_loss [OF reach _ _ ack] demo_codec_ok have "sq_db s2 = sq_db ?s1"
    by (simp add: admissible_def sqlite_horizon_def)
  with ack show ?thesis by simp
qed

end
