(* ===== verification/Spec2Isabelle.thy ===== *)
theory Spec2Isabelle
  imports Memory_Props Clocks Retry Uuid_Text Worker_Props Worker_Loop_Props Client_Props Workflow_Props Scheduler_Props Sqlite_Props
begin

text \<open>
  A verification development of worklane, a background job runner written in Rust.  Paths below
  are relative to \<^verbatim>\<open>src/crates/\<close>.

  \<^bold>\<open>The program.\<close>  A client (\<^verbatim>\<open>worklane/src/client.rs\<close>, \<^verbatim>\<open>client_builder.rs\<close>) turns a typed job into
  an envelope, offloads a large payload to a payload store (\<^verbatim>\<open>claim_check.rs\<close>) and enqueues it with
  a broker.  A broker (the trait of \<^verbatim>\<open>worklane-core/src/broker.rs\<close>, implemented by
  \<^verbatim>\<open>worklane-memory\<close>, \<^verbatim>\<open>worklane-sqlite\<close> and others) keeps the live jobs and the dead letters; a
  reservation leases a job under a fresh receipt, and ack, retry, defer, extend and fail resolve it
  by that receipt while the lease lasts.  A worker (\<^verbatim>\<open>worklane/src/worker/\<close>) reserves jobs up to its
  concurrency, runs their handlers beside a heartbeat and a deadline, and resolves them.  Fan-in
  workflows (\<^verbatim>\<open>workflow.rs\<close>) are a watcher job that polls its dependencies and then enqueues a
  callback.  The scheduler (\<^verbatim>\<open>worklane-scheduler\<close>) enqueues recurring jobs and claims each
  occurrence in the broker's watermark table.

  \<^bold>\<open>The theories and the code they model.\<close>
  \<^item> \<open>Prelude\<close>: durations (nanoseconds as \<open>nat\<close> with the saturating operations written out), machine
    integers as words, the \<^verbatim>\<open>Vec\<close> operations, results as \<open>error + 'a\<close>, formatted messages as lists of
    fragments.  \<open>Rust_Str\<close>: strings as UTF-8 bytes.  \<open>Float64\<close>: double precision with its rounding.
  \<^item> \<open>Errors\<close>, \<open>Lanes\<close>, \<open>Envelopes\<close>, \<open>Spi\<close>, \<open>Redact\<close>, \<open>Retention\<close>, \<open>Clocks\<close>, \<open>Retry\<close>: the files of the
    same names in \<^verbatim>\<open>worklane-core/src\<close> (\<open>Envelopes\<close> holds \<^verbatim>\<open>id.rs\<close>, \<^verbatim>\<open>envelope.rs\<close> and \<^verbatim>\<open>job.rs\<close>, \<open>Spi\<close>
    also \<^verbatim>\<open>payload.rs\<close>).
  \<^item> \<open>Broker_Contract\<close>: the broker as a record of its methods, and what the trait promises as the
    locales \<open>broker_contract\<close> and \<open>broker_total\<close>, with exclusive delivery and no loss proved once for
    every broker.
  \<^item> \<open>Memory_Broker\<close> (definitions), \<open>Memory_Laws\<close> (invariant and contract), \<open>Memory_Props\<close>:
    \<^verbatim>\<open>worklane-memory/src/lib.rs\<close>; \<open>inner\<close> is the state behind the mutex, one function per method.
  \<^item> \<open>Sqlite_Broker\<close> (definitions), \<open>Sqlite_Engine\<close> (failures of the engine), \<open>Sqlite_Laws\<close>,
    \<open>Sqlite_Contract\<close> (the contract), \<open>Sqlite_Props\<close>: \<^verbatim>\<open>worklane-sqlite/src\<close>; the tables are lists of
    rows, a statement is a function on them, \<open>transaction\<close> rolls back on an error.
  \<^item> \<open>Claim_Check\<close>, \<open>Uuid_Text\<close>: the reference codec, the locale \<open>payload_laws\<close> of a payload store and
    the file store; a concrete text of a UUID.
  \<^item> \<open>Circuit_Breaker\<close>, \<open>Worker_Exec\<close>, \<open>Worker_Laws\<close>, \<open>Worker_Props\<close>: \<^verbatim>\<open>circuit_breaker.rs\<close>,
    \<^verbatim>\<open>execution.rs\<close> and \<^verbatim>\<open>middleware.rs\<close>; the state is the \<open>world\<close> of stores, clocks and flags the
    worker shares with everybody else, and \<open>process\<close> is one job from reservation to resolution.
  \<^item> \<open>Worker_Loop\<close>, \<open>Worker_Loop_Props\<close>: \<^verbatim>\<open>worker/mod.rs\<close> and \<^verbatim>\<open>config.rs\<close>; \<open>run_iter\<close> is a pass of
    \<^verbatim>\<open>run\<close>, \<open>idle_iter\<close> one of \<^verbatim>\<open>run_until_idle\<close>.
  \<^item> \<open>Client\<close>, \<open>Client_Props\<close>; \<open>Workflow\<close>, \<open>Workflow_Laws\<close>, \<open>Workflow_Props\<close>; \<open>Scheduler\<close>,
    \<open>Scheduler_Props\<close>: the files of the same names.

  \<^bold>\<open>What is shown.\<close>
  \<^item> In-memory broker: exclusive delivery under a lease, no loss but by the holder of a receipt or
    beyond the delivery bound, redelivery after a lease when no delivery bound is configured, stale
    receipts refused, the invariant of every reachable state, the choice of the best job, the
    retention bounds, requeue as the inverse of fail under unbounded retention, atomic batches,
    schedule claims in increasing order (C1 to C12).
  \<^item> Worker: the resolution of a job refines a verdict on its outcome for every broker; over the
    in-memory broker the fate of the job, a lost lease, the keepalive, an open circuit; the loops
    stay within the concurrency, drain unless a shutdown timeout cuts the drain short, and return
    the first error they had to report; the events of an attempt (C13 to C22).
  \<^item> Client and workflows: what an enqueue leaves behind in broker and store, a fan-in is submitted
    whole or not at all, the watcher refines a verdict on its dependencies and reschedules itself
    boundedly, its checkpoint restores (C23 to C27).
  \<^item> Scheduler: occurrences fire in order and strictly after the start, and once in a cluster (C28, C29).
  \<^item> Claim check, redaction, retry delays, idle backoff, clocks (C30 to C38).
  \<^item> SQLite: it implements the same contract under every script of engine failures; a refused call
    changes nothing, no job is lost, and the tables stay well typed (C39, C40).  The client and the
    scheduler are also interpreted on it.

  \<^bold>\<open>Parameters.\<close>  \<^verbatim>\<open>serde_json\<close>, the text of a UUID, the crates \<^verbatim>\<open>sigorta\<close>, \<^verbatim>\<open>lengkap\<close>, \<^verbatim>\<open>cron\<close>,
  \<^verbatim>\<open>chrono\<close> and \<^verbatim>\<open>chrono-tz\<close>, handlers and middleware, minted UUIDs and clock readings are arguments;
  what is relied on of them is a named predicate (\<open>codec_ok\<close>, \<open>uuid_codec_ok\<close>, \<open>lengkap_ok\<close>,
  \<open>cron_ok\<close>), and the witnesses instantiate them.  Of SQLite it is used that a failed statement has
  no effect and that a transaction without a successful commit is rolled back.

  \<^bold>\<open>Bounds and steps.\<close>  The definitions are total.  The loops of the worker and the scheduler recurse
  on the list of what the environment does in each pass, so a run is a prefix of an execution, and
  that they return is stated as such.  The sweeps of a reservation recurse on the number of dead
  letters still allowed (128), which is the code's own bound.  The redaction scans recurse on the
  rest of the text.  The laws of the brokers are stated for clock readings below a
  horizon where their arithmetic saturates: the largest \<^verbatim>\<open>Duration\<close> in memory, the largest \<^verbatim>\<open>i64\<close>
  number of nanoseconds (the year 2262) in SQLite.

  \<^bold>\<open>Idealisations.\<close>  A broker call is one atomic step, as the mutex and the immediate transactions make
  it; the clock, which the in-memory broker reads just before it takes the lock, is read in the same
  step.  A handler acts on the world when it completes.  The heartbeat interval is a hypothesis of
  the keepalive property and not part of \<open>run_maintained\<close>.  The watcher reads all dependencies in one
  state of broker and store.  Instants of the worker are unbounded, so the panic of a drain deadline
  beyond the range of \<^verbatim>\<open>Instant\<close> does not occur.  Row ids of SQLite do not run out.

  \<^bold>\<open>Not modelled.\<close>  The PostgreSQL and Redis brokers, whose operations are programs for their servers
  (SQL under row locks, Lua scripts); the adapters for metrics, tracing and publish/subscribe; the
  command line; the test harness; logging, the aborting of \<^verbatim>\<open>tokio\<close> tasks and the text of a panic.
\<close>

end
